(* ===== verification/Stega_Prelude.thy ===== *)
theory Stega_Prelude
  imports Main "HOL-Library.Word"
begin

text \<open>
  The prelude of the StegaPNG development: the names of the machine types the C sources use,
  the named collections of facts the component theories fill, and the lemmas on lists, bits and
  words that more than one component needs. Nothing here models code of the repository.
\<close>

unbundle bit_operations_syntax

section \<open>Machine types\<close>

text \<open>
  The sources are compiled for 64-bit Linux (\<^verbatim>\<open>docs/SRS.md\<close>, RNF-30): \<^verbatim>\<open>size_t\<close> and
  \<^verbatim>\<open>unsigned long long\<close> have 64 bits, \<^verbatim>\<open>int\<close> has 32.
\<close>

type_synonym u8 = "8 word"
type_synonym u16 = "16 word"
type_synonym u32 = "32 word"
type_synonym u64 = "64 word"
type_synonym bytes = "8 word list"
type_synonym path = string

section \<open>Collections\<close>

text \<open>
  \<open>frame_simps\<close>: which fields an operation leaves alone; \<open>length_simps\<close>: the sizes of the
  buffers the operations build; \<open>inv_intros\<close>: the rules by which operations keep an invariant.
\<close>

named_theorems frame_simps
named_theorems length_simps
named_theorems inv_intros

section \<open>Iteration\<close>

lemma funpow_inj: "inj f \<Longrightarrow> inj ((f :: 'a \<Rightarrow> 'a) ^^ n)"
  by (induction n) (simp_all add: inj_compose)

lemma foldl_inj_start:
  assumes "\<And>x. inj (\<lambda>s. f s x)"
  shows "inj (\<lambda>s. foldl f s xs)"
proof (induction xs)
  case Nil
  show ?case by (simp add: inj_on_def)
next
  case (Cons x xs)
  have "inj ((\<lambda>s. foldl f s xs) \<circ> (\<lambda>s. f s x))"
    by (rule inj_compose [OF Cons.IH assms])
  then show ?case by (simp add: comp_def)
qed

section \<open>Lists\<close>

lemma take_at: "n = length xs \<Longrightarrow> take n (xs @ ys) = xs"
  by simp

lemma drop_at: "n = length xs \<Longrightarrow> drop n (xs @ ys) = ys"
  by simp

lemma nth_map_upt [simp]: "i < n \<Longrightarrow> map f [0..<n] ! i = f i"
  by simp

lemma take_list_update_Suc:
  "i < length xs \<Longrightarrow> take (Suc i) (xs[i := v]) = take i xs @ [v]"
  by (simp add: take_Suc_conv_app_nth)

section \<open>Bits of words\<close>

lemma and_one_bit: "(w :: 'a::len word) AND 1 \<noteq> 0 \<longleftrightarrow> bit w 0"
  by (simp add: and_one_eq bit_0 odd_iff_mod_2_eq_one)

lemma u8_eqI: "(\<And>n. n < 8 \<Longrightarrow> bit (a :: u8) n = bit b n) \<Longrightarrow> a = b"
  by (rule bit_word_eqI) simp

lemma u32_eqI: "(\<And>n. n < 32 \<Longrightarrow> bit (a :: u32) n = bit b n) \<Longrightarrow> a = b"
  by (rule bit_word_eqI) simp

lemma bit_u8_bound: "bit (a :: u8) n \<Longrightarrow> n < 8"
  by (drule bit_imp_le_length) simp

lemma bit_u32_bound: "bit (a :: u32) n \<Longrightarrow> n < 32"
  by (drule bit_imp_le_length) simp

section \<open>Unsigned values in range\<close>

lemma unat_of_nat_u64: "n < 2 ^ 64 \<Longrightarrow> unat (of_nat n :: u64) = n"
  by (simp add: unat_of_nat take_bit_nat_eq_self)

lemma unat_of_nat_u32: "n < 2 ^ 32 \<Longrightarrow> unat (of_nat n :: u32) = n"
  by (simp add: unat_of_nat take_bit_nat_eq_self)

lemma unat_of_nat_u16: "n < 2 ^ 16 \<Longrightarrow> unat (of_nat n :: u16) = n"
  by (simp add: unat_of_nat take_bit_nat_eq_self)

lemma unat_mult_u64: "unat a * unat b < 2 ^ 64 \<Longrightarrow> unat (a * b :: u64) = unat a * unat b"
  by (simp add: unat_word_ariths)

lemma unat_add_u64: "unat a + unat b < 2 ^ 64 \<Longrightarrow> unat (a + b :: u64) = unat a + unat b"
  by (simp add: unat_word_ariths)

lemma unat_u32_bound: "unat (x :: u32) < 2 ^ 32"
  using unsigned_less [of x] by simp

lemma unat_u64_bound: "unat (x :: u64) < 2 ^ 64"
  using unsigned_less [of x] by simp

lemma unat_ucast_u32_u64 [simp]: "unat (ucast (x :: u32) :: u64) = unat x"
proof -
  have "unat x < 2 ^ 64" using unat_u32_bound [of x] by simp
  then show ?thesis by (simp add: unsigned_ucast_eq take_bit_nat_eq_self)
qed

end
