(* ===== verification/Stego_Crc.thy ===== *)
theory Stego_Crc
  imports Stega_Prelude
begin

text \<open>
  The checksum of \<^verbatim>\<open>src/server/stego.c\<close>: the lookup table of \<^verbatim>\<open>crc32_build_table\<close>, the table
  driven loop of \<^verbatim>\<open>stego_crc32\<close> and its lazily initialised global table. The lemmas show that
  the optimised routine is the standard CRC-32 as a polynomial division, that the cached table never changes a result, and
  that the checksum separates any two messages that differ in at most four adjacent bytes.
\<close>

section \<open>Model\<close>

definition crc32_table_step :: "u32 \<Rightarrow> u32" where
  "crc32_table_step c = (if c AND 1 \<noteq> 0 then 0xEDB88320 XOR drop_bit 1 c else drop_bit 1 c)"

definition crc32_build_table :: "u32 list" where
  "crc32_build_table = map (\<lambda>i. (crc32_table_step ^^ 8) (of_nat i)) [0..<256]"

definition crc32_loop :: "u32 list \<Rightarrow> u32 \<Rightarrow> u8 \<Rightarrow> u32" where
  "crc32_loop table c b = table ! unat ((c XOR ucast b) AND 0xFF) XOR drop_bit 8 c"

definition stego_crc32 :: "bytes \<Rightarrow> u32" where
  "stego_crc32 data = foldl (crc32_loop crc32_build_table) 0xFFFFFFFF data XOR 0xFFFFFFFF"

text \<open>The globals \<^verbatim>\<open>g_crc32_table\<close> and \<^verbatim>\<open>g_crc32_table_ready\<close>, and the call that fills them.\<close>

record crc_globals =
  g_crc32_table :: "u32 list"
  g_crc32_table_ready :: bool

definition crc_globals_init :: crc_globals where
  "crc_globals_init = \<lparr>g_crc32_table = replicate 256 0, g_crc32_table_ready = False\<rparr>"

definition stego_crc32_lazy :: "crc_globals \<Rightarrow> bytes \<Rightarrow> u32 \<times> crc_globals" where
  "stego_crc32_lazy g data =
     (let g' = (if \<not> g_crc32_table_ready g
                then \<lparr>g_crc32_table = crc32_build_table, g_crc32_table_ready = True\<rparr>
                else g)
      in (foldl (crc32_loop (g_crc32_table g')) 0xFFFFFFFF data XOR 0xFFFFFFFF, g'))"

fun crc32_calls :: "crc_globals \<Rightarrow> bytes list \<Rightarrow> u32 list" where
  "crc32_calls g [] = []"
| "crc32_calls g (d # ds) = (case stego_crc32_lazy g d of (c, g') \<Rightarrow> c # crc32_calls g' ds)"

section \<open>One bit at a time\<close>

definition crc_byte :: "u32 \<Rightarrow> u8 \<Rightarrow> u32" where
  "crc_byte c b = (crc32_table_step ^^ 8) (c XOR ucast b)"

text \<open>The little-endian value of at most four bytes, as the register absorbs them.\<close>

fun le_word :: "bytes \<Rightarrow> u32" where
  "le_word [] = 0"
| "le_word (b # bs) = ucast b XOR push_bit 8 (le_word bs)"

section \<open>The step is linear and injective\<close>

lemma crc32_table_step_bit:
  "bit (crc32_table_step c) n = ((bit c 0 \<and> bit (0xEDB88320 :: u32) n) \<noteq> bit c (Suc n))"
  unfolding crc32_table_step_def and_one_bit by (auto simp: bit_simps)

lemma crc32_table_step_xor:
  "crc32_table_step (a XOR b) = crc32_table_step a XOR crc32_table_step b"
  by (rule bit_word_eqI) (auto simp: crc32_table_step_bit bit_xor_iff)

lemma crc32_table_step_inj: "inj crc32_table_step"
proof (rule injI)
  fix a b :: u32
  assume eq: "crc32_table_step a = crc32_table_step b"
  then have "bit (crc32_table_step a) 31 = bit (crc32_table_step b) 31" by simp
  then have low: "bit a 0 = bit b 0"
    by (simp add: crc32_table_step_bit) (auto dest: bit_u32_bound)
  show "a = b"
  proof (rule u32_eqI)
    fix n :: nat
    assume "n < 32"
    show "bit a n = bit b n"
    proof (cases n)
      case 0
      with low show ?thesis by simp
    next
      case (Suc m)
      from eq have "bit (crc32_table_step a) m = bit (crc32_table_step b) m" by simp
      with low Suc show ?thesis by (simp add: crc32_table_step_bit) blast
    qed
  qed
qed

lemma crc_steps_xor:
  "(crc32_table_step ^^ n) (a XOR b) = (crc32_table_step ^^ n) a XOR (crc32_table_step ^^ n) b"
  by (induction n) (simp_all add: crc32_table_step_xor)

lemma crc_steps_inj: "(crc32_table_step ^^ n) a = (crc32_table_step ^^ n) b \<Longrightarrow> a = b"
  by (rule injD [OF funpow_inj [OF crc32_table_step_inj]])

lemma crc_steps_shift:
  "(\<And>k. k < n \<Longrightarrow> \<not> bit x k) \<Longrightarrow> (crc32_table_step ^^ n) x = drop_bit n x"
proof (induction n arbitrary: x)
  case 0
  show ?case by simp
next
  case (Suc n)
  have "\<not> bit x 0" using Suc.prems [of 0] by simp
  then have step: "crc32_table_step x = drop_bit 1 x"
    unfolding crc32_table_step_def and_one_bit by simp
  have "(crc32_table_step ^^ n) (drop_bit 1 x) = drop_bit n (drop_bit 1 x)"
    by (rule Suc.IH) (use Suc.prems in \<open>simp add: bit_simps\<close>)
  then show ?case
    by (simp add: funpow_Suc_right step del: funpow.simps)
qed

section \<open>The table driven loop is the bitwise CRC\<close>

lemma crc32_table_nth:
  "i < 256 \<Longrightarrow> crc32_build_table ! i = (crc32_table_step ^^ 8) (of_nat i)"
  by (simp add: crc32_build_table_def)

lemma crc32_build_table_length [length_simps]: "length crc32_build_table = 256"
  by (simp add: crc32_build_table_def)

lemma and_255_bound: "unat ((x :: u32) AND 0xFF) < 256"
proof -
  have "x AND 0xFF \<le> 0xFF" by (rule word_and_le1)
  then have "unat (x AND 0xFF) \<le> unat (0xFF :: u32)" by (simp add: word_le_nat_alt)
  then show ?thesis by simp
qed

lemma split_low_byte: "(x :: u32) = (x AND 0xFF) XOR (push_bit 8 (drop_bit 8 x))"
proof (rule u32_eqI)
  fix n :: nat
  assume "n < 32"
  have "bit (0xFF :: u32) n \<longleftrightarrow> n < 8"
    using bit_mask_iff [where 'a = u32, of 8 n] \<open>n < 32\<close> by (simp add: mask_eq_exp_minus_1)
  with \<open>n < 32\<close> show "bit x n = bit ((x AND 0xFF) XOR push_bit 8 (drop_bit 8 x)) n"
    by (auto simp: bit_simps)
qed

lemma drop_8_ucast: "drop_bit 8 (ucast (b :: u8) :: u32) = 0"
  by (rule bit_word_eqI) (auto simp: bit_simps dest: bit_u8_bound)

lemma crc32_loop_eq: "crc32_loop crc32_build_table c b = crc_byte c b"
proof -
  let ?x = "c XOR ucast b :: u32"
  have "crc_byte c b = (crc32_table_step ^^ 8) ((?x AND 0xFF) XOR push_bit 8 (drop_bit 8 ?x))"
    unfolding crc_byte_def using split_low_byte [of ?x] by simp
  also have "\<dots> = (crc32_table_step ^^ 8) (?x AND 0xFF)
      XOR (crc32_table_step ^^ 8) (push_bit 8 (drop_bit 8 ?x))"
    by (rule crc_steps_xor)
  also have "(crc32_table_step ^^ 8) (push_bit 8 (drop_bit 8 ?x)) = drop_bit 8 c"
  proof -
    have "drop_bit 8 (push_bit 8 (drop_bit 8 c)) = drop_bit 8 c"
      by (rule bit_word_eqI) (auto simp: bit_simps dest: bit_u32_bound)
    then show ?thesis
      by (subst crc_steps_shift) (simp_all add: bit_simps drop_bit_xor drop_8_ucast)
  qed
  also have "(crc32_table_step ^^ 8) (?x AND 0xFF) = crc32_build_table ! unat (?x AND 0xFF)"
    using crc32_table_nth [OF and_255_bound [of ?x]] by simp
  finally show ?thesis by (simp add: crc32_loop_def)
qed

lemma crc32_loop_eq_fun: "crc32_loop crc32_build_table = crc_byte"
  by (intro ext) (rule crc32_loop_eq)

lemma all_ones: "(0xFFFFFFFF :: u32) = - 1"
  by simp

lemma xor_all_ones: "(x :: u32) XOR 0xFFFFFFFF = NOT x"
  unfolding all_ones by (rule bit_word_eqI) (simp add: bit_simps)

lemma stego_crc32_foldl: "stego_crc32 data = NOT (foldl crc_byte (NOT 0) data)"
  unfolding stego_crc32_def crc32_loop_eq_fun xor_all_ones by (simp add: all_ones)

section \<open>Reference: the checksum by its defining parameters\<close>

text \<open>
  CRC-32 as catalogued: width 32, polynomial \<open>0x04C11DB7\<close>, initial value and final mask all ones, input
  and output reflected. The register is the remainder so far, its top bit the highest power; a step
  multiplies by the unknown, adds the next bit of the message and subtracts the generator if needed.
\<close>

definition crc32_generator :: u32 where
  "crc32_generator = 0x04C11DB7"

definition divide_step :: "u32 \<Rightarrow> bool \<Rightarrow> u32" where
  "divide_step r m = (if bit r 31 \<noteq> m then push_bit 1 r XOR crc32_generator else push_bit 1 r)"

definition reflected_bits :: "u8 \<Rightarrow> bool list" where
  "reflected_bits b = map (bit b) [0..<8]"

definition standard_crc32 :: "bytes \<Rightarrow> u32" where
  "standard_crc32 data =
     word_reverse (foldl divide_step 0xFFFFFFFF (concat (map reflected_bits data))) XOR 0xFFFFFFFF"

text \<open>One bit of the message absorbed at the low end of the reflected register.\<close>

definition absorb_bit :: "u32 \<Rightarrow> bool \<Rightarrow> u32" where
  "absorb_bit c m = crc32_table_step (c XOR of_bool m)"

lemma generator_reversed: "word_reverse crc32_generator = 0xEDB88320"
  by code_simp

lemma divide_step_reversed: "word_reverse (divide_step r m) = absorb_bit (word_reverse r) m"
proof (rule u32_eqI)
  fix n :: nat
  assume n: "n < 32"
  have g: "bit (0xEDB88320 :: u32) n = bit crc32_generator (31 - n)"
    unfolding generator_reversed [symmetric] using n by (simp add: bit_word_reverse_iff)
  have top: "bit (word_reverse r XOR of_bool m) 0 = (bit r 31 \<noteq> m)"
    by (simp add: bit_simps)
  have low: "bit (word_reverse r XOR of_bool m) (Suc n) = (n < 31 \<and> bit r (30 - n))"
    by (auto simp: bit_simps)
  have "bit (push_bit 1 r) (31 - n) = (n < 31 \<and> bit r (30 - n))"
    unfolding bit_push_bit_iff using n by (auto dest: bit_u32_bound)
  then show "bit (word_reverse (divide_step r m)) n = bit (absorb_bit (word_reverse r) m) n"
    unfolding absorb_bit_def crc32_table_step_bit top low g
    using n by (cases "n < 31") (auto simp: divide_step_def bit_word_reverse_iff bit_xor_iff)
qed

lemma divide_run: "word_reverse (foldl divide_step r ms) = foldl absorb_bit (word_reverse r) ms"
  by (induction ms arbitrary: r) (simp_all add: divide_step_reversed)

lemma absorb_bits:
  "k \<le> 8 \<Longrightarrow> foldl absorb_bit c (map (bit (b :: u8)) [0..<k]) = (crc32_table_step ^^ k) (c XOR ucast (take_bit k b))"
proof (induction k)
  case (Suc k)
  let ?S = "\<lambda>n. crc32_table_step ^^ n"
  have split: "(ucast (take_bit (Suc k) b) :: u32) = ucast (take_bit k b) XOR push_bit k (of_bool (bit b k))"
    by (rule bit_word_eqI) (auto simp: bit_simps less_Suc_eq)
  have "?S k (push_bit k (of_bool (bit b k))) = drop_bit k (push_bit k (of_bool (bit b k)))"
    by (rule crc_steps_shift) (auto simp: bit_simps)
  also have "drop_bit k (push_bit k (of_bool (bit b k))) = (of_bool (bit b k) :: u32)"
    using Suc.prems by (intro bit_word_eqI) (auto simp: bit_simps)
  finally have "?S (Suc k) (c XOR ucast (take_bit (Suc k) b))
      = crc32_table_step (?S k (c XOR ucast (take_bit k b)) XOR of_bool (bit b k))"
    by (simp add: split crc_steps_xor xor.assoc)
  then show ?case using Suc by (simp add: absorb_bit_def)
qed simp

lemma absorb_byte: "foldl absorb_bit c (reflected_bits b) = crc_byte c b"
proof -
  have "take_bit 8 b = b" by (rule bit_word_eqI) (auto simp: bit_simps dest: bit_u8_bound)
  then show ?thesis using absorb_bits [of 8 c b] by (simp add: reflected_bits_def crc_byte_def)
qed

lemma absorb_message: "foldl absorb_bit c (concat (map reflected_bits data)) = foldl crc_byte c data"
  by (induction data arbitrary: c) (simp_all add: absorb_byte)

lemma register_run:
  "word_reverse (foldl divide_step 0xFFFFFFFF (concat (map reflected_bits data))) = foldl crc_byte (NOT 0) data"
proof -
  have "word_reverse (0xFFFFFFFF :: u32) = NOT 0"
    unfolding all_ones by (rule bit_word_eqI) (auto simp: bit_simps)
  then show ?thesis by (simp only: divide_run absorb_message)
qed

section \<open>Short bursts\<close>

lemma le_word_bit: "bit (le_word bs) n \<longleftrightarrow> n < 32 \<and> n div 8 < length bs \<and> bit (bs ! (n div 8)) (n mod 8)"
proof (induction bs arbitrary: n)
  case Nil
  show ?case by simp
next
  case (Cons b bs)
  show ?case
  proof (cases "n < 8")
    case True
    then show ?thesis by (auto simp: bit_simps)
  next
    case False
    then have "n div 8 = Suc ((n - 8) div 8)" and "n mod 8 = (n - 8) mod 8"
      by (auto simp: le_div_geq le_mod_geq)
    with False show ?thesis
      by (auto simp: bit_simps Cons.IH dest: bit_u8_bound)
  qed
qed

lemma crc_run_le_word:
  "length bs \<le> 4 \<Longrightarrow> foldl crc_byte c bs = (crc32_table_step ^^ (8 * length bs)) (c XOR le_word bs)"
proof (induction bs arbitrary: c)
  case Nil
  show ?case by simp
next
  case (Cons b bs)
  let ?S = "\<lambda>n. crc32_table_step ^^ n"
  have "drop_bit 8 (push_bit 8 (le_word bs)) = le_word bs"
  proof (rule u32_eqI)
    fix n :: nat
    assume "n < 32"
    show "bit (drop_bit 8 (push_bit 8 (le_word bs))) n = bit (le_word bs) n"
    proof (cases "n < 24")
      case True
      with \<open>n < 32\<close> show ?thesis by (auto simp: bit_simps)
    next
      case False
      with Cons.prems have "\<not> n div 8 < length bs" by auto
      then show ?thesis by (simp add: bit_simps le_word_bit)
    qed
  qed
  then have shift: "?S 8 (push_bit 8 (le_word bs)) = le_word bs"
    by (subst crc_steps_shift) (simp_all add: bit_simps)
  have "foldl crc_byte c (b # bs) = ?S (8 * length bs) (crc_byte c b XOR le_word bs)"
    using Cons by simp
  also have "crc_byte c b XOR le_word bs = ?S 8 (c XOR ucast b XOR push_bit 8 (le_word bs))"
    unfolding crc_byte_def by (simp only: crc_steps_xor shift xor.assoc)
  also have "?S (8 * length bs) (?S 8 (c XOR ucast b XOR push_bit 8 (le_word bs)))
      = ?S (8 * length bs + 8) (c XOR ucast b XOR push_bit 8 (le_word bs))"
    by (simp add: funpow_add)
  finally show ?case by (simp add: algebra_simps xor.assoc)
qed

lemma le_word_inj:
  assumes len: "length xs = length ys" "length xs \<le> 4" and eq: "le_word xs = le_word ys"
  shows "xs = ys"
proof (rule nth_equalityI)
  show "length xs = length ys" by (rule len)
next
  fix i
  assume i: "i < length xs"
  show "xs ! i = ys ! i"
  proof (rule u8_eqI)
    fix n :: nat
    assume n: "n < 8"
    then have "(8 * i + n) div 8 = i" "(8 * i + n) mod 8 = n" "8 * i + n < 32"
      using i len by auto
    then show "bit (xs ! i) n = bit (ys ! i) n"
      using i len le_word_bit [of xs "8 * i + n"] le_word_bit [of ys "8 * i + n"] eq by auto
  qed
qed

lemma crc_byte_inj: "inj (\<lambda>c. crc_byte c b)"
proof (rule injI)
  fix x y
  assume "crc_byte x b = crc_byte y b"
  then have "x XOR ucast b = y XOR ucast b"
    unfolding crc_byte_def by (rule crc_steps_inj)
  then have "(x XOR ucast b) XOR ucast b = (y XOR ucast b) XOR ucast b" by simp
  then show "x = y" by (simp add: xor.assoc)
qed

lemma stego_crc32_burst:
  assumes "length xs = length ys" "length xs \<le> 4"
    and "stego_crc32 (pre @ xs @ post) = stego_crc32 (pre @ ys @ post)"
  shows "xs = ys"
proof -
  let ?c = "foldl crc_byte (NOT 0) pre"
  from assms(3) have "foldl crc_byte (foldl crc_byte ?c xs) post
      = foldl crc_byte (foldl crc_byte ?c ys) post"
    by (simp add: stego_crc32_foldl)
  then have "foldl crc_byte ?c xs = foldl crc_byte ?c ys"
    by (rule injD [OF foldl_inj_start [OF crc_byte_inj]])
  then have "?c XOR le_word xs = ?c XOR le_word ys"
    using assms(1,2) by (simp add: crc_run_le_word crc_steps_inj)
  then have "?c XOR (?c XOR le_word xs) = ?c XOR (?c XOR le_word ys)" by simp
  then have "le_word xs = le_word ys" by (simp add: xor.assoc [symmetric])
  with assms(1,2) show ?thesis by (rule le_word_inj)
qed

section \<open>The lazily built table\<close>

definition crc_globals_wf :: "crc_globals \<Rightarrow> bool" where
  "crc_globals_wf g \<longleftrightarrow> (g_crc32_table_ready g \<longrightarrow> g_crc32_table g = crc32_build_table)"

lemma crc_globals_wf_init: "crc_globals_wf crc_globals_init"
  by (simp add: crc_globals_wf_def crc_globals_init_def)

lemma stego_crc32_lazy_wf:
  "crc_globals_wf g \<Longrightarrow> stego_crc32_lazy g d = (c, g') \<Longrightarrow> c = stego_crc32 d \<and> crc_globals_wf g'"
  by (auto simp: stego_crc32_lazy_def crc_globals_wf_def stego_crc32_def Let_def split: if_splits)

lemma crc32_calls_wf: "crc_globals_wf g \<Longrightarrow> crc32_calls g ds = map stego_crc32 ds"
  by (induction ds arbitrary: g) (auto split: prod.splits dest: stego_crc32_lazy_wf)

section \<open>Properties\<close>

text \<open>
  C27: \<^verbatim>\<open>stego_crc32\<close> is the standard CRC-32. On every input the table driven routine returns what the
  defining parameters of the checksum say: division by the generator polynomial \<open>0x04C11DB7\<close>, most
  significant bit first, of the message with the bits of each byte reflected, from a register of all
  ones, with the result reflected and complemented. Nothing of the reference is taken from the code.
\<close>

theorem stego_crc32_is_standard: "stego_crc32 data = standard_crc32 data"
  by (simp add: standard_crc32_def stego_crc32_foldl register_run xor_all_ones)

text \<open>
  Any sequence of calls that starts with the table not yet built returns, call by call, the
  checksum of its own argument: the lazy initialisation never shows.
\<close>

theorem crc32_lazy_calls: "crc32_calls crc_globals_init ds = map stego_crc32 ds"
  by (rule crc32_calls_wf [OF crc_globals_wf_init])

text \<open>
  Two messages that differ only inside a window of at most four bytes have different
  checksums, so every such corruption of a container is caught by the integrity check.
\<close>

theorem stego_crc32_detects_burst:
  assumes "length xs = length ys" and "length xs \<le> 4" and "xs \<noteq> ys"
  shows "stego_crc32 (pre @ xs @ post) \<noteq> stego_crc32 (pre @ ys @ post)"
  using assms stego_crc32_burst by blast

theorem stego_crc32_detects_burst_witness:
  "stego_crc32 ([1] @ [2, 3] @ [4]) \<noteq> stego_crc32 ([1] @ [2, 7] @ [4])"
  by (rule stego_crc32_detects_burst) simp_all

end
