(* ===== verification/Stego_Image.thy ===== *)
theory Stego_Image
  imports Stega_Prelude "HOL-Library.Signed_Division"
begin

text \<open>
  The pixel buffer of \<^verbatim>\<open>src/server/stego.c\<close> (\<^verbatim>\<open>png_image_buf_t\<close>) and the least-significant-bit
  channel over it: \<^verbatim>\<open>image_data_bit_capacity\<close>, \<^verbatim>\<open>is_data_channel\<close>, \<^verbatim>\<open>embed_bits\<close> and
  \<^verbatim>\<open>extract_bits\<close>, with their nested loops. The lemmas describe both loops through the list of
  carrier bytes of an image and give the contract \<open>bit_channel\<close> of the container code.
\<close>

section \<open>Model\<close>

record png_image_buf =
  img_width :: u32
  img_height :: u32
  img_bit_depth :: int
  img_color_type :: int
  img_channels :: int
  img_rows :: "bytes list"

definition image_data_bit_capacity :: "png_image_buf \<Rightarrow> u64" where
  "image_data_bit_capacity img =
     (let pixels = ucast (img_width img) * ucast (img_height img) :: u64;
          data_channels = (if img_channels img = 4 then 3 else img_channels img)
      in pixels * of_int data_channels)"

text \<open>C's remainder truncates towards zero, as \<open>smod\<close> does.\<close>

definition is_data_channel :: "int \<Rightarrow> int \<Rightarrow> bool" where
  "is_data_channel channels ch_index \<longleftrightarrow> \<not> (channels = 4 \<and> ch_index smod 4 = 3)"

text \<open>The cast \<^verbatim>\<open>(int)x\<close> of a \<^verbatim>\<open>size_t\<close>: the low 32 bits read as a signed value.\<close>

definition size_to_int :: "nat \<Rightarrow> int" where
  "size_to_int x = sint (ucast (of_nat x :: u64) :: u32)"

definition img_row_len :: "png_image_buf \<Rightarrow> nat" where
  "img_row_len img = unat (ucast (img_width img) * of_int (img_channels img) :: u64)"

definition payload_bit :: "bytes \<Rightarrow> nat \<Rightarrow> u8" where
  "payload_bit data bit_index = drop_bit (bit_index mod 8) (data ! (bit_index div 8)) AND 1"

definition put_lsb :: "u8 \<Rightarrow> u8 \<Rightarrow> u8" where
  "put_lsb p b = (p AND 0xFE) OR b"

function embed_row :: "int \<Rightarrow> bytes \<Rightarrow> nat \<Rightarrow> nat \<Rightarrow> nat \<Rightarrow> nat \<Rightarrow> bytes \<Rightarrow> bytes \<times> nat" where
  "embed_row channels data total_bits row_len x bit_index row =
     (if x < row_len \<and> bit_index < total_bits then
        if \<not> is_data_channel channels (size_to_int x)
        then embed_row channels data total_bits row_len (Suc x) bit_index row
        else embed_row channels data total_bits row_len (Suc x) (Suc bit_index)
               (row[x := put_lsb (row ! x) (payload_bit data bit_index)])
      else (row, bit_index))"
  by pat_completeness auto
termination
  by (relation "measure (\<lambda>(channels, data, total_bits, row_len, x, bit_index, row). row_len - x)") auto

function embed_rows ::
  "int \<Rightarrow> bytes \<Rightarrow> nat \<Rightarrow> nat \<Rightarrow> nat \<Rightarrow> nat \<Rightarrow> nat \<Rightarrow> bytes list \<Rightarrow> bytes list" where
  "embed_rows channels data total_bits row_len height y bit_index rows =
     (if y < height \<and> bit_index < total_bits then
        case embed_row channels data total_bits row_len 0 bit_index (rows ! y) of
          (row, bit_index') \<Rightarrow>
            embed_rows channels data total_bits row_len height (Suc y) bit_index' (rows[y := row])
      else rows)"
  by pat_completeness auto
termination
  by (relation "measure (\<lambda>(channels, data, total_bits, row_len, height, y, bit_index, rows). height - y)")
    auto

definition embed_bits :: "png_image_buf \<Rightarrow> bytes \<Rightarrow> u64 \<Rightarrow> png_image_buf" where
  "embed_bits img data len_bytes =
     img\<lparr>img_rows := embed_rows (img_channels img) data (unat (len_bytes * 8)) (img_row_len img)
                       (unat (img_height img)) 0 0 (img_rows img)\<rparr>"

function extract_row :: "int \<Rightarrow> nat \<Rightarrow> nat \<Rightarrow> bytes \<Rightarrow> nat \<Rightarrow> nat \<Rightarrow> bytes \<Rightarrow> bytes \<times> nat" where
  "extract_row channels total_bits row_len row x bit_index data =
     (if x < row_len \<and> bit_index < total_bits then
        if \<not> is_data_channel channels (size_to_int x)
        then extract_row channels total_bits row_len row (Suc x) bit_index data
        else extract_row channels total_bits row_len row (Suc x) (Suc bit_index)
               (data[bit_index div 8 :=
                  data ! (bit_index div 8) OR push_bit (bit_index mod 8) (row ! x AND 1)])
      else (data, bit_index))"
  by pat_completeness auto
termination
  by (relation "measure (\<lambda>(channels, total_bits, row_len, row, x, bit_index, data). row_len - x)") auto

function extract_rows ::
  "int \<Rightarrow> nat \<Rightarrow> nat \<Rightarrow> nat \<Rightarrow> bytes list \<Rightarrow> nat \<Rightarrow> nat \<Rightarrow> bytes \<Rightarrow> bytes" where
  "extract_rows channels total_bits row_len height rows y bit_index data =
     (if y < height \<and> bit_index < total_bits then
        case extract_row channels total_bits row_len (rows ! y) 0 bit_index data of
          (data', bit_index') \<Rightarrow>
            extract_rows channels total_bits row_len height rows (Suc y) bit_index' data'
      else data)"
  by pat_completeness auto
termination
  by (relation "measure (\<lambda>(channels, total_bits, row_len, height, rows, y, bit_index, data). height - y)")
    auto

definition extract_bits :: "png_image_buf \<Rightarrow> u64 \<Rightarrow> bytes" where
  "extract_bits img len_bytes =
     extract_rows (img_channels img) (unat (len_bytes * 8)) (img_row_len img)
       (unat (img_height img)) (img_rows img) 0 0 (replicate (unat len_bytes) 0)"

declare embed_row.simps [simp del] embed_rows.simps [simp del]
  extract_row.simps [simp del] extract_rows.simps [simp del]

section \<open>Well-formed images and their carrier bytes\<close>

text \<open>
  What \<^verbatim>\<open>png_load_rgb_or_rgba\<close> establishes: three or four channels, one row per line, each of
  \<^verbatim>\<open>width * channels\<close> bytes. The last clause keeps the cast of a column index to \<^verbatim>\<open>int\<close> from
  changing its value.
\<close>

definition wf_img :: "png_image_buf \<Rightarrow> bool" where
  "wf_img img \<longleftrightarrow>
     (img_channels img = 3 \<or> img_channels img = 4) \<and>
     length (img_rows img) = unat (img_height img) \<and>
     list_all (\<lambda>r. length r = unat (img_width img) * nat (img_channels img)) (img_rows img) \<and>
     unat (img_width img) * nat (img_channels img) < 2 ^ 31"

abbreviation data_col :: "int \<Rightarrow> nat \<Rightarrow> bool" where
  "data_col ch x \<equiv> is_data_channel ch (size_to_int x)"

definition carriers_from :: "int \<Rightarrow> nat \<Rightarrow> bytes \<Rightarrow> bytes" where
  "carriers_from ch x row = map ((!) row) (filter (data_col ch) [x..<length row])"

definition carriers :: "png_image_buf \<Rightarrow> bytes" where
  "carriers img = concat (map (carriers_from (img_channels img) 0) (img_rows img))"

fun put_bits :: "(nat \<Rightarrow> u8) \<Rightarrow> nat \<Rightarrow> nat \<Rightarrow> bytes \<Rightarrow> bytes" where
  "put_bits f t i [] = []"
| "put_bits f t i (p # ps) = (if i < t then put_lsb p (f i) # put_bits f t (Suc i) ps else p # ps)"

fun get_bits :: "nat \<Rightarrow> nat \<Rightarrow> bytes \<Rightarrow> bytes \<Rightarrow> bytes" where
  "get_bits t i [] data = data"
| "get_bits t i (p # ps) data =
     (if i < t
      then get_bits t (Suc i) ps
             (data[i div 8 := data ! (i div 8) OR push_bit (i mod 8) (p AND 1)])
      else data)"

lemma size_to_int_small: "x < 2 ^ 31 \<Longrightarrow> size_to_int x = int x"
  unfolding size_to_int_def
  by (simp add: unsigned_of_nat signed_of_nat take_bit_nat_eq_self signed_take_bit_int_eq_self)

lemma data_col_3 [simp]: "data_col 3 x"
  by (simp add: is_data_channel_def)

lemma data_col_4: "x < 2 ^ 31 \<Longrightarrow> data_col 4 x \<longleftrightarrow> x mod 4 \<noteq> 3"
proof -
  assume "x < 2 ^ 31"
  moreover have "int x smod 4 = int (x mod 4)"
    by (cases "x = 0") (simp_all add: smod_int_alt_def zmod_int)
  ultimately show ?thesis by (simp add: is_data_channel_def size_to_int_small)
qed

lemma carriers_from_step:
  "x < length row \<Longrightarrow> carriers_from ch x row
     = (if data_col ch x then row ! x # carriers_from ch (Suc x) row else carriers_from ch (Suc x) row)"
  by (simp add: carriers_from_def upt_conv_Cons)

lemma carriers_from_end: "length row \<le> x \<Longrightarrow> carriers_from ch x row = []"
  by (simp add: carriers_from_def)

lemma carriers_from_cong:
  "length r = length r' \<Longrightarrow> (\<And>i. x \<le> i \<Longrightarrow> i < length r \<Longrightarrow> r ! i = r' ! i)
     \<Longrightarrow> carriers_from ch x r = carriers_from ch x r'"
  by (simp add: carriers_from_def)

lemma put_bits_length [length_simps]: "length (put_bits f t i ps) = length ps"
  by (induction ps arbitrary: i) auto

lemma get_bits_length [length_simps]: "length (get_bits t i ps data) = length data"
  by (induction ps arbitrary: i data) auto

lemma put_bits_done [simp]: "t \<le> i \<Longrightarrow> put_bits f t i ps = ps"
  by (cases ps) auto

lemma get_bits_done [simp]: "t \<le> i \<Longrightarrow> get_bits t i ps data = data"
  by (cases ps) auto

lemma put_bits_append:
  "i \<le> t \<Longrightarrow> put_bits f t i (xs @ ys) = put_bits f t i xs @ put_bits f t (min t (i + length xs)) ys"
  by (induction xs arbitrary: i) (auto simp: min_def)

lemma get_bits_append:
  "i \<le> t \<Longrightarrow> get_bits t i (xs @ ys) data = get_bits t (min t (i + length xs)) ys (get_bits t i xs data)"
  by (induction xs arbitrary: i data) (auto simp: min_def)

section \<open>The loops over the carrier bytes\<close>

text \<open>Where a loop stops: past the end of its range, or with every bit placed.\<close>

lemma embed_row_stop: "n \<le> x \<or> t \<le> i \<Longrightarrow> embed_row ch data t n x i row = (row, i)"
  by (subst embed_row.simps) auto

lemma embed_rows_stop: "h \<le> y \<or> t \<le> i \<Longrightarrow> embed_rows ch data t n h y i rows = rows"
  by (subst embed_rows.simps) auto

lemma extract_row_stop: "n \<le> x \<or> t \<le> i \<Longrightarrow> extract_row ch t n row x i data = (data, i)"
  by (subst extract_row.simps) auto

lemma extract_rows_stop: "h \<le> y \<or> t \<le> i \<Longrightarrow> extract_rows ch t n h rows y i data = data"
  by (subst extract_rows.simps) auto

lemmas loop_stop = embed_row_stop embed_rows_stop extract_row_stop extract_rows_stop

lemma embed_row_prefix:
  "embed_row ch data t n x i row = (row', i') \<Longrightarrow> length row' = length row \<and> (\<forall>k < x. row' ! k = row ! k)"
proof (induction ch data t n x i row arbitrary: row' i' rule: embed_row.induct)
  case (1 ch data t n x i row)
  show ?case
  proof (cases "x < n \<and> i < t")
    case True
    show ?thesis
    proof (cases "data_col ch x")
      case data: True
      let ?row = "row[x := put_lsb (row ! x) (payload_bit data i)]"
      from data True "1.prems" have "embed_row ch data t n (Suc x) (Suc i) ?row = (row', i')"
        by (simp add: embed_row.simps [of ch data t n x i row])
      from "1.IH"(2) [OF True _ this] data show ?thesis by auto
    next
      case False
      with True "1.prems" have "embed_row ch data t n (Suc x) i row = (row', i')"
        by (simp add: embed_row.simps [of ch data t n x i row])
      from "1.IH"(1) [OF True False this] show ?thesis by auto
    qed
  next
    case False
    with "1.prems" show ?thesis by (auto simp: loop_stop not_less)
  qed
qed

lemma embed_row_carriers:
  "embed_row ch data t (length row) x i row = (row', i') \<Longrightarrow> i \<le> t \<Longrightarrow>
     carriers_from ch x row' = put_bits (payload_bit data) t i (carriers_from ch x row) \<and>
     i' = min t (i + length (carriers_from ch x row))"
proof (induction ch data t "length row" x i row arbitrary: row' i' rule: embed_row.induct)
  case (1 ch data t x i row)
  show ?case
  proof (cases "x < length row \<and> i < t")
    case False
    with "1.prems" show ?thesis
      by (auto simp: loop_stop carriers_from_end min_def not_less)
  next
    case True
    show ?thesis
    proof (cases "data_col ch x")
      case False
      with True "1.prems" have "embed_row ch data t (length row) (Suc x) i row = (row', i')"
        by (simp add: embed_row.simps [of ch data t "length row" x i row])
      moreover from this have "length row' = length row" by (simp add: embed_row_prefix)
      ultimately show ?thesis
        using "1.hyps"(1) [OF True False] True False "1.prems"(2) by (simp add: carriers_from_step)
    next
      case data: True
      let ?v = "put_lsb (row ! x) (payload_bit data i)"
      from data True "1.prems" have rec: "embed_row ch data t (length (row[x := ?v])) (Suc x) (Suc i) (row[x := ?v]) = (row', i')"
        by (simp add: embed_row.simps [of ch data t "length row" x i row])
      have upd: "carriers_from ch (Suc x) (row[x := ?v]) = carriers_from ch (Suc x) row"
        by (rule carriers_from_cong) simp_all
      from rec have "length row' = length row" "row' ! x = ?v"
        using embed_row_prefix [OF rec] True by auto
      moreover have "carriers_from ch (Suc x) row' = put_bits (payload_bit data) t (Suc i) (carriers_from ch (Suc x) row)
          \<and> i' = min t (Suc i + length (carriers_from ch (Suc x) row))"
        using "1.hyps"(2) [OF True _ _ rec] data True by (simp add: upd)
      ultimately show ?thesis using True data by (simp add: carriers_from_step)
    qed
  qed
qed

lemma extract_row_carriers:
  "n = length row \<Longrightarrow> i \<le> t \<Longrightarrow> extract_row ch t n row x i data =
     (get_bits t i (carriers_from ch x row) data, min t (i + length (carriers_from ch x row)))"
proof (induction ch t n row x i data rule: extract_row.induct)
  case (1 ch t n row x i data)
  show ?case
  proof (cases "x < n \<and> i < t")
    case True
    with 1 show ?thesis
      by (simp add: extract_row.simps [of ch t "length row" row x i data] carriers_from_step)
  next
    case False
    with "1.prems" show ?thesis
      by (auto simp: loop_stop carriers_from_end min_def not_less)
  qed
qed

lemma embed_rows_outside: "k < y \<Longrightarrow> embed_rows ch data t n h y i rows ! k = rows ! k"
proof (induction ch data t n h y i rows rule: embed_rows.induct)
  case (1 ch data t n h y i rows)
  then show ?case
    by (simp add: embed_rows.simps [of ch data t n h y i rows] split: prod.split)
qed

lemma embed_rows_length [length_simps]:
  "length (embed_rows ch data t n h y i rows) = length rows"
proof (induction ch data t n h y i rows rule: embed_rows.induct)
  case (1 ch data t n h y i rows)
  then show ?case
    by (simp add: embed_rows.simps [of ch data t n h y i rows] split: prod.split)
qed

lemma embed_rows_carriers:
  "list_all (\<lambda>r. length r = n) rows \<Longrightarrow> i \<le> t \<Longrightarrow> h = length rows \<Longrightarrow>
     list_all (\<lambda>r. length r = n) (embed_rows ch data t n h y i rows) \<and>
     concat (map (carriers_from ch 0) (drop y (embed_rows ch data t n h y i rows)))
       = put_bits (payload_bit data) t i (concat (map (carriers_from ch 0) (drop y rows)))"
proof (induction ch data t n h y i rows rule: embed_rows.induct)
  case (1 ch data t n h y i rows)
  show ?case
  proof (cases "y < h \<and> i < t")
    case False
    with "1.prems" show ?thesis
      by (auto simp: loop_stop not_less)
  next
    case True
    obtain row' i' where er: "embed_row ch data t n 0 i (rows ! y) = (row', i')" by fastforce
    have len: "length (rows ! y) = n"
      using "1.prems" True by (auto simp: list_all_length)
    have row': "length row' = n"
      and car: "carriers_from ch 0 row' = put_bits (payload_bit data) t i (carriers_from ch 0 (rows ! y))"
      and i': "i' = min t (i + length (carriers_from ch 0 (rows ! y)))"
      using er embed_row_prefix [OF er] embed_row_carriers [of ch data t "rows ! y" 0 i row' i'] len
        "1.prems"(2) by auto
    let ?res = "embed_rows ch data t n h (Suc y) i' (rows[y := row'])"
    have all: "list_all (\<lambda>r. length r = n) (rows[y := row'])"
      using "1.prems"(1,3) row' True by (simp add: list_all_length nth_list_update)
    have IH: "list_all (\<lambda>r. length r = n) ?res \<and> concat (map (carriers_from ch 0) (drop (Suc y) ?res))
        = put_bits (payload_bit data) t i' (concat (map (carriers_from ch 0) (drop (Suc y) rows)))"
      using "1.IH" [OF True er [symmetric]] all "1.prems"(3) i' by simp
    have "drop y ?res = row' # drop (Suc y) ?res"
      using True "1.prems"(3) by (subst Cons_nth_drop_Suc [symmetric])
        (simp_all add: embed_rows_length embed_rows_outside)
    moreover have "drop y rows = rows ! y # drop (Suc y) rows"
      using True "1.prems"(3) by (simp add: Cons_nth_drop_Suc)
    moreover have "embed_rows ch data t n h y i rows = ?res"
      using True er by (simp add: embed_rows.simps [of ch data t n h y i rows])
    ultimately show ?thesis
      using IH car i' "1.prems"(2) by (simp add: put_bits_append)
  qed
qed

lemma extract_rows_carriers:
  "list_all (\<lambda>r. length r = n) rows \<Longrightarrow> i \<le> t \<Longrightarrow> h = length rows \<Longrightarrow>
     extract_rows ch t n h rows y i data
       = get_bits t i (concat (map (carriers_from ch 0) (drop y rows))) data"
proof (induction ch t n h rows y i data rule: extract_rows.induct)
  case (1 ch t n h rows y i data)
  show ?case
  proof (cases "y < h \<and> i < t")
    case False
    with "1.prems" show ?thesis
      by (auto simp: loop_stop not_less)
  next
    case True
    have len: "length (rows ! y) = n"
      using "1.prems" True by (auto simp: list_all_length)
    have er: "extract_row ch t n (rows ! y) 0 i data
        = (get_bits t i (carriers_from ch 0 (rows ! y)) data,
           min t (i + length (carriers_from ch 0 (rows ! y))))"
      by (rule extract_row_carriers) (simp_all add: len "1.prems")
    have "drop y rows = rows ! y # drop (Suc y) rows"
      using True "1.prems"(3) by (simp add: Cons_nth_drop_Suc)
    with True er "1.IH" [OF True er [symmetric]] "1.prems" show ?thesis
      by (simp add: extract_rows.simps [of ch t n "length rows" rows y i data] get_bits_append)
  qed
qed

section \<open>The channel as a whole\<close>

lemma img_row_len_wf: "wf_img img \<Longrightarrow> img_row_len img = unat (img_width img) * nat (img_channels img)"
proof -
  assume wf: "wf_img img"
  let ?ch = "img_channels img"
  have "(of_int ?ch :: u64) = of_nat (nat ?ch)" using wf by (auto simp: wf_img_def)
  moreover have "(ucast (img_width img) :: u64) = of_nat (unat (img_width img))" by simp
  ultimately have "img_row_len img = unat (of_nat (unat (img_width img) * nat ?ch) :: u64)"
    unfolding img_row_len_def by (simp only: of_nat_mult)
  also have "\<dots> = unat (img_width img) * nat ?ch"
    by (rule unat_of_nat_u64) (use wf in \<open>simp add: wf_img_def\<close>)
  finally show ?thesis .
qed

lemma wf_rows:
  "wf_img img \<Longrightarrow> list_all (\<lambda>r. length r = img_row_len img) (img_rows img)
     \<and> length (img_rows img) = unat (img_height img)"
  by (simp add: img_row_len_wf) (simp add: wf_img_def)

lemma embed_bits_fields [frame_simps]:
  "img_width (embed_bits img d n) = img_width img"
  "img_height (embed_bits img d n) = img_height img"
  "img_bit_depth (embed_bits img d n) = img_bit_depth img"
  "img_color_type (embed_bits img d n) = img_color_type img"
  "img_channels (embed_bits img d n) = img_channels img"
  by (simp_all add: embed_bits_def)

lemma embed_bits_carriers:
  "wf_img img \<Longrightarrow> carriers (embed_bits img d n)
     = put_bits (payload_bit d) (unat (n * 8)) 0 (carriers img)"
  using wf_rows [of img] embed_rows_carriers [of "img_row_len img" "img_rows img" 0 "unat (n * 8)"
      "unat (img_height img)" "img_channels img" d 0]
  by (simp add: carriers_def embed_bits_def)

lemma embed_bits_wf [inv_intros]:
  assumes wf: "wf_img img"
  shows "wf_img (embed_bits img d n)"
proof -
  let ?rows = "embed_rows (img_channels img) d (unat (n * 8)) (img_row_len img)
    (unat (img_height img)) 0 0 (img_rows img)"
  have "list_all (\<lambda>r. length r = img_row_len img) ?rows"
    using embed_rows_carriers [of "img_row_len img" "img_rows img" 0] wf_rows [OF wf] by simp
  moreover have "length ?rows = length (img_rows img)" by (rule embed_rows_length)
  ultimately show ?thesis
    using wf by (simp add: wf_img_def embed_bits_def img_row_len_wf [OF wf])
qed

lemma extract_bits_carriers:
  "wf_img img \<Longrightarrow> extract_bits img n = get_bits (unat (n * 8)) 0 (carriers img) (replicate (unat n) 0)"
  using wf_rows [of img] by (simp add: extract_bits_def carriers_def extract_rows_carriers)

lemma extract_bits_length [length_simps]: "wf_img img \<Longrightarrow> length (extract_bits img n) = unat n"
  by (simp add: extract_bits_carriers length_simps)

lemma put_bits_nth:
  "k < length ps \<Longrightarrow> put_bits f t i ps ! k = (if i + k < t then put_lsb (ps ! k) (f (i + k)) else ps ! k)"
proof (induction ps arbitrary: i k)
  case Nil
  then show ?case by simp
next
  case (Cons p ps)
  then show ?case by (cases k) auto
qed

lemma get_bits_bit:
  assumes "k < 8" "j < length data"
  shows "bit (get_bits t i ps data ! j) k \<longleftrightarrow> bit (data ! j) k \<or>
     (i \<le> 8 * j + k \<and> 8 * j + k < t \<and> 8 * j + k < i + length ps \<and> bit (ps ! (8 * j + k - i)) 0)"
  using assms
proof (induction ps arbitrary: i data)
  case Nil
  then show ?case by auto
next
  case (Cons p ps)
  show ?case
  proof (cases "i < t")
    case False
    then show ?thesis by auto
  next
    case True
    let ?d = "data[i div 8 := data ! (i div 8) OR push_bit (i mod 8) (p AND 1)]"
    have here: "bit (?d ! j) k \<longleftrightarrow> bit (data ! j) k \<or> (8 * j + k = i \<and> bit p 0)"
    proof (cases "i div 8 = j")
      case True
      then have i: "i = 8 * j + i mod 8" using div_mult_mod_eq [of i 8] by simp
      have "bit (push_bit (i mod 8) (p AND 1)) k \<longleftrightarrow> k = i mod 8 \<and> bit p 0"
        using Cons.prems(1) by (auto simp: bit_push_bit_iff bit_and_iff bit_1_iff simp del: push_bit_and)
      moreover have "?d ! j = data ! j OR push_bit (i mod 8) (p AND 1)"
        using Cons.prems(2) True by simp
      ultimately show ?thesis using i by (auto simp: bit_or_iff)
    next
      case False
      with Cons.prems show ?thesis by auto
    qed
    have "get_bits t i (p # ps) data = get_bits t (Suc i) ps ?d" using True by simp
    then have "bit (get_bits t i (p # ps) data ! j) k \<longleftrightarrow> bit (?d ! j) k \<or>
      (Suc i \<le> 8 * j + k \<and> 8 * j + k < t \<and> 8 * j + k < Suc i + length ps \<and> bit (ps ! (8 * j + k - Suc i)) 0)"
      using Cons.IH [of ?d "Suc i"] Cons.prems by simp
    then show ?thesis
      unfolding here using True by (cases "8 * j + k = i") (auto simp: nth_Cons')
  qed
qed

lemma length_filter_mod_4: "length (filter (\<lambda>x. x mod 4 \<noteq> 3) [0..<w * 4]) = w * (3 :: nat)"
proof (induction w)
  case 0
  show ?case by simp
next
  case (Suc w)
  have "[0..<Suc w * 4] = [0..<w * 4] @ [w * 4, w * 4 + 1, w * 4 + 2, w * 4 + 3]"
    using upt_add_eq_append [of 0 "w * 4" 4] by (simp add: upt_conv_Cons add.commute)
  moreover have "(w * 4) mod 4 = 0" "(w * 4 + 1) mod 4 = 1" "(w * 4 + 2) mod 4 = 2" "(w * 4 + 3) mod 4 = (3 :: nat)"
    by presburger+
  ultimately show ?case using Suc.IH by simp
qed

lemma length_carriers_row:
  assumes "wf_img img" "r \<in> set (img_rows img)"
  shows "length (carriers_from (img_channels img) 0 r) = unat (img_width img) * 3"
proof -
  have len: "length r = unat (img_width img) * nat (img_channels img)"
    using assms by (auto simp: wf_img_def list_all_iff)
  show ?thesis
  proof (cases "img_channels img = 4")
    case False
    then have "img_channels img = 3" using assms(1) by (auto simp: wf_img_def)
    then show ?thesis using len by (simp add: carriers_from_def)
  next
    case True
    have "filter (data_col 4) [0..<unat (img_width img) * 4]
        = filter (\<lambda>x. x mod 4 \<noteq> 3) [0..<unat (img_width img) * 4]"
      by (rule filter_cong) (use assms(1) True in \<open>auto simp: wf_img_def data_col_4\<close>)
    then show ?thesis using True len by (simp add: carriers_from_def length_filter_mod_4)
  qed
qed

lemma length_carriers:
  assumes "wf_img img"
  shows "length (carriers img) = unat (img_height img) * (unat (img_width img) * 3)"
proof -
  have "length (carriers img) = sum_list (map (\<lambda>r. unat (img_width img) * 3) (img_rows img))"
    unfolding carriers_def length_concat map_map
    by (rule arg_cong [where f = sum_list], rule map_cong) (simp_all add: length_carriers_row [OF assms])
  then show ?thesis using assms by (simp add: sum_list_triv wf_img_def)
qed

lemma carriers_bound:
  assumes "wf_img img"
  shows "length (carriers img) < 2 ^ 63"
proof -
  have "unat (img_width img) * 3 < 2 ^ 31" using assms by (auto simp: wf_img_def)
  moreover have "unat (img_height img) < 2 ^ 32" by (rule unat_u32_bound)
  ultimately have "unat (img_height img) * (unat (img_width img) * 3) < 2 ^ 32 * 2 ^ 31"
    by (intro mult_strict_mono) auto
  then show ?thesis by (simp add: length_carriers [OF assms])
qed

lemma image_data_bit_capacity_carriers:
  assumes wf: "wf_img img"
  shows "unat (image_data_bit_capacity img) = length (carriers img)"
proof -
  let ?p = "ucast (img_width img) * ucast (img_height img) :: u64"
  have cap: "image_data_bit_capacity img = ?p * 3"
    using wf by (auto simp: image_data_bit_capacity_def wf_img_def Let_def)
  have b: "unat (img_width img) * unat (img_height img) * 3 < 2 ^ 63"
    using carriers_bound [OF wf] by (simp add: length_carriers [OF wf] algebra_simps)
  then have p: "unat ?p = unat (img_width img) * unat (img_height img)"
    by (subst unat_mult_u64) simp_all
  have "unat (?p * 3) = unat ?p * 3"
    using b p by (subst unat_mult_u64) simp_all
  then show ?thesis
    unfolding cap p length_carriers [OF wf] by simp
qed

subsection \<open>What the channel promises the container code\<close>

text \<open>
  The contract between the pixel loops and the container format: writing keeps the image and its
  room, reading returns what was written, and a short read is a prefix of a longer one.
\<close>

locale bit_channel =
  fixes store :: "'i \<Rightarrow> bytes \<Rightarrow> 'i"
    and fetch :: "'i \<Rightarrow> nat \<Rightarrow> bytes"
    and room :: "'i \<Rightarrow> nat"
    and ok :: "'i \<Rightarrow> bool"
  assumes store_ok: "ok i \<Longrightarrow> ok (store i d)"
    and store_room: "ok i \<Longrightarrow> room (store i d) = room i"
    and fetch_length: "ok i \<Longrightarrow> n \<le> room i \<Longrightarrow> length (fetch i n) = n"
    and fetch_prefix: "ok i \<Longrightarrow> n \<le> m \<Longrightarrow> m \<le> room i \<Longrightarrow> take n (fetch i m) = fetch i n"
    and fetch_store: "ok i \<Longrightarrow> length d \<le> room i \<Longrightarrow> fetch (store i d) (length d) = d"
begin

lemma fetch_store_prefix:
  "ok i \<Longrightarrow> length d \<le> room i \<Longrightarrow> n \<le> length d \<Longrightarrow> fetch (store i d) n = take n d"
  by (metis store_ok store_room fetch_store fetch_prefix)

lemma fetch_nth:
  "ok i \<Longrightarrow> k < n \<Longrightarrow> n \<le> m \<Longrightarrow> m \<le> room i \<Longrightarrow> fetch i m ! k = fetch i n ! k"
  by (metis fetch_prefix nth_take)

lemma store_injective:
  "ok i \<Longrightarrow> length d = length e \<Longrightarrow> length d \<le> room i \<Longrightarrow> store i d = store i e \<Longrightarrow> d = e"
  by (metis fetch_store)

end

text \<open>Bytes that fit in an image: the \<^verbatim>\<open>avail_bytes\<close> of \<^verbatim>\<open>stego_decode\<close>.\<close>

definition image_avail_bytes :: "png_image_buf \<Rightarrow> nat" where
  "image_avail_bytes img = unat (image_data_bit_capacity img div 8)"

lemma image_avail_bytes_carriers: "wf_img img \<Longrightarrow> image_avail_bytes img = length (carriers img) div 8"
  by (simp add: image_avail_bytes_def unat_div image_data_bit_capacity_carriers)

lemma total_bits_in_range: "n < 2 ^ 60 \<Longrightarrow> unat (of_nat n * 8 :: u64) = n * 8"
  using unat_of_nat_u64 [of "n * 8"] by (simp add: of_nat_mult)

lemma avail_bytes_bound: "wf_img img \<Longrightarrow> image_avail_bytes img < 2 ^ 60"
  using carriers_bound [of img] by (simp add: image_avail_bytes_carriers div_less_iff_less_mult)

lemma put_lsb_bit: "bit (put_lsb p b) k \<longleftrightarrow> (bit p k \<and> k \<noteq> 0) \<or> bit b k"
proof -
  have "bit (0xFE :: u8) k \<longleftrightarrow> k < 8 \<and> k \<noteq> 0"
  proof -
    have "(0xFE :: u8) = NOT 1" by simp
    then have "bit (0xFE :: u8) k = bit (NOT 1 :: u8) k" by (rule arg_cong)
    then show ?thesis by (simp add: bit_not_iff bit_1_iff)
  qed
  then show ?thesis
    unfolding put_lsb_def by (auto simp: bit_or_iff bit_and_iff dest: bit_u8_bound simp del: bit_numeral_iff)
qed

lemma payload_bit_bit: "bit (payload_bit d i) k \<longleftrightarrow> k = 0 \<and> bit (d ! (i div 8)) (i mod 8)"
  unfolding payload_bit_def by (auto simp: bit_and_iff bit_drop_bit_eq bit_1_iff)

lemma extract_bits_bit:
  assumes "wf_img img" "n \<le> image_avail_bytes img" "j < n" "k < 8"
  shows "bit (extract_bits img (of_nat n) ! j) k = bit (carriers img ! (8 * j + k)) 0"
proof -
  have n: "n < 2 ^ 60" using assms(1,2) avail_bytes_bound [of img] by simp
  moreover have "8 * j + k < length (carriers img)"
    using assms by (simp add: image_avail_bytes_carriers)
  ultimately show ?thesis
    using assms by (simp add: extract_bits_carriers get_bits_bit total_bits_in_range unat_of_nat_u64)
qed

lemma extract_bits_of_nat_length:
  "wf_img img \<Longrightarrow> n \<le> image_avail_bytes img \<Longrightarrow> length (extract_bits img (of_nat n)) = n"
  using avail_bytes_bound [of img] by (simp add: extract_bits_length unat_of_nat_u64)

lemma embed_bits_avail:
  "wf_img img \<Longrightarrow> image_avail_bytes (embed_bits img d n) = image_avail_bytes img"
  by (simp add: image_avail_bytes_carriers embed_bits_wf embed_bits_carriers length_simps)

lemma extract_embed_bits:
  assumes wf: "wf_img img" and fits: "length d \<le> image_avail_bytes img"
  shows "extract_bits (embed_bits img d (of_nat (length d))) (of_nat (length d)) = d"
proof (rule nth_equalityI)
  let ?img = "embed_bits img d (of_nat (length d))"
  have wf': "wf_img ?img" and room: "length d \<le> image_avail_bytes ?img"
    using wf fits by (simp_all add: embed_bits_wf embed_bits_avail)
  have n: "length d < 2 ^ 60" using fits avail_bytes_bound [OF wf] by simp
  show len: "length (extract_bits ?img (of_nat (length d))) = length d"
    by (rule extract_bits_of_nat_length [OF wf' room])
  fix j
  assume "j < length (extract_bits ?img (of_nat (length d)))"
  then have j: "j < length d" using len by simp
  show "extract_bits ?img (of_nat (length d)) ! j = d ! j"
  proof (rule u8_eqI)
    fix k :: nat
    assume k: "k < 8"
    have in_range: "8 * j + k < length d * 8" "8 * j + k < length (carriers img)"
      using j k fits by (simp_all add: image_avail_bytes_carriers [OF wf])
    show "bit (extract_bits ?img (of_nat (length d)) ! j) k = bit (d ! j) k"
      using in_range k
      by (simp add: extract_bits_bit [OF wf' room j k] embed_bits_carriers [OF wf] put_bits_nth
          total_bits_in_range [OF n] put_lsb_bit payload_bit_bit)
  qed
qed

interpretation lsb: bit_channel
  "\<lambda>img d. embed_bits img d (of_nat (length d))" "\<lambda>img n. extract_bits img (of_nat n)"
  image_avail_bytes wf_img
proof unfold_locales
  fix img n m
  assume wf: "wf_img img" and nm: "n \<le> m" and m: "m \<le> image_avail_bytes img"
  show "take n (extract_bits img (of_nat m)) = extract_bits img (of_nat n)"
  proof (rule nth_equalityI)
    show "length (take n (extract_bits img (of_nat m))) = length (extract_bits img (of_nat n))"
      using wf nm m by (simp add: extract_bits_of_nat_length)
  next
    fix j
    assume "j < length (take n (extract_bits img (of_nat m)))"
    then have "j < n" by simp
    then show "take n (extract_bits img (of_nat m)) ! j = extract_bits img (of_nat n) ! j"
      using wf nm m by (auto intro!: u8_eqI simp: extract_bits_bit)
  qed
qed (simp_all add: embed_bits_wf embed_bits_avail extract_bits_of_nat_length extract_embed_bits)

subsection \<open>What embedding leaves alone\<close>

lemma put_lsb_high: "drop_bit 1 (put_lsb p (payload_bit d i)) = drop_bit 1 p"
  by (rule u8_eqI) (simp add: bit_drop_bit_eq put_lsb_bit payload_bit_bit)

lemma embed_row_high:
  "embed_row ch data t n x i row = (row', i') \<Longrightarrow>
     drop_bit 1 (row' ! k) = drop_bit 1 (row ! k) \<and> (\<not> data_col ch k \<longrightarrow> row' ! k = row ! k)"
proof (induction ch data t n x i row arbitrary: row' i' rule: embed_row.induct)
  case (1 ch data t n x i row)
  show ?case
  proof (cases "x < n \<and> i < t")
    case False
    with "1.prems" show ?thesis by (auto simp: loop_stop not_less)
  next
    case True
    show ?thesis
    proof (cases "data_col ch x")
      case data: True
      let ?row = "row[x := put_lsb (row ! x) (payload_bit data i)]"
      from data True "1.prems" have rec: "embed_row ch data t n (Suc x) (Suc i) ?row = (row', i')"
        by (simp add: embed_row.simps [of ch data t n x i row])
      have "drop_bit 1 (?row ! k) = drop_bit 1 (row ! k) \<and> (\<not> data_col ch k \<longrightarrow> ?row ! k = row ! k)"
      proof (cases "k = x \<and> x < length row")
        case True
        then show ?thesis using data put_lsb_high by simp
      next
        case False
        then have "?row ! k = row ! k" by (cases "k = x") (simp_all add: list_update_beyond not_less)
        then show ?thesis by simp
      qed
      with "1.IH"(2) [OF True _ rec] data show ?thesis by auto
    next
      case False
      with True "1.prems" have "embed_row ch data t n (Suc x) i row = (row', i')"
        by (simp add: embed_row.simps [of ch data t n x i row])
      from "1.IH"(1) [OF True False this] show ?thesis by simp
    qed
  qed
qed

lemma embed_rows_high:
  "drop_bit 1 (embed_rows ch data t n h y i rows ! r ! k) = drop_bit 1 (rows ! r ! k) \<and>
     (\<not> data_col ch k \<longrightarrow> embed_rows ch data t n h y i rows ! r ! k = rows ! r ! k)"
proof (induction ch data t n h y i rows rule: embed_rows.induct)
  case (1 ch data t n h y i rows)
  show ?case
  proof (cases "y < h \<and> i < t")
    case False
    then show ?thesis by (auto simp: loop_stop not_less)
  next
    case True
    obtain row' i' where er: "embed_row ch data t n 0 i (rows ! y) = (row', i')" by fastforce
    have "rows[y := row'] ! r = rows ! r \<or> r = y \<and> rows[y := row'] ! r = row'"
      by (cases "r = y"; cases "y < length rows") (simp_all add: list_update_beyond)
    then show ?thesis
      using True er embed_row_high [OF er, of k] "1.IH" [OF True er [symmetric]]
      by (auto simp: embed_rows.simps [of ch data t n h y i rows])
  qed
qed

section \<open>Properties\<close>

text \<open>
  C28: what \<^verbatim>\<open>extract_bits\<close> reads from an image into which \<^verbatim>\<open>embed_bits\<close> wrote a buffer that fits
  is that buffer, and a shorter read returns its prefix, for RGB and for RGBA images.
\<close>

theorem extract_bits_embed_bits:
  assumes "wf_img img" and "length d \<le> image_avail_bytes img" and "n \<le> length d"
  shows "extract_bits (embed_bits img d (of_nat (length d))) (of_nat n) = take n d"
  using assms by (rule lsb.fetch_store_prefix)

definition gray_3x8 :: png_image_buf where
  "gray_3x8 = \<lparr>img_width = 3, img_height = 8, img_bit_depth = 8, img_color_type = 6,
     img_channels = 4, img_rows = replicate 8 (replicate 12 127)\<rparr>"

lemma gray_3x8_wf: "wf_img gray_3x8"
  by (simp add: wf_img_def gray_3x8_def list_all_iff)

lemma gray_3x8_avail: "image_avail_bytes gray_3x8 = 9"
  by (simp add: image_avail_bytes_def image_data_bit_capacity_def gray_3x8_def Let_def)

theorem extract_bits_embed_bits_witness:
  "extract_bits (embed_bits gray_3x8 [83, 84, 71, 49] (of_nat (length [83, 84, 71, 49 :: u8]))) (of_nat 3)
     = take 3 [83, 84, 71, 49]"
  by (rule extract_bits_embed_bits [OF gray_3x8_wf]) (simp_all add: gray_3x8_avail)

text \<open>
  C29: embedding is invisible above the lowest bit: on every image and for every buffer, each byte
  of each row keeps its upper seven bits, and the bytes of the alpha column of an RGBA image are
  not touched at all. The geometry of the image does not change.
\<close>

theorem embed_bits_imperceptible:
  assumes "wf_img img" and "y < unat (img_height img)" and "x < img_row_len img"
  shows "drop_bit 1 (img_rows (embed_bits img d n) ! y ! x) = drop_bit 1 (img_rows img ! y ! x)
    \<and> (img_channels img = 4 \<and> x mod 4 = 3 \<longrightarrow>
         img_rows (embed_bits img d n) ! y ! x = img_rows img ! y ! x)
    \<and> wf_img (embed_bits img d n)
    \<and> img_row_len (embed_bits img d n) = img_row_len img"
proof -
  have "x < 2 ^ 31" using assms(1,3) by (simp add: img_row_len_wf) (simp add: wf_img_def)
  then have "img_channels img = 4 \<and> x mod 4 = 3 \<longrightarrow> \<not> data_col (img_channels img) x"
    by (auto simp: data_col_4)
  moreover have "img_row_len (embed_bits img d n) = img_row_len img"
    by (simp add: img_row_len_def frame_simps)
  ultimately show ?thesis
    using embed_rows_high [of "img_channels img" d "unat (n * 8)" "img_row_len img"
        "unat (img_height img)" 0 0 "img_rows img" y x] embed_bits_wf [OF assms(1)]
    by (auto simp: embed_bits_def)
qed

theorem embed_bits_imperceptible_witness:
  "drop_bit 1 (img_rows (embed_bits gray_3x8 [0] 1) ! 1 ! 3) = drop_bit 1 (img_rows gray_3x8 ! 1 ! 3)
    \<and> (img_channels gray_3x8 = 4 \<and> (3 :: nat) mod 4 = 3 \<and>
         img_rows (embed_bits gray_3x8 [0] 1) ! 1 ! 3 = img_rows gray_3x8 ! 1 ! 3)
    \<and> wf_img (embed_bits gray_3x8 [0] 1)
    \<and> img_row_len (embed_bits gray_3x8 [0] 1) = img_row_len gray_3x8"
proof -
  have "1 < unat (img_height gray_3x8)" "3 < img_row_len gray_3x8" "img_channels gray_3x8 = 4"
    by (simp_all add: gray_3x8_def img_row_len_def)
  with embed_bits_imperceptible [OF gray_3x8_wf this(1,2), of "[0]" 1] show ?thesis by simp
qed

text \<open>
  The capacity the code computes with 64-bit arithmetic does not wrap and is the number of
  colour samples outside the alpha channel: three per pixel.
\<close>

theorem image_data_bit_capacity_exact:
  assumes "wf_img img"
  shows "unat (image_data_bit_capacity img) = unat (img_width img) * unat (img_height img) * 3"
  using assms by (simp add: image_data_bit_capacity_carriers length_carriers)

theorem image_data_bit_capacity_exact_witness:
  "unat (image_data_bit_capacity gray_3x8) = unat (img_width gray_3x8) * unat (img_height gray_3x8) * 3"
  by (rule image_data_bit_capacity_exact [OF gray_3x8_wf])

end
