(* ===== verification/Clib.thy ===== *)
theory Clib
  imports Stega_Prelude
begin

text \<open>
  The parts of the C library the sources lean on for text: NUL-terminated strings, the truncation
  of \<^verbatim>\<open>snprintf\<close>, \<^verbatim>\<open>strncmp\<close> prefixes, \<^verbatim>\<open>strrchr\<close>, \<^verbatim>\<open>strtoull\<close>, \<^verbatim>\<open>strtol\<close> and the decimal
  conversions of \<^verbatim>\<open>printf\<close>. A C string is the list of its characters up to the terminator; a
  \<^verbatim>\<open>char[n]\<close> field is the string it holds.
\<close>

section \<open>Strings and buffers\<close>

abbreviation NUL :: char where "NUL \<equiv> CHR 0x00"
abbreviation NL :: char where "NL \<equiv> CHR 0x0A"

definition cstr :: "char list \<Rightarrow> string" where
  "cstr s = takeWhile (\<lambda>c. c \<noteq> NUL) s"

text \<open>The contents of a buffer of \<open>n > 0\<close> bytes after \<^verbatim>\<open>snprintf(buf, n, "%s", s)\<close>.\<close>

definition snprintf_s :: "nat \<Rightarrow> string \<Rightarrow> string" where
  "snprintf_s n s = take (n - 1) (cstr s)"

text \<open>
  \<^verbatim>\<open>snprintf\<close> with any format whose full expansion is \<open>s\<close>: the return value is the length of
  the expansion, the buffer holds what fits.
\<close>

definition snprintf_fmt :: "nat \<Rightarrow> string \<Rightarrow> nat \<times> string" where
  "snprintf_fmt n s = (length s, take (n - 1) s)"

definition bytes_of :: "string \<Rightarrow> bytes" where
  "bytes_of s = map (\<lambda>c. of_nat (of_char c)) s"

definition chars_of :: "bytes \<Rightarrow> string" where
  "chars_of b = map (\<lambda>x. char_of (unat x)) b"

text \<open>The part after the last slash: \<^verbatim>\<open>strrchr(p, '/') + 1\<close>, or all of \<^verbatim>\<open>p\<close>.\<close>

definition basename_of :: "string \<Rightarrow> string" where
  "basename_of p = rev (takeWhile (\<lambda>c. c \<noteq> CHR ''/'') (rev p))"

section \<open>Numbers\<close>

definition isspace :: "char \<Rightarrow> bool" where
  "isspace c \<longleftrightarrow> c \<in> {CHR '' '', CHR 0x09, CHR 0x0A, CHR 0x0B, CHR 0x0C, CHR 0x0D}"

definition isdigit :: "char \<Rightarrow> bool" where
  "isdigit c \<longleftrightarrow> (48 :: nat) \<le> of_char c \<and> of_char c \<le> (57 :: nat)"

definition digit_val :: "char \<Rightarrow> nat" where
  "digit_val c = of_char c - 48"

definition digits_val :: "string \<Rightarrow> nat" where
  "digits_val ds = foldl (\<lambda>n c. 10 * n + digit_val c) 0 ds"

text \<open>Leading white space and the optional sign that both conversions accept.\<close>

fun strip_sign :: "string \<Rightarrow> bool \<times> string" where
  "strip_sign (c # s) = (if c = CHR ''-'' then (True, s) else if c = CHR ''+'' then (False, s) else (False, c # s))"
| "strip_sign [] = (False, [])"

text \<open>
  \<^verbatim>\<open>strtoull(s, &end, 10)\<close>: the value, whether \<^verbatim>\<open>errno\<close> is set to \<^verbatim>\<open>ERANGE\<close>, and the text at
  \<^verbatim>\<open>end\<close>, \<open>None\<close> when nothing was converted (\<^verbatim>\<open>end == s\<close>). A minus sign negates modulo \<open>2 ^ 64\<close>.
\<close>

definition strtoull :: "string \<Rightarrow> u64 \<times> bool \<times> string option" where
  "strtoull s =
     (case strip_sign (dropWhile isspace s) of (neg, t) \<Rightarrow>
        let ds = takeWhile isdigit t; n = digits_val ds; rest = dropWhile isdigit t
        in if ds = [] then (0, False, None)
           else if n \<ge> 2 ^ 64 then (- 1, True, Some rest)
           else (if neg then - of_nat n else of_nat n, False, Some rest))"

text \<open>\<^verbatim>\<open>strtol(s, &end, 10)\<close> with a 64-bit \<^verbatim>\<open>long\<close>: out of range values saturate with \<^verbatim>\<open>ERANGE\<close>.\<close>

definition strtol :: "string \<Rightarrow> int \<times> bool \<times> string option" where
  "strtol s =
     (case strip_sign (dropWhile isspace s) of (neg, t) \<Rightarrow>
        let ds = takeWhile isdigit t; n = int (digits_val ds); rest = dropWhile isdigit t;
            v = (if neg then - n else n)
        in if ds = [] then (0, False, None)
           else if v > 2 ^ 63 - 1 then (2 ^ 63 - 1, True, Some rest)
           else if v < - (2 ^ 63) then (- (2 ^ 63), True, Some rest)
           else (v, False, Some rest))"

text \<open>The conversions \<^verbatim>\<open>%llu\<close>, \<^verbatim>\<open>%zu\<close>, \<^verbatim>\<open>%u\<close> and \<^verbatim>\<open>%d\<close>, \<^verbatim>\<open>%lld\<close>.\<close>

definition digit_char :: "nat \<Rightarrow> char" where
  "digit_char d = char_of (48 + d)"

fun udec :: "nat \<Rightarrow> string" where
  "udec n = (if n < 10 then [digit_char n] else udec (n div 10) @ [digit_char (n mod 10)])"

declare udec.simps [simp del]

definition sdec :: "int \<Rightarrow> string" where
  "sdec i = (if i < 0 then CHR ''-'' # udec (nat (- i)) else udec (nat i))"

section \<open>Facts\<close>

lemma cstr_no_NUL: "NUL \<notin> set (cstr s)"
  by (auto simp: cstr_def dest: set_takeWhileD)

lemma cstr_Nil [simp]: "cstr [] = []"
  by (simp add: cstr_def)

lemma chars_of_Nil [simp]: "chars_of [] = []"
  by (simp add: chars_of_def)

lemma cstr_id: "NUL \<notin> set s \<Longrightarrow> cstr s = s"
  by (auto simp: cstr_def takeWhile_eq_all_conv)

lemma cstr_idem [simp]: "cstr (cstr s) = cstr s"
  by (rule cstr_id [OF cstr_no_NUL])

lemma cstr_append_NUL: "NUL \<notin> set s \<Longrightarrow> cstr (s @ NUL # t) = s"
  by (auto simp: cstr_def takeWhile_append takeWhile_eq_all_conv)

lemma snprintf_s_length [length_simps]: "0 < n \<Longrightarrow> length (snprintf_s n s) < n"
  by (auto simp: snprintf_s_def min_def)

lemma snprintf_s_id: "NUL \<notin> set s \<Longrightarrow> length s < n \<Longrightarrow> snprintf_s n s = s"
  by (simp add: snprintf_s_def cstr_id)

lemma snprintf_s_no_NUL: "NUL \<notin> set (snprintf_s n s)"
  using cstr_no_NUL [of s] by (auto simp: snprintf_s_def dest: in_set_takeD)

lemma snprintf_s_idem: "n \<le> m \<Longrightarrow> 0 < n \<Longrightarrow> snprintf_s m (snprintf_s n s) = snprintf_s n s"
  by (rule snprintf_s_id [OF snprintf_s_no_NUL]) (use snprintf_s_length [of n s] in simp)

lemma chars_of_bytes_of [simp]: "chars_of (bytes_of s) = s"
proof -
  have "char_of (unat (of_nat (of_char c) :: u8)) = c" for c :: char
    by (simp add: unat_of_nat)
  then show ?thesis by (simp add: chars_of_def bytes_of_def comp_def)
qed

lemma bytes_of_length [simp]: "length (bytes_of s) = length s"
  by (simp add: bytes_of_def)

lemma bytes_of_append: "bytes_of (s @ t) = bytes_of s @ bytes_of t"
  by (simp add: bytes_of_def)

lemma take_bytes_of: "take n (bytes_of s) = bytes_of (take n s)"
  by (simp add: bytes_of_def take_map)

lemma cstr_take: "cstr (take n (cstr s)) = take n (cstr s)"
  by (rule cstr_id) (use cstr_no_NUL [of s] in \<open>blast dest: in_set_takeD\<close>)

lemma digit_char_digit: "d < 10 \<Longrightarrow> isdigit (digit_char d) \<and> digit_val (digit_char d) = d"
  by (simp add: isdigit_def digit_val_def digit_char_def)

lemma udec_digits: "list_all isdigit (udec n)"
proof (induction n rule: udec.induct)
  case (1 n)
  then show ?case
    by (subst udec.simps) (auto simp: digit_char_digit)
qed

lemma udec_nonempty: "udec n \<noteq> []"
  by (subst udec.simps) simp

lemma digits_val_udec: "digits_val (udec n) = n"
proof (induction n rule: udec.induct)
  case (1 n)
  show ?case
  proof (cases "n < 10")
    case True
    then show ?thesis by (simp add: udec.simps [of n] digits_val_def digit_char_digit)
  next
    case False
    have "digits_val (udec n) = 10 * digits_val (udec (n div 10)) + n mod 10"
      using False by (simp add: udec.simps [of n] digits_val_def digit_char_digit)
    also have "\<dots> = n" using 1 False by simp
    finally show ?thesis .
  qed
qed

lemma udec_inj: "udec m = udec n \<Longrightarrow> m = n"
  by (metis digits_val_udec)

lemma isdigit_not_space: "isdigit c \<Longrightarrow> \<not> isspace c \<and> c \<noteq> CHR ''-'' \<and> c \<noteq> CHR ''+'' \<and> c \<noteq> NUL \<and> c \<noteq> NL"
  by (auto simp: isdigit_def isspace_def)

lemma span_digits:
  "list_all isdigit ds \<Longrightarrow> (rest = [] \<or> \<not> isdigit (hd rest)) \<Longrightarrow>
     takeWhile isdigit (ds @ rest) = ds \<and> dropWhile isdigit (ds @ rest) = rest"
  by (induction ds) (cases rest; auto)+

lemma strip_digits:
  "list_all isdigit ds \<Longrightarrow> ds \<noteq> [] \<Longrightarrow> strip_sign (dropWhile isspace (ds @ rest)) = (False, ds @ rest)"
  by (cases ds) (auto dest: isdigit_not_space)

lemma strtoull_udec:
  assumes "n < 2 ^ 64" and "rest = [] \<or> \<not> isdigit (hd rest)"
  shows "strtoull (udec n @ rest) = (of_nat n, False, Some rest)"
  using assms span_digits [OF udec_digits assms(2)]
  by (simp add: strtoull_def strip_digits udec_digits udec_nonempty digits_val_udec)

lemma strtol_udec:
  assumes "n < 2 ^ 63" and "rest = [] \<or> \<not> isdigit (hd rest)"
  shows "strtol (udec n @ rest) = (int n, False, Some rest)"
  using assms span_digits [OF udec_digits assms(2)]
  by (simp add: strtol_def strip_digits udec_digits udec_nonempty digits_val_udec Let_def)

lemma udec_chars: "c \<in> set (udec n) \<Longrightarrow> isdigit c"
  using udec_digits [of n] by (auto simp: list_all_iff)

lemma udec_no_NUL: "NUL \<notin> set (udec n)"
  using udec_chars isdigit_not_space by blast

lemma udec_no_NL: "NL \<notin> set (udec n)"
  using udec_chars isdigit_not_space by blast

lemma udec_length: "n < 10 ^ k \<Longrightarrow> 0 < k \<Longrightarrow> length (udec n) \<le> k"
proof (induction n arbitrary: k rule: udec.induct)
  case (1 n)
  show ?case
  proof (cases "n < 10")
    case True
    then show ?thesis using "1.prems" by (simp add: udec.simps [of n])
  next
    case False
    with "1.prems" obtain m where k: "k = Suc m" "0 < m"
      by (cases k; cases "k - 1") auto
    with "1.prems" have "n div 10 < 10 ^ m" by (simp add: div_less_iff_less_mult mult.commute)
    with "1.IH" [OF False, of m] k False show ?thesis by (simp add: udec.simps [of n])
  qed
qed

lemma udec_length_u64: "length (udec (unat (x :: u64))) \<le> 20"
  by (rule udec_length) (use unat_u64_bound [of x] in simp_all)

end
