(* ===== verification/Stego_Container.thy ===== *)
theory Stego_Container
  imports Stego_Crc Stego_Image Clib
begin

text \<open>
  The hidden container of \<^verbatim>\<open>src/server/stego.c\<close>: the big-endian fields (\<^verbatim>\<open>write_be32\<close> and its
  kin), \<^verbatim>\<open>build_container\<close>, and the part of \<^verbatim>\<open>stego_decode\<close> that runs once the image is loaded.
  The lemmas give the round trip through the pixel channel, the exact layout a successful decode
  has checked, and the rejection of damaged payloads.
\<close>

section \<open>Model\<close>

datatype stego_payload_type = STEGO_PAYLOAD_TEXT | STEGO_PAYLOAD_FILE

datatype stego_status =
    STEGO_OK | STEGO_ERR_OPEN | STEGO_ERR_NOT_PNG | STEGO_ERR_UNSUPPORTED | STEGO_ERR_MEMORY
  | STEGO_ERR_CAPACITY | STEGO_ERR_LIBPNG | STEGO_ERR_MAGIC | STEGO_ERR_CRC | STEGO_ERR_IO
  | STEGO_ERR_ARG

record stego_extracted =
  ex_type :: stego_payload_type
  ex_filename :: string
  ex_data :: "bytes option"
  ex_data_len :: nat

text \<open>
  Every \<^verbatim>\<open>malloc\<close>, \<^verbatim>\<open>calloc\<close> and \<^verbatim>\<open>realloc\<close> of the module, by the place of the call. Whether a
  request of a given size succeeds there is the environment's choice.
\<close>

datatype alloc_site =
    Alloc_rows | Alloc_row nat | Alloc_container | Alloc_file_buf
  | Alloc_probe | Alloc_realloc | Alloc_payload

type_synonym allocator = "alloc_site \<Rightarrow> nat \<Rightarrow> bool"

definition write_be32 :: "u32 \<Rightarrow> bytes" where
  "write_be32 v = [ucast (drop_bit 24 v), ucast (drop_bit 16 v), ucast (drop_bit 8 v), ucast v]"

definition read_be32 :: "bytes \<Rightarrow> u32" where
  "read_be32 src = push_bit 24 (ucast (src ! 0)) OR push_bit 16 (ucast (src ! 1))
     OR push_bit 8 (ucast (src ! 2)) OR ucast (src ! 3)"

definition write_be16 :: "u16 \<Rightarrow> bytes" where
  "write_be16 v = [ucast (drop_bit 8 v), ucast v]"

definition read_be16 :: "bytes \<Rightarrow> u16" where
  "read_be16 src = push_bit 8 (ucast (src ! 0)) OR ucast (src ! 1)"

definition STEGO_MAGIC :: bytes where
  "STEGO_MAGIC = [0x53, 0x54, 0x47, 0x31]"

definition STEGO_HEADER_MIN_LEN :: nat where
  "STEGO_HEADER_MIN_LEN = 15"

fun payload_type_byte :: "stego_payload_type \<Rightarrow> u8" where
  "payload_type_byte STEGO_PAYLOAD_TEXT = 0"
| "payload_type_byte STEGO_PAYLOAD_FILE = 1"

definition stego_strerror :: "stego_status \<Rightarrow> string" where
  "stego_strerror status =
     (case status of
        STEGO_OK \<Rightarrow> ''ok''
      | STEGO_ERR_OPEN \<Rightarrow> ''cannot open file''
      | STEGO_ERR_NOT_PNG \<Rightarrow> ''not a valid PNG''
      | STEGO_ERR_UNSUPPORTED \<Rightarrow> ''unsupported PNG format''
      | STEGO_ERR_MEMORY \<Rightarrow> ''memory allocation failed''
      | STEGO_ERR_CAPACITY \<Rightarrow> ''payload exceeds image capacity''
      | STEGO_ERR_LIBPNG \<Rightarrow> ''libpng internal error''
      | STEGO_ERR_MAGIC \<Rightarrow> ''no steganography payload found''
      | STEGO_ERR_CRC \<Rightarrow> ''payload integrity check failed''
      | STEGO_ERR_IO \<Rightarrow> ''I/O error''
      | STEGO_ERR_ARG \<Rightarrow> ''invalid argument'')"

text \<open>
  \<^verbatim>\<open>build_container\<close>: the successive writes at \<^verbatim>\<open>buf + pos\<close> are a concatenation. \<open>None\<close> is the
  \<^verbatim>\<open>NULL\<close> of a failed allocation.
\<close>

definition build_container ::
  "allocator \<Rightarrow> stego_payload_type \<Rightarrow> string option \<Rightarrow> bytes option \<Rightarrow> nat \<Rightarrow> bytes option" where
  "build_container al type filename payload payload_len =
     (let name = (case filename of None \<Rightarrow> [] | Some f \<Rightarrow> bytes_of (cstr f));
          fn_len = (if type = STEGO_PAYLOAD_FILE \<and> filename \<noteq> None
                    then (if length name > 255 then 255 else length name) else 0);
          total = 4 + 1 + 2 + fn_len + 4 + payload_len + 4
      in if \<not> al Alloc_container total then None
         else let body = STEGO_MAGIC @ [payload_type_byte type] @ write_be16 (of_nat fn_len)
                     @ (if fn_len > 0 then take fn_len name else [])
                     @ write_be32 (of_nat payload_len)
                     @ (case payload of
                          None \<Rightarrow> []
                        | Some p \<Rightarrow> if payload_len > 0 then take payload_len p else [])
              in Some (body @ write_be32 (stego_crc32 body)))"

text \<open>\<^verbatim>\<open>stego_decode\<close> from the point where the image is in memory (lines 538 to 622).\<close>

definition decode_loaded :: "allocator \<Rightarrow> png_image_buf \<Rightarrow> stego_status + stego_extracted" where
  "decode_loaded al img =
     (let avail_bytes = image_avail_bytes img in
      if avail_bytes < STEGO_HEADER_MIN_LEN then Inl STEGO_ERR_MAGIC
      else let header = extract_bits img 7 in
      if take 4 header \<noteq> STEGO_MAGIC then Inl STEGO_ERR_MAGIC
      else let type_byte = header ! 4 in
      if type_byte \<noteq> payload_type_byte STEGO_PAYLOAD_TEXT \<and> type_byte \<noteq> payload_type_byte STEGO_PAYLOAD_FILE
      then Inl STEGO_ERR_MAGIC
      else let fn_len = unat (read_be16 (drop 5 header));
               total_needed = 7 + fn_len + 4 in
      if total_needed > avail_bytes then Inl STEGO_ERR_MAGIC
      else if \<not> al Alloc_probe total_needed then Inl STEGO_ERR_MEMORY
      else let probe = extract_bits img (of_nat total_needed);
               payload_len = unat (read_be32 (drop (7 + fn_len) probe));
               container_len = 7 + fn_len + 4 + payload_len + 4 in
      if container_len > avail_bytes then Inl STEGO_ERR_MAGIC
      else if \<not> al Alloc_realloc container_len then Inl STEGO_ERR_MEMORY
      else let buf = extract_bits img (of_nat container_len);
               stored_crc = read_be32 (drop (container_len - 4) buf);
               calc_crc = stego_crc32 (take (container_len - 4) buf) in
      if stored_crc \<noteq> calc_crc then Inl STEGO_ERR_CRC
      else let type = (if type_byte = 0 then STEGO_PAYLOAD_TEXT else STEGO_PAYLOAD_FILE);
               copy = (if fn_len < 255 then fn_len else 255);
               filename = (if fn_len > 0 then cstr (chars_of (take copy (drop 7 buf))) else []) in
      if payload_len > 0 then
        if \<not> al Alloc_payload payload_len then Inl STEGO_ERR_MEMORY
        else Inr \<lparr>ex_type = type, ex_filename = filename,
                  ex_data = Some (take payload_len (drop (7 + fn_len + 4) buf)),
                  ex_data_len = payload_len\<rparr>
      else Inr \<lparr>ex_type = type, ex_filename = filename, ex_data = None, ex_data_len = payload_len\<rparr>)"

definition stego_extracted_free :: "stego_extracted \<Rightarrow> stego_extracted" where
  "stego_extracted_free e = e\<lparr>ex_data := None, ex_data_len := 0\<rparr>"

section \<open>Big-endian fields\<close>

text \<open>The contract of a fixed-width field: reading inverts writing, in front of any suffix.\<close>

locale field_codec =
  fixes enc :: "'v \<Rightarrow> bytes" and dec :: "bytes \<Rightarrow> 'v" and w :: nat
  assumes enc_length: "length (enc v) = w"
    and dec_enc: "dec (enc v @ rest) = v"
    and enc_dec: "w \<le> length bs \<Longrightarrow> enc (dec bs) = take w bs"
begin

lemma dec_at: "n = length pre \<Longrightarrow> dec (drop n (pre @ enc v @ post)) = v"
  by (simp add: dec_enc)

lemma dec_last: "dec (enc v) = v"
  using dec_enc [of v "[]"] by simp

lemma enc_injective: "enc u = enc v \<Longrightarrow> u = v"
  by (metis dec_last)

end

lemma be16_roundtrip: "read_be16 (write_be16 v @ rest) = v"
proof (rule bit_word_eqI)
  fix n
  assume "n < LENGTH(16)"
  then show "bit (read_be16 (write_be16 v @ rest)) n = bit v n"
    by (cases "n < 8") (auto simp: read_be16_def write_be16_def bit_simps)
qed

lemma be32_roundtrip: "read_be32 (write_be32 v @ rest) = v"
proof (rule u32_eqI)
  fix n :: nat
  assume "n < 32"
  then show "bit (read_be32 (write_be32 v @ rest)) n = bit v n"
    by (cases "n < 8"; cases "n < 16"; cases "n < 24")
      (auto simp: read_be32_def write_be32_def bit_simps dest: bit_u8_bound)
qed

lemma be16_write_read: "2 \<le> length bs \<Longrightarrow> write_be16 (read_be16 bs) = take 2 bs"
proof -
  assume "2 \<le> length bs"
  then obtain a b r where bs: "bs = a # b # r" by (cases bs; cases "tl bs") auto
  have "ucast (drop_bit 8 (read_be16 bs)) = a" "ucast (read_be16 bs) = b"
    by (rule u8_eqI; auto simp: bs read_be16_def bit_simps dest: bit_u8_bound)+
  then show ?thesis by (simp add: write_be16_def bs)
qed

lemma be32_write_read: "4 \<le> length bs \<Longrightarrow> write_be32 (read_be32 bs) = take 4 bs"
proof -
  assume "4 \<le> length bs"
  then obtain a b c d r where bs: "bs = a # b # c # d # r"
    by (cases bs; cases "tl bs"; cases "tl (tl bs)"; cases "tl (tl (tl bs))") auto
  have "ucast (drop_bit 24 (read_be32 bs)) = a" "ucast (drop_bit 16 (read_be32 bs)) = b"
    "ucast (drop_bit 8 (read_be32 bs)) = c" "ucast (read_be32 bs) = d"
    by (rule u8_eqI; auto simp: bs read_be32_def bit_simps dest: bit_u8_bound)+
  then show ?thesis by (simp add: write_be32_def bs)
qed

lemma write_be16_length [length_simps]: "length (write_be16 v) = 2"
  by (simp add: write_be16_def)

lemma write_be32_length [length_simps]: "length (write_be32 v) = 4"
  by (simp add: write_be32_def)

lemma STEGO_MAGIC_length [length_simps]: "length STEGO_MAGIC = 4"
  by (simp add: STEGO_MAGIC_def)

interpretation be16: field_codec write_be16 read_be16 2
  by unfold_locales (simp_all add: be16_roundtrip be16_write_read length_simps)

interpretation be32: field_codec write_be32 read_be32 4
  by unfold_locales (simp_all add: be32_roundtrip be32_write_read length_simps)

section \<open>The layout\<close>

definition container_body :: "stego_payload_type \<Rightarrow> bytes \<Rightarrow> bytes \<Rightarrow> bytes" where
  "container_body type name payload =
     STEGO_MAGIC @ [payload_type_byte type] @ write_be16 (of_nat (length name)) @ name
       @ write_be32 (of_nat (length payload)) @ payload"

text \<open>The file name bytes a container carries: none for text, at most 255 for a file.\<close>

definition stored_name :: "stego_payload_type \<Rightarrow> string option \<Rightarrow> bytes" where
  "stored_name type filename =
     (case filename of
        Some f \<Rightarrow> if type = STEGO_PAYLOAD_FILE then take 255 (bytes_of (cstr f)) else []
      | None \<Rightarrow> [])"

definition stored_payload :: "bytes option \<Rightarrow> nat \<Rightarrow> bytes" where
  "stored_payload payload n = (case payload of None \<Rightarrow> [] | Some p \<Rightarrow> take n p)"

lemma stored_name_length [length_simps]: "length (stored_name type filename) \<le> 255"
  by (auto simp: stored_name_def split: option.split)

lemma container_body_length [length_simps]:
  "length (container_body type name payload) = 11 + length name + length payload"
  by (simp add: container_body_def length_simps)

lemma build_container_layout:
  assumes "length (stored_payload payload n) = n"
  shows "build_container al type filename payload n =
     (let body = container_body type (stored_name type filename) (stored_payload payload n)
      in if al Alloc_container (length body + 4) then Some (body @ write_be32 (stego_crc32 body)) else None)"
proof -
  have len: "(if 255 < length x then 255 else length x) = length (take 255 x)" for x :: bytes
    by simp
  have tk: "take (length (take 255 x)) x = take 255 x" for x :: bytes
    by (simp add: min_def)
  have pl: "(case payload of None \<Rightarrow> [] | Some p \<Rightarrow> if 0 < n then take n p else []) = stored_payload payload n"
    by (auto simp: stored_payload_def split: option.split)
  show ?thesis
    unfolding build_container_def pl len Let_def
    by (cases filename; cases type)
      (auto simp add: container_body_def stored_name_def assms length_simps tk add.commute add.left_commute
        simp del: length_take take_eq_Nil take_eq_Nil2)
qed

text \<open>The three prefixes of the carrier stream that \<^verbatim>\<open>stego_decode\<close> reads.\<close>

lemma container_prefixes:
  assumes "c = container_body type name payload @ write_be32 crc"
  shows "take 7 c = STEGO_MAGIC @ [payload_type_byte type] @ write_be16 (of_nat (length name))"
    and "take (11 + length name) c = (STEGO_MAGIC @ [payload_type_byte type] @ write_be16 (of_nat (length name)) @ name)
      @ write_be32 (of_nat (length payload))"
    and "take (11 + length name + length payload) c = container_body type name payload"
    and "drop (11 + length name + length payload) c = write_be32 crc"
    and "take (length name) (drop 7 c) = name"
    and "take (length payload) (drop (11 + length name) c) = payload"
proof -
  let ?h = "STEGO_MAGIC @ [payload_type_byte type] @ write_be16 (of_nat (length name))"
  let ?p = "?h @ name @ write_be32 (of_nat (length payload))"
  have c: "c = ?h @ (name @ write_be32 (of_nat (length payload)) @ payload @ write_be32 crc)"
    "c = ?p @ (payload @ write_be32 crc)"
    by (simp_all add: assms container_body_def)
  have h: "length ?h = 7" and p: "length ?p = 11 + length name"
    by (simp_all add: length_simps)
  show "take 7 c = ?h" unfolding c(1) by (rule take_at) (simp only: h)
  show "take (11 + length name) c = (STEGO_MAGIC @ [payload_type_byte type] @ write_be16 (of_nat (length name)) @ name)
      @ write_be32 (of_nat (length payload))"
    unfolding c(2) using take_at [OF p [symmetric], of "payload @ write_be32 crc"]
    by (simp only: append_assoc)
  show "take (11 + length name + length payload) c = container_body type name payload"
    and "drop (11 + length name + length payload) c = write_be32 crc"
    by (simp_all add: assms length_simps)
  have "drop 7 c = name @ write_be32 (of_nat (length payload)) @ payload @ write_be32 crc"
    unfolding c(1) by (rule drop_at) (simp only: h)
  then show "take (length name) (drop 7 c) = name" by simp
  have "drop (11 + length name) c = payload @ write_be32 crc"
    unfolding c(2) by (rule drop_at) (simp only: p)
  then show "take (length payload) (drop (11 + length name) c) = payload" by simp
qed

section \<open>Decoding what was embedded\<close>

text \<open>The result \<^verbatim>\<open>stego_decode\<close> reports for a name and a payload.\<close>

definition extracted_of :: "stego_payload_type \<Rightarrow> bytes \<Rightarrow> bytes \<Rightarrow> stego_extracted" where
  "extracted_of type name payload =
     \<lparr>ex_type = type, ex_filename = cstr (chars_of (take 255 name)),
      ex_data = (if payload = [] then None else Some payload), ex_data_len = length payload\<rparr>"

text \<open>The three requests for memory that a decode makes.\<close>

definition decode_allocs :: "allocator \<Rightarrow> nat \<Rightarrow> nat \<Rightarrow> bool" where
  "decode_allocs al fn_len payload_len \<longleftrightarrow>
     al Alloc_probe (7 + fn_len + 4) \<and> al Alloc_realloc (7 + fn_len + 4 + payload_len + 4) \<and>
     (payload_len > 0 \<longrightarrow> al Alloc_payload payload_len)"

lemma type_byte_cases:
  "payload_type_byte type = payload_type_byte STEGO_PAYLOAD_TEXT \<or> payload_type_byte type = payload_type_byte STEGO_PAYLOAD_FILE"
  "(if payload_type_byte type = 0 then STEGO_PAYLOAD_TEXT else STEGO_PAYLOAD_FILE) = type"
  by (cases type; simp)+

lemma decode_carried:
  assumes wf: "wf_img img"
    and c: "c = container_body type name payload @ write_be32 crc"
    and fits: "length c \<le> image_avail_bytes img"
    and carried: "extract_bits img (of_nat (length c)) = c"
    and name: "length name < 2 ^ 16" and payload: "length payload < 2 ^ 32"
    and al: "decode_allocs al (length name) (length payload)"
  shows "decode_loaded al img =
    (if crc = stego_crc32 (container_body type name payload) then Inr (extracted_of type name payload)
     else Inl STEGO_ERR_CRC)"
proof -
  have len: "length c = 7 + length name + 4 + length payload + 4"
    by (simp add: c length_simps)
  have fetch: "extract_bits img (of_nat n) = take n c" if "n \<le> length c" for n
    using lsb.fetch_prefix [OF wf that fits] carried by simp
  note prefix = container_prefixes [OF c]
  have header: "extract_bits img 7 = STEGO_MAGIC @ [payload_type_byte type] @ write_be16 (of_nat (length name))"
    using fetch [of 7] len prefix(1) by simp
  have fields: "take 4 (extract_bits img 7) = STEGO_MAGIC" "extract_bits img 7 ! 4 = payload_type_byte type"
    "drop 5 (extract_bits img 7) = write_be16 (of_nat (length name))"
    unfolding header by (simp_all add: STEGO_MAGIC_def)
  have fn: "unat (read_be16 (write_be16 (of_nat (length name)))) = length name"
    using name by (simp add: be16.dec_last unat_of_nat_u16)
  have probe: "read_be32 (drop (7 + length name) (extract_bits img (of_nat (7 + length name + 4)))) = of_nat (length payload)"
  proof -
    have "extract_bits img (of_nat (7 + length name + 4)) = take (11 + length name) c"
      using fetch [of "7 + length name + 4"] len by (simp add: add.commute add.left_commute)
    moreover have "length (STEGO_MAGIC @ [payload_type_byte type] @ write_be16 (of_nat (length name)) @ name) = 7 + length name"
      by (simp add: length_simps)
    ultimately show ?thesis
      unfolding prefix(2) by (simp only: drop_at be32.dec_last)
  qed
  have pl: "unat (of_nat (length payload) :: u32) = length payload"
    using payload by (rule unat_of_nat_u32)
  have buf: "extract_bits img (of_nat (7 + length name + 4 + length payload + 4)) = c"
    using fetch [of "length c"] len by simp
  have name_copy: "take (if length name < 255 then length name else 255) (drop 7 c) = take 255 name"
  proof (cases "length name < 255")
    case True
    then show ?thesis using prefix(5) by simp
  next
    case False
    then have "take 255 (drop 7 c) = take 255 (take (length name) (drop 7 c))"
      by (simp add: min_def)
    with False prefix(5) show ?thesis by simp
  qed
  have chk: "drop (7 + length name + 4 + length payload + 4 - 4) c = write_be32 crc"
    "take (7 + length name + 4 + length payload + 4 - 4) c = container_body type name payload"
    "take (length payload) (drop (7 + length name + 4) c) = payload"
    using prefix(3,4,6) by (simp_all add: ac_simps)
  show ?thesis
    using al fits len type_byte_cases [of type]
    unfolding decode_loaded_def Let_def fields fn probe pl buf decode_allocs_def extracted_of_def name_copy chk
    by (simp add: STEGO_HEADER_MIN_LEN_def be32.dec_last)
qed

lemma decode_embedded:
  assumes wf: "wf_img img"
    and c: "c = container_body type name payload @ write_be32 crc"
    and fits: "length c \<le> image_avail_bytes img"
    and bounds: "length name < 2 ^ 16" "length payload < 2 ^ 32"
    and al: "decode_allocs al (length name) (length payload)"
  shows "decode_loaded al (embed_bits img c (of_nat (length c))) =
    (if crc = stego_crc32 (container_body type name payload) then Inr (extracted_of type name payload)
     else Inl STEGO_ERR_CRC)"
  by (rule decode_carried [OF lsb.store_ok [OF wf] c])
    (simp_all only: lsb.store_room [OF wf] fits lsb.fetch_store [OF wf fits] bounds al)

text \<open>Splitting what a successful decode has read.\<close>

lemma header_split:
  assumes "7 \<le> length c" and "take 4 (take 7 c) = STEGO_MAGIC"
  shows "take 7 c = STEGO_MAGIC @ [take 7 c ! 4] @ write_be16 (read_be16 (drop 5 (take 7 c)))"
proof -
  have "take 7 c = take 4 (take 7 c) @ drop 4 (take 7 c)" by (simp only: append_take_drop_id)
  moreover have "drop 4 (take 7 c) = take 7 c ! 4 # drop 5 (take 7 c)"
    using assms(1) Cons_nth_drop_Suc [of 4 "take 7 c"] by simp
  moreover have "write_be16 (read_be16 (drop 5 (take 7 c))) = drop 5 (take 7 c)"
    using assms(1) be16.enc_dec [of "drop 5 (take 7 c)"] by simp
  ultimately show ?thesis using assms(2) by simp
qed

lemma container_split:
  assumes "length c = 7 + fn + 4 + pl + 4"
    and "take 4 (take 7 c) = STEGO_MAGIC"
    and "take 7 c ! 4 = payload_type_byte type"
    and "read_be16 (drop 5 (take 7 c)) = of_nat fn"
    and "read_be32 (drop (7 + fn) (take (7 + fn + 4) c)) = of_nat pl"
    and "read_be32 (drop (7 + fn + 4 + pl) c) = crc"
  shows "c = container_body type (take fn (drop 7 c)) (take pl (drop (7 + fn + 4) c)) @ write_be32 crc"
proof -
  have "c = take 7 c @ take fn (drop 7 c) @ take 4 (drop (7 + fn) c)
      @ take pl (drop (7 + fn + 4) c) @ drop (7 + fn + 4 + pl) c"
    using append_take_drop_id [of "7 + fn + 4 + pl" c, symmetric] by (simp only: take_add append_assoc)
  moreover have "take 4 (drop (7 + fn) c) = write_be32 (of_nat pl)"
    using be32.enc_dec [of "drop (7 + fn) (take (7 + fn + 4) c)"] assms(1,5) by (simp add: drop_take)
  moreover have "drop (7 + fn + 4 + pl) c = write_be32 crc"
    using be32.enc_dec [of "drop (7 + fn + 4 + pl) c"] assms(1,6) by simp
  moreover have "take 7 c = STEGO_MAGIC @ [payload_type_byte type] @ write_be16 (of_nat fn)"
    using header_split [of c] assms(1-4) by simp
  ultimately show ?thesis
    using assms(1) by (simp add: container_body_def min_def)
qed

lemma decode_reads:
  assumes wf: "wf_img img" and ok: "decode_loaded al img = Inr e"
  shows "\<exists>type name payload. length name < 2 ^ 16 \<and> length payload < 2 ^ 32
    \<and> decode_allocs al (length name) (length payload)
    \<and> (let body = container_body type name payload; c = body @ write_be32 (stego_crc32 body)
       in length c \<le> image_avail_bytes img \<and> extract_bits img (of_nat (length c)) = c)"
proof -
  let ?h = "extract_bits img 7"
  define fn where "fn = unat (read_be16 (drop 5 ?h))"
  let ?probe = "extract_bits img (of_nat (7 + fn + 4))"
  define pl where "pl = unat (read_be32 (drop (7 + fn) ?probe))"
  define c where "c = extract_bits img (of_nat (7 + fn + 4 + pl + 4))"
  note ok' = ok [unfolded decode_loaded_def Let_def, folded fn_def, folded pl_def, folded c_def]
  have magic: "take 4 ?h = STEGO_MAGIC"
    and ty: "?h ! 4 = payload_type_byte STEGO_PAYLOAD_TEXT \<or> ?h ! 4 = payload_type_byte STEGO_PAYLOAD_FILE"
    and fits: "7 + fn + 4 + pl + 4 \<le> image_avail_bytes img"
    and crc: "read_be32 (drop (7 + fn + 4 + pl + 4 - 4) c) = stego_crc32 (take (7 + fn + 4 + pl + 4 - 4) c)"
    and al: "decode_allocs al fn pl"
    using ok' by (simp_all add: decode_allocs_def split: if_splits)
  obtain type where type: "?h ! 4 = payload_type_byte type" using ty by blast
  have len: "length c = 7 + fn + 4 + pl + 4"
    unfolding c_def by (rule lsb.fetch_length [OF wf fits])
  have h: "?h = take 7 c" and probe: "?probe = take (7 + fn + 4) c"
    using lsb.fetch_prefix [OF wf _ fits, of 7] lsb.fetch_prefix [OF wf _ fits, of "7 + fn + 4"]
    by (simp_all add: c_def)
  let ?name = "take fn (drop 7 c)" and ?payload = "take pl (drop (7 + fn + 4) c)"
  let ?body = "container_body type ?name ?payload"
  have sizes: "read_be16 (drop 5 (take 7 c)) = of_nat fn" "read_be32 (drop (7 + fn) (take (7 + fn + 4) c)) = of_nat pl"
    unfolding h [symmetric] probe [symmetric] by (simp add: fn_def, simp only: pl_def of_nat_unat ucast_id)
  have c: "c = ?body @ write_be32 (read_be32 (drop (7 + fn + 4 + pl) c))"
    by (rule container_split [OF len magic [unfolded h] type [unfolded h] sizes refl])
  have ln: "length ?name = fn" "length ?payload = pl" using len by simp_all
  then have "take (7 + fn + 4 + pl) c = ?body"
    by (subst c) (simp add: length_simps)
  with crc have "read_be32 (drop (7 + fn + 4 + pl) c) = stego_crc32 ?body" by (simp add: add.assoc)
  with c have c': "c = ?body @ write_be32 (stego_crc32 ?body)" by simp
  have bound: "fn < 2 ^ 16" "pl < 2 ^ 32"
    unfolding fn_def pl_def using unsigned_less [of "read_be16 (drop 5 ?h)"] unsigned_less [of "read_be32 (drop (7 + fn) ?probe)"]
    by (simp_all add: fn_def)
  have carried: "length c \<le> image_avail_bytes img \<and> extract_bits img (of_nat (length c)) = c"
    using fits by (simp only: len c_def [symmetric])
  show ?thesis
    by (rule exI [of _ type], rule exI [of _ ?name], rule exI [of _ ?payload])
      (use carried in \<open>simp only: Let_def c' [symmetric] ln bound al simp_thms\<close>)
qed

section \<open>Properties of the container\<close>

text \<open>
  C38: \<^verbatim>\<open>stego_decode\<close> inverts \<^verbatim>\<open>build_container\<close> followed by \<^verbatim>\<open>embed_bits\<close>. For text and for files, for
  every payload below 4 GiB that fits the image and every allocation outcome that serves the
  requests, decoding yields the type, the first 255 bytes of the file name (none for text) and the
  exact payload.
\<close>

theorem decode_build_container:
  assumes "wf_img img"
    and "length p = n" "n < 2 ^ 32"
    and "build_container al type filename (Some p) n = Some c"
    and "length c \<le> image_avail_bytes img"
    and "decode_allocs al' (length (stored_name type filename)) n"
  shows "decode_loaded al' (embed_bits img c (of_nat (length c))) =
    Inr (extracted_of type (stored_name type filename) p)"
proof -
  let ?body = "container_body type (stored_name type filename) p"
  have pl: "stored_payload (Some p) n = p" using assms(2) by (simp add: stored_payload_def)
  have "c = ?body @ write_be32 (stego_crc32 ?body)"
    using assms(2,4) build_container_layout [of "Some p" n al type filename] pl
    by (simp add: Let_def split: if_splits)
  moreover have "length (stored_name type filename) < 2 ^ 16"
    using stored_name_length [of type filename] by simp
  ultimately show ?thesis using decode_embedded [OF assms(1)] assms by auto
qed

definition rgb_8x8 :: png_image_buf where
  "rgb_8x8 = \<lparr>img_width = 8, img_height = 8, img_bit_depth = 8, img_color_type = 2,
     img_channels = 3, img_rows = replicate 8 (replicate 24 200)\<rparr>"

lemma rgb_8x8_wf: "wf_img rgb_8x8"
  by (simp add: wf_img_def rgb_8x8_def list_all_iff)

lemma rgb_8x8_avail: "image_avail_bytes rgb_8x8 = 24"
  by (simp add: image_avail_bytes_def image_data_bit_capacity_def rgb_8x8_def Let_def)

abbreviation all_granted :: allocator where
  "all_granted \<equiv> \<lambda>_ _. True"

definition hi_container :: bytes where
  "hi_container = the (build_container all_granted STEGO_PAYLOAD_FILE (Some ''a.txt'') (Some [104, 105]) 2)"

lemma hi_container_build:
  "build_container all_granted STEGO_PAYLOAD_FILE (Some ''a.txt'') (Some [104, 105]) 2 = Some hi_container"
  by (simp add: hi_container_def build_container_def Let_def)

lemma hi_container_length: "length hi_container = 22"
  by (simp add: hi_container_def build_container_def Let_def length_simps cstr_def bytes_of_def)

theorem decode_build_container_witness:
  "decode_loaded all_granted (embed_bits rgb_8x8 hi_container (of_nat (length hi_container))) =
     Inr (extracted_of STEGO_PAYLOAD_FILE (stored_name STEGO_PAYLOAD_FILE (Some ''a.txt'')) [104, 105])"
  by (rule decode_build_container [OF rgb_8x8_wf _ _ hi_container_build])
    (simp_all add: rgb_8x8_avail hi_container_length decode_allocs_def)

text \<open>
  C11: \<^verbatim>\<open>stego_decode\<close> succeeds exactly on the images whose carrier bits start with a well-formed
  container: magic, type, file name, payload and the CRC-32 of everything before it. It then reports
  the fields of that container; nothing else is ever returned as a payload.
\<close>

theorem decode_success_iff:
  assumes "wf_img img"
  shows "decode_loaded al img = Inr e \<longleftrightarrow>
    (\<exists>type name payload. length name < 2 ^ 16 \<and> length payload < 2 ^ 32
      \<and> decode_allocs al (length name) (length payload)
      \<and> (let body = container_body type name payload; c = body @ write_be32 (stego_crc32 body)
         in length c \<le> image_avail_bytes img \<and> extract_bits img (of_nat (length c)) = c)
      \<and> e = extracted_of type name payload)" (is "?L \<longleftrightarrow> ?R")
proof
  assume ?R
  then show ?L using decode_carried [OF assms refl] by (auto simp: Let_def)
next
  assume L: ?L
  from decode_reads [OF assms L] obtain type name payload where
    w: "length name < 2 ^ 16" "length payload < 2 ^ 32" "decode_allocs al (length name) (length payload)"
      "let body = container_body type name payload; c = body @ write_be32 (stego_crc32 body)
         in length c \<le> image_avail_bytes img \<and> extract_bits img (of_nat (length c)) = c"
    by blast
  then have "decode_loaded al img = Inr (extracted_of type name payload)"
    using decode_carried [OF assms refl, of type name payload "stego_crc32 (container_body type name payload)"]
    by (simp add: Let_def)
  with L have "e = extracted_of type name payload" by simp
  with w show ?R by blast
qed

theorem decode_success_iff_witness:
  "\<exists>e. decode_loaded all_granted (embed_bits rgb_8x8 hi_container (of_nat (length hi_container))) = Inr e
     \<and> ex_data_len e = 2"
proof -
  let ?img = "embed_bits rgb_8x8 hi_container (of_nat (length hi_container))"
  let ?name = "bytes_of ''a.txt''" and ?p = "[104, 105] :: bytes"
  let ?body = "container_body STEGO_PAYLOAD_FILE ?name ?p"
  have c: "hi_container = ?body @ write_be32 (stego_crc32 ?body)"
    using hi_container_build build_container_layout [of "Some ?p" 2 all_granted STEGO_PAYLOAD_FILE "Some ''a.txt''"]
    by (simp add: Let_def stored_payload_def stored_name_def cstr_def bytes_of_def)
  have fits: "length hi_container \<le> image_avail_bytes rgb_8x8"
    by (simp add: rgb_8x8_avail hi_container_length)
  have small: "length ?name < 2 ^ 16" "length ?p < 2 ^ 32" by (simp_all add: bytes_of_def)
  have ok: "decode_loaded all_granted ?img = Inr (extracted_of STEGO_PAYLOAD_FILE ?name ?p)"
    unfolding decode_success_iff [OF lsb.store_ok [OF rgb_8x8_wf]]
    by (rule exI [of _ STEGO_PAYLOAD_FILE], rule exI [of _ ?name], rule exI [of _ ?p])
      (simp only: Let_def small decode_allocs_def lsb.store_room [OF rgb_8x8_wf] c [symmetric]
        lsb.fetch_store [OF rgb_8x8_wf fits] fits simp_thms)
  show ?thesis by (rule exI, rule conjI, rule ok) (simp add: extracted_of_def)
qed

text \<open>
  C19: damage is detected. When up to four adjacent bytes of the payload of a stored container
  have changed, \<^verbatim>\<open>stego_decode\<close> answers \<open>STEGO_ERR_CRC\<close> and returns no data.
\<close>

theorem decode_detects_damage:
  assumes "wf_img img"
    and "length xs = length ys" "length xs \<le> 4" "xs \<noteq> ys"
    and "length name < 2 ^ 16" "length (pre @ ys @ post) < 2 ^ 32"
    and "c = container_body type name (pre @ ys @ post)
        @ write_be32 (stego_crc32 (container_body type name (pre @ xs @ post)))"
    and "length c \<le> image_avail_bytes img" "extract_bits img (of_nat (length c)) = c"
    and "decode_allocs al (length name) (length (pre @ ys @ post))"
  shows "decode_loaded al img = Inl STEGO_ERR_CRC"
proof -
  let ?h = "STEGO_MAGIC @ [payload_type_byte type] @ write_be16 (of_nat (length name)) @ name
      @ write_be32 (of_nat (length (pre @ ys @ post))) @ pre"
  have "container_body type name (pre @ xs @ post) = ?h @ xs @ post"
    "container_body type name (pre @ ys @ post) = ?h @ ys @ post"
    using assms(2) by (simp_all add: container_body_def)
  then have "stego_crc32 (container_body type name (pre @ xs @ post))
      \<noteq> stego_crc32 (container_body type name (pre @ ys @ post))"
    using stego_crc32_burst [OF assms(2,3), of ?h post] assms(4) by auto
  then show ?thesis
    using decode_carried [OF assms(1,7,8,9,5,6,10)] by simp
qed

definition damaged_container :: bytes where
  "damaged_container = container_body STEGO_PAYLOAD_TEXT [] ([104] @ [105] @ [33])
     @ write_be32 (stego_crc32 (container_body STEGO_PAYLOAD_TEXT [] ([104] @ [97] @ [33])))"

theorem decode_detects_damage_witness:
  "decode_loaded all_granted (embed_bits rgb_8x8 damaged_container (of_nat (length damaged_container)))
     = Inl STEGO_ERR_CRC"
proof -
  have len: "length damaged_container = 18" by (simp add: damaged_container_def length_simps)
  have fits: "length damaged_container \<le> image_avail_bytes rgb_8x8" by (simp add: len rgb_8x8_avail)
  show ?thesis
    by (rule decode_detects_damage [OF lsb.store_ok [OF rgb_8x8_wf] _ _ _ _ _ damaged_container_def])
      (simp_all add: lsb.store_room [OF rgb_8x8_wf] lsb.fetch_store [OF rgb_8x8_wf fits] fits decode_allocs_def)
qed

end
