(* ===== verification/Filesys.thy ===== *)
theory Filesys
  imports Clib
begin

text \<open>
  The part of C stdio and POSIX files that the server uses on its storage directory: regular files
  by path, directories, and the environment's choices (which paths open, how many bytes a device
  takes, whether a close flushes). An open output stream is the bytes it has accepted; \<^verbatim>\<open>fclose\<close>
  hands them to the file. Opening a directory as a file is not represented.
\<close>

record filesys =
  fs_files :: "path \<Rightarrow> bytes option"
  fs_dirs :: "path \<Rightarrow> bool"
  fs_readable :: "path \<Rightarrow> bool"
  fs_writable :: "path \<Rightarrow> bool"
  fs_seekable :: "path \<Rightarrow> bool"
  fs_room :: "path \<Rightarrow> nat"
  fs_lost :: "path \<Rightarrow> nat option"

definition fopen_rb :: "filesys \<Rightarrow> path \<Rightarrow> bytes option" where
  "fopen_rb fs p = (if fs_readable fs p then fs_files fs p else None)"

definition set_file :: "filesys \<Rightarrow> path \<Rightarrow> bytes \<Rightarrow> filesys" where
  "set_file fs p d = fs\<lparr>fs_files := (fs_files fs)(p \<mapsto> d)\<rparr>"

definition unlink :: "filesys \<Rightarrow> path \<Rightarrow> filesys" where
  "unlink fs p = fs\<lparr>fs_files := (fs_files fs)(p := None)\<rparr>"

text \<open>\<^verbatim>\<open>fopen(p, "wb")\<close> creates or truncates the file.\<close>

definition fopen_wb :: "filesys \<Rightarrow> path \<Rightarrow> filesys option" where
  "fopen_wb fs p = (if fs_writable fs p \<and> \<not> fs_dirs fs p then Some (set_file fs p []) else None)"

text \<open>\<^verbatim>\<open>fwrite\<close> on the stream of \<open>p\<close> holding \<open>st\<close>: the stream afterwards and the count returned.\<close>

definition fwrite :: "filesys \<Rightarrow> path \<Rightarrow> bytes \<Rightarrow> bytes \<Rightarrow> bytes \<times> nat" where
  "fwrite fs p st d =
     (let n = min (length d) (fs_room fs p - length st) in (st @ take n d, n))"

text \<open>\<^verbatim>\<open>fclose\<close> of an output stream: \<open>fs_lost\<close> says that the final flush fails and what it keeps.\<close>

definition fclose_w :: "filesys \<Rightarrow> path \<Rightarrow> bytes \<Rightarrow> filesys \<times> bool" where
  "fclose_w fs p st =
     (case fs_lost fs p of
        None \<Rightarrow> (set_file fs p st, True)
      | Some k \<Rightarrow> (set_file fs p (take k st), False))"

text \<open>\<^verbatim>\<open>stat\<close> and \<^verbatim>\<open>mkdir\<close> as \<^verbatim>\<open>storage.c\<close> uses them.\<close>

definition file_size :: "filesys \<Rightarrow> path \<Rightarrow> nat option" where
  "file_size fs p = map_option length (fs_files fs p)"

text \<open>The directory a path lies in; the empty text is the working directory or the root.\<close>

definition parent_dir :: "path \<Rightarrow> path" where
  "parent_dir p = take (length p - Suc (length (takeWhile (\<lambda>c. c \<noteq> CHR ''/'') (rev p)))) p"

definition mkdir :: "filesys \<Rightarrow> path \<Rightarrow> filesys option" where
  "mkdir fs p =
     (if fs_dirs fs p \<or> fs_files fs p \<noteq> None \<or> \<not> fs_writable fs p then None
      else if parent_dir p \<noteq> [] \<and> \<not> fs_dirs fs (parent_dir p) then None
      else Some (fs\<lparr>fs_dirs := (fs_dirs fs)(p := True)\<rparr>))"

text \<open>A path on which writing works all the way: it opens, takes \<open>n\<close> bytes and flushes.\<close>

definition accepts :: "filesys \<Rightarrow> path \<Rightarrow> nat \<Rightarrow> bool" where
  "accepts fs p n \<longleftrightarrow> fs_writable fs p \<and> \<not> fs_dirs fs p \<and> n \<le> fs_room fs p \<and> fs_lost fs p = None"

lemma set_file_simps [frame_simps]:
  "fs_files (set_file fs p d) q = (if q = p then Some d else fs_files fs q)"
  "fs_dirs (set_file fs p d) = fs_dirs fs"
  "fs_readable (set_file fs p d) = fs_readable fs"
  "fs_writable (set_file fs p d) = fs_writable fs"
  "fs_seekable (set_file fs p d) = fs_seekable fs"
  "fs_room (set_file fs p d) = fs_room fs"
  "fs_lost (set_file fs p d) = fs_lost fs"
  "set_file (set_file fs p d) p e = set_file fs p e"
  by (simp_all add: set_file_def)

lemma unlink_simps [frame_simps]:
  "fs_files (unlink fs p) q = (if q = p then None else fs_files fs q)"
  "fs_dirs (unlink fs p) = fs_dirs fs"
  "fs_readable (unlink fs p) = fs_readable fs"
  "fs_writable (unlink fs p) = fs_writable fs"
  "fs_seekable (unlink fs p) = fs_seekable fs"
  "fs_room (unlink fs p) = fs_room fs"
  "fs_lost (unlink fs p) = fs_lost fs"
  "unlink (set_file fs p d) p = unlink fs p"
  by (simp_all add: unlink_def set_file_def)

lemma fopen_rb_set_file [frame_simps]:
  "fopen_rb (set_file fs p d) q =
     (if q = p then (if fs_readable fs p then Some d else None) else fopen_rb fs q)"
  by (simp add: fopen_rb_def frame_simps)

lemma fwrite_fits: "length st + length d \<le> fs_room fs p \<Longrightarrow> fwrite fs p st d = (st @ d, length d)"
  by (simp add: fwrite_def)

lemma fwrite_count: "fwrite fs p st d = (st', n) \<Longrightarrow> n = length d \<Longrightarrow> st' = st @ d"
  by (auto simp: fwrite_def Let_def)

lemma fclose_w_env [frame_simps]:
  "fs_dirs (fst (fclose_w fs p st)) = fs_dirs fs"
  "fs_readable (fst (fclose_w fs p st)) = fs_readable fs"
  "fs_writable (fst (fclose_w fs p st)) = fs_writable fs"
  "fs_seekable (fst (fclose_w fs p st)) = fs_seekable fs"
  "fs_room (fst (fclose_w fs p st)) = fs_room fs"
  "fs_lost (fst (fclose_w fs p st)) = fs_lost fs"
  by (simp_all add: fclose_w_def frame_simps split: option.split)

lemma fclose_w_other: "q \<noteq> p \<Longrightarrow> fs_files (fst (fclose_w fs p st)) q = fs_files fs q"
  by (simp add: fclose_w_def frame_simps split: option.split)

end
