(* ===== verification/Stego_Codec.thy ===== *)
theory Stego_Codec
  imports Stego_Container Filesys
begin

text \<open>
  \<^verbatim>\<open>src/server/stego.c\<close>, the file level: loading and saving an image through libpng, the capacity
  query, encoding text or a file into an image and decoding it. libpng is not part of the
  repository: it is the record \<open>libpng\<close>, a parameter of every definition here. A call that leaves
  through \<^verbatim>\<open>longjmp\<close> is \<open>None\<close> (or \<open>False\<close>).
\<close>

record png_info =
  pi_width :: u32
  pi_height :: u32
  pi_bit_depth :: int
  pi_color_type :: int
  pi_trns :: bool

text \<open>The transformations requested before \<^verbatim>\<open>png_read_update_info\<close>.\<close>

record png_xform =
  xf_palette_to_rgb :: bool
  xf_expand_gray :: bool
  xf_trns_to_alpha :: bool
  xf_strip_16 :: bool
  xf_gray_to_rgb :: bool

text \<open>What libpng reports after \<^verbatim>\<open>png_read_update_info\<close>.\<close>

record png_upd =
  pu_color_type :: int
  pu_bit_depth :: int
  pu_channels :: int
  pu_rowbytes :: nat

text \<open>The arguments of \<^verbatim>\<open>png_set_IHDR\<close> that vary.\<close>

record png_ihdr =
  ih_width :: u32
  ih_height :: u32
  ih_bit_depth :: int
  ih_color_type :: int

record libpng =
  png_sig_ok :: "bytes \<Rightarrow> bool"
  png_read_struct_ok :: bool
  png_read_info_struct_ok :: bool
  png_read_info :: "bytes \<Rightarrow> png_info option"
  png_channels :: "bytes \<Rightarrow> int"
  png_read_update :: "bytes \<Rightarrow> png_xform \<Rightarrow> png_upd option"
  png_read_image :: "bytes \<Rightarrow> png_xform \<Rightarrow> bytes list option"
  png_read_end :: "bytes \<Rightarrow> bool"
  png_write_struct_ok :: bool
  png_write_info_struct_ok :: bool
  png_write :: "png_ihdr \<Rightarrow> bytes list \<Rightarrow> bytes option"

definition PNG_COLOR_TYPE_GRAY :: int where "PNG_COLOR_TYPE_GRAY = 0"
definition PNG_COLOR_TYPE_RGB :: int where "PNG_COLOR_TYPE_RGB = 2"
definition PNG_COLOR_TYPE_PALETTE :: int where "PNG_COLOR_TYPE_PALETTE = 3"
definition PNG_COLOR_TYPE_GRAY_ALPHA :: int where "PNG_COLOR_TYPE_GRAY_ALPHA = 4"
definition PNG_COLOR_TYPE_RGB_ALPHA :: int where "PNG_COLOR_TYPE_RGB_ALPHA = 6"

definition load_xform :: "png_info \<Rightarrow> png_xform" where
  "load_xform info =
     (let color_type = pi_color_type info; bit_depth = pi_bit_depth info
      in \<lparr>xf_palette_to_rgb = (color_type = PNG_COLOR_TYPE_PALETTE),
          xf_expand_gray = (color_type = PNG_COLOR_TYPE_GRAY \<and> bit_depth < 8),
          xf_trns_to_alpha = pi_trns info,
          xf_strip_16 = (bit_depth = 16),
          xf_gray_to_rgb = (color_type = PNG_COLOR_TYPE_GRAY \<or> color_type = PNG_COLOR_TYPE_GRAY_ALPHA)\<rparr>)"

text \<open>The loop that allocates the rows: it stops at the first failure.\<close>

fun alloc_rows :: "allocator \<Rightarrow> nat \<Rightarrow> nat \<Rightarrow> nat \<Rightarrow> bool" where
  "alloc_rows al rowbytes y 0 = True"
| "alloc_rows al rowbytes y (Suc k) = (al (Alloc_row y) rowbytes \<and> alloc_rows al rowbytes (Suc y) k)"

definition png_load_rgb_or_rgba ::
  "libpng \<Rightarrow> allocator \<Rightarrow> filesys \<Rightarrow> path option \<Rightarrow> stego_status + png_image_buf" where
  "png_load_rgb_or_rgba lp al fs path =
     (case path of None \<Rightarrow> Inl STEGO_ERR_ARG | Some p \<Rightarrow>
      case fopen_rb fs p of None \<Rightarrow> Inl STEGO_ERR_OPEN | Some file \<Rightarrow>
      if length file < 8 then Inl STEGO_ERR_NOT_PNG
      else if \<not> png_sig_ok lp (take 8 file) then Inl STEGO_ERR_NOT_PNG
      else if \<not> png_read_struct_ok lp then Inl STEGO_ERR_MEMORY
      else if \<not> png_read_info_struct_ok lp then Inl STEGO_ERR_MEMORY
      else case png_read_info lp file of None \<Rightarrow> Inl STEGO_ERR_LIBPNG | Some info \<Rightarrow>
      (let xf = load_xform info in
      case png_read_update lp file xf of None \<Rightarrow> Inl STEGO_ERR_LIBPNG | Some upd \<Rightarrow>
      if pu_bit_depth upd \<noteq> 8 \<or> (pu_channels upd \<noteq> 3 \<and> pu_channels upd \<noteq> 4)
      then Inl STEGO_ERR_UNSUPPORTED
      else let height = unat (pi_height info) in
      if \<not> al Alloc_rows (height * 8) then Inl STEGO_ERR_MEMORY
      else if \<not> alloc_rows al (pu_rowbytes upd) 0 height then Inl STEGO_ERR_MEMORY
      else case png_read_image lp file xf of None \<Rightarrow> Inl STEGO_ERR_LIBPNG | Some rows \<Rightarrow>
      if \<not> png_read_end lp file then Inl STEGO_ERR_LIBPNG
      else Inr \<lparr>img_width = pi_width info, img_height = pi_height info,
                img_bit_depth = pu_bit_depth upd, img_color_type = pu_color_type upd,
                img_channels = pu_channels upd, img_rows = rows\<rparr>))"

text \<open>
  The rows of an image handed to \<^verbatim>\<open>png_save_rgb_or_rgba\<close> are never \<^verbatim>\<open>NULL\<close> here. libpng writes
  through the stream, so a device that does not take all the bytes is a libpng error; the result of
  the final \<^verbatim>\<open>fclose\<close> is ignored by the code.
\<close>

definition png_save_rgb_or_rgba ::
  "libpng \<Rightarrow> filesys \<Rightarrow> path option \<Rightarrow> png_image_buf \<Rightarrow> stego_status \<times> filesys" where
  "png_save_rgb_or_rgba lp fs path img =
     (case path of None \<Rightarrow> (STEGO_ERR_ARG, fs) | Some p \<Rightarrow>
      case fopen_wb fs p of None \<Rightarrow> (STEGO_ERR_OPEN, fs) | Some fs1 \<Rightarrow>
      if \<not> png_write_struct_ok lp then (STEGO_ERR_MEMORY, unlink fs1 p)
      else if \<not> png_write_info_struct_ok lp then (STEGO_ERR_MEMORY, unlink fs1 p)
      else let out_color_type = (if img_channels img = 4 then PNG_COLOR_TYPE_RGB_ALPHA else PNG_COLOR_TYPE_RGB);
               ihdr = \<lparr>ih_width = img_width img, ih_height = img_height img,
                       ih_bit_depth = 8, ih_color_type = out_color_type\<rparr> in
      case png_write lp ihdr (img_rows img) of None \<Rightarrow> (STEGO_ERR_LIBPNG, unlink fs1 p) | Some file \<Rightarrow>
      (case fwrite fs1 p [] file of (st, n) \<Rightarrow>
       if n \<noteq> length file then (STEGO_ERR_LIBPNG, unlink fs1 p)
       else (STEGO_OK, fst (fclose_w fs1 p st))))"

record stego_capacity =
  cap_payload_max_bytes :: nat
  cap_width :: u32
  cap_height :: u32
  cap_channels :: int
  cap_data_channels :: int

definition stego_get_capacity ::
  "libpng \<Rightarrow> allocator \<Rightarrow> filesys \<Rightarrow> path option \<Rightarrow> stego_status + stego_capacity" where
  "stego_get_capacity lp al fs png_path =
     (case png_path of None \<Rightarrow> Inl STEGO_ERR_ARG | Some p \<Rightarrow>
      case png_load_rgb_or_rgba lp al fs (Some p) of Inl rc \<Rightarrow> Inl rc | Inr img \<Rightarrow>
      let bits = image_data_bit_capacity img;
          total_bytes = unat (bits div 8);
          overhead = STEGO_HEADER_MIN_LEN
      in Inr \<lparr>cap_payload_max_bytes = (if total_bytes > overhead then total_bytes - overhead else 0),
              cap_width = img_width img, cap_height = img_height img,
              cap_channels = img_channels img,
              cap_data_channels = (if img_channels img = 4 then 3 else img_channels img)\<rparr>)"

definition encode_common ::
  "libpng \<Rightarrow> allocator \<Rightarrow> filesys \<Rightarrow> path option \<Rightarrow> path option \<Rightarrow> stego_payload_type \<Rightarrow>
     string option \<Rightarrow> bytes option \<Rightarrow> nat \<Rightarrow> stego_status \<times> filesys" where
  "encode_common lp al fs input_png_path output_png_path type filename payload payload_len =
     (if input_png_path = None \<or> output_png_path = None then (STEGO_ERR_ARG, fs)
      else case png_load_rgb_or_rgba lp al fs input_png_path of Inl rc \<Rightarrow> (rc, fs) | Inr img \<Rightarrow>
      case build_container al type filename payload payload_len of
        None \<Rightarrow> (STEGO_ERR_MEMORY, fs)
      | Some container \<Rightarrow>
          let container_len = (of_nat (length container) :: u64);
              needed_bits = container_len * 8;
              avail_bits = image_data_bit_capacity img in
          if needed_bits > avail_bits then (STEGO_ERR_CAPACITY, fs)
          else png_save_rgb_or_rgba lp fs output_png_path (embed_bits img container container_len))"

definition stego_encode_text ::
  "libpng \<Rightarrow> allocator \<Rightarrow> filesys \<Rightarrow> path option \<Rightarrow> path option \<Rightarrow> bytes option \<Rightarrow> nat \<Rightarrow> stego_status \<times> filesys" where
  "stego_encode_text lp al fs input_png_path output_png_path text text_len =
     (if text = None \<and> text_len > 0 then (STEGO_ERR_ARG, fs)
      else encode_common lp al fs input_png_path output_png_path STEGO_PAYLOAD_TEXT None text text_len)"

text \<open>A regular file is read whole once \<^verbatim>\<open>fseek\<close> and \<^verbatim>\<open>ftell\<close> have given its size.\<close>

definition stego_encode_file ::
  "libpng \<Rightarrow> allocator \<Rightarrow> filesys \<Rightarrow> path option \<Rightarrow> path option \<Rightarrow> path option \<Rightarrow> string option \<Rightarrow>
     stego_status \<times> filesys" where
  "stego_encode_file lp al fs input_png_path output_png_path payload_file_path store_as_filename =
     (case payload_file_path of None \<Rightarrow> (STEGO_ERR_ARG, fs) | Some pp \<Rightarrow>
      case fopen_rb fs pp of None \<Rightarrow> (STEGO_ERR_OPEN, fs) | Some file \<Rightarrow>
      if \<not> fs_seekable fs pp then (STEGO_ERR_IO, fs)
      else let size = length file; buf_ok = al Alloc_file_buf size in
      if \<not> buf_ok \<and> size > 0 then (STEGO_ERR_MEMORY, fs)
      else let fn = (case store_as_filename of Some n \<Rightarrow> n | None \<Rightarrow> basename_of pp) in
        encode_common lp al fs input_png_path output_png_path STEGO_PAYLOAD_FILE (Some fn)
          (if buf_ok then Some file else None) size)"

definition stego_decode ::
  "libpng \<Rightarrow> allocator \<Rightarrow> filesys \<Rightarrow> path option \<Rightarrow> stego_status + stego_extracted" where
  "stego_decode lp al fs png_path =
     (case png_path of None \<Rightarrow> Inl STEGO_ERR_ARG | Some p \<Rightarrow>
      case png_load_rgb_or_rgba lp al fs (Some p) of Inl rc \<Rightarrow> Inl rc | Inr img \<Rightarrow> decode_loaded al img)"

section \<open>What the code relies on in libpng\<close>

text \<open>
  The documented behaviour of libpng, as two predicates on the parameter. Reading gives as many rows
  as the header says, each of \<^verbatim>\<open>png_get_rowbytes\<close> bytes, which for an 8-bit image is one byte per
  sample, and refuses images wider than the default limit of one million pixels.
\<close>

definition libpng_rows :: "libpng \<Rightarrow> bool" where
  "libpng_rows lp \<longleftrightarrow>
     (\<forall>file info xf upd rows. png_read_info lp file = Some info \<longrightarrow> png_read_update lp file xf = Some upd \<longrightarrow>
        png_read_image lp file xf = Some rows \<longrightarrow>
        unat (pi_width info) \<le> 1000000 \<and> length rows = unat (pi_height info) \<and>
        list_all (\<lambda>r. length r = pu_rowbytes upd) rows \<and>
        (pu_bit_depth upd = 8 \<longrightarrow> pu_rowbytes upd = unat (pi_width info) * nat (pu_channels upd)))"

definition color_channels :: "int \<Rightarrow> int" where
  "color_channels color_type = (if color_type = PNG_COLOR_TYPE_RGB_ALPHA then 4 else 3)"

definition no_xform :: png_xform where
  "no_xform = \<lparr>xf_palette_to_rgb = False, xf_expand_gray = False, xf_trns_to_alpha = False,
     xf_strip_16 = False, xf_gray_to_rgb = False\<rparr>"

text \<open>
  PNG is lossless: a file written from 8-bit RGB or RGBA rows is a PNG file, and read back without
  transformations it has the same header and the same rows.
\<close>

definition libpng_lossless :: "libpng \<Rightarrow> bool" where
  "libpng_lossless lp \<longleftrightarrow>
     (\<forall>w h ct rows file.
        ct = PNG_COLOR_TYPE_RGB \<or> ct = PNG_COLOR_TYPE_RGB_ALPHA \<longrightarrow>
        length rows = unat h \<longrightarrow>
        list_all (\<lambda>r. length r = unat w * nat (color_channels ct)) rows \<longrightarrow>
        png_write lp \<lparr>ih_width = w, ih_height = h, ih_bit_depth = 8, ih_color_type = ct\<rparr> rows = Some file \<longrightarrow>
        8 \<le> length file \<and> png_sig_ok lp (take 8 file) \<and>
        png_read_info lp file = Some \<lparr>pi_width = w, pi_height = h, pi_bit_depth = 8,
          pi_color_type = ct, pi_trns = False\<rparr> \<and>
        png_read_update lp file no_xform = Some \<lparr>pu_color_type = ct, pu_bit_depth = 8,
          pu_channels = color_channels ct, pu_rowbytes = unat w * nat (color_channels ct)\<rparr> \<and>
        png_read_image lp file no_xform = Some rows \<and> png_read_end lp file)"

section \<open>Loading and saving\<close>

lemma load_xform_plain:
  "ct = PNG_COLOR_TYPE_RGB \<or> ct = PNG_COLOR_TYPE_RGB_ALPHA \<Longrightarrow>
   load_xform \<lparr>pi_width = w, pi_height = h, pi_bit_depth = 8, pi_color_type = ct, pi_trns = False\<rparr> = no_xform"
  by (auto simp: load_xform_def no_xform_def PNG_COLOR_TYPE_PALETTE_def PNG_COLOR_TYPE_GRAY_def
      PNG_COLOR_TYPE_RGB_def PNG_COLOR_TYPE_RGB_ALPHA_def PNG_COLOR_TYPE_GRAY_ALPHA_def)

lemma png_load_wf:
  assumes "libpng_rows lp" and "png_load_rgb_or_rgba lp al fs p = Inr img"
  shows "wf_img img" "img_bit_depth img = 8"
proof -
  from assms(2) obtain png info upd rows where
    r: "png_read_info lp png = Some info" "png_read_update lp png (load_xform info) = Some upd"
      "png_read_image lp png (load_xform info) = Some rows"
    and ch: "pu_bit_depth upd = 8" "pu_channels upd = 3 \<or> pu_channels upd = 4"
    and img: "img = \<lparr>img_width = pi_width info, img_height = pi_height info,
                img_bit_depth = pu_bit_depth upd, img_color_type = pu_color_type upd,
                img_channels = pu_channels upd, img_rows = rows\<rparr>"
    by (auto simp: png_load_rgb_or_rgba_def Let_def split: option.splits if_splits)
  from assms(1) r ch(1) have
    "unat (pi_width info) \<le> 1000000" "length rows = unat (pi_height info)"
    "list_all (\<lambda>r. length r = unat (pi_width info) * nat (pu_channels upd)) rows"
    unfolding libpng_rows_def by fastforce+
  with ch show "wf_img img" "img_bit_depth img = 8" by (auto simp: img wf_img_def)
qed

lemma alloc_rows_granted [simp]: "alloc_rows (\<lambda>_ _. True) n y k"
  by (induction k arbitrary: y) simp_all

text \<open>The pixels of an image: what libpng keeps of it.\<close>

definition same_pixels :: "png_image_buf \<Rightarrow> png_image_buf \<Rightarrow> bool" where
  "same_pixels a b \<longleftrightarrow> img_width a = img_width b \<and> img_height a = img_height b \<and>
     img_channels a = img_channels b \<and> img_rows a = img_rows b"

lemma png_load_save:
  assumes lossless: "libpng_lossless lp" and wf: "wf_img img"
    and saved: "png_save_rgb_or_rgba lp fs (Some out) img = (STEGO_OK, fs')"
    and env: "fs_readable fs out" "fs_lost fs out = None" "png_read_struct_ok lp" "png_read_info_struct_ok lp"
  shows "\<exists>img'. png_load_rgb_or_rgba lp (\<lambda>_ _. True) fs' (Some out) = Inr img' \<and> same_pixels img' img"
proof -
  let ?ct = "if img_channels img = 4 then PNG_COLOR_TYPE_RGB_ALPHA else PNG_COLOR_TYPE_RGB"
  let ?ih = "\<lparr>ih_width = img_width img, ih_height = img_height img, ih_bit_depth = 8, ih_color_type = ?ct\<rparr>"
  have ct: "?ct = PNG_COLOR_TYPE_RGB \<or> ?ct = PNG_COLOR_TYPE_RGB_ALPHA" by simp
  have chan: "color_channels ?ct = img_channels img"
    using wf by (auto simp: wf_img_def color_channels_def PNG_COLOR_TYPE_RGB_def PNG_COLOR_TYPE_RGB_ALPHA_def)
  obtain png where png: "png_write lp ?ih (img_rows img) = Some png"
    and fs': "fs' = set_file fs out png"
    using saved env(2)
    by (auto simp: png_save_rgb_or_rgba_def Let_def fopen_wb_def fclose_w_def frame_simps
        split: option.splits if_splits prod.splits dest!: fwrite_count)
  have geom: "length (img_rows img) = unat (img_height img)"
    "list_all (\<lambda>r. length r = unat (img_width img) * nat (color_channels ?ct)) (img_rows img)"
    using wf unfolding chan by (simp_all add: wf_img_def)
  have read: "8 \<le> length png" "png_sig_ok lp (take 8 png)" "png_read_end lp png"
    "png_read_info lp png = Some \<lparr>pi_width = img_width img, pi_height = img_height img, pi_bit_depth = 8,
       pi_color_type = ?ct, pi_trns = False\<rparr>"
    "png_read_update lp png no_xform = Some \<lparr>pu_color_type = ?ct, pu_bit_depth = 8,
       pu_channels = color_channels ?ct, pu_rowbytes = unat (img_width img) * nat (color_channels ?ct)\<rparr>"
    "png_read_image lp png no_xform = Some (img_rows img)"
    using lossless [unfolded libpng_lossless_def, rule_format, OF ct geom png] by blast+
  have ch34: "img_channels img = 3 \<or> img_channels img = 4" using wf by (simp add: wf_img_def)
  show ?thesis
    unfolding png_load_rgb_or_rgba_def fs'
    using env(1,3,4) read ch34
    by (simp add: fopen_rb_def frame_simps load_xform_plain [OF ct] chan same_pixels_def Let_def)
qed

lemma decode_same_pixels:
  assumes "same_pixels a b"
  shows "decode_loaded al a = decode_loaded al b"
proof -
  have "extract_bits a = extract_bits b"
    using assms by (intro ext) (simp add: extract_bits_def same_pixels_def img_row_len_def)
  moreover have "image_avail_bytes a = image_avail_bytes b"
    using assms by (simp add: image_avail_bytes_def image_data_bit_capacity_def same_pixels_def)
  ultimately show ?thesis by (simp only: decode_loaded_def)
qed

section \<open>Encoding and decoding files\<close>

lemma needed_bits_fit:
  assumes "wf_img img" "length c < 2 ^ 60"
  shows "(of_nat (length c) :: u64) * 8 > image_data_bit_capacity img \<longleftrightarrow> length c > image_avail_bytes img"
proof -
  have "unat (image_data_bit_capacity img) div 8 = image_avail_bytes img"
    by (simp add: image_avail_bytes_def unat_div)
  then show ?thesis
    unfolding word_less_nat_alt total_bits_in_range [OF assms(2)] by linarith
qed

lemma encode_common_ok:
  assumes "libpng_rows lp" "length p = n" "n < 2 ^ 32"
    and "encode_common lp al fs i out type filename (Some p) n = (STEGO_OK, fs')"
  shows "\<exists>img c. wf_img img \<and> build_container al type filename (Some p) n = Some c
    \<and> length c \<le> image_avail_bytes img
    \<and> png_save_rgb_or_rgba lp fs out (embed_bits img c (of_nat (length c))) = (STEGO_OK, fs')"
proof -
  from assms(4) have no_loss: "rc \<noteq> STEGO_OK" if "png_load_rgb_or_rgba lp al fs i = Inl rc" for rc
    using that by (auto simp: png_load_rgb_or_rgba_def Let_def split: option.splits if_splits)
  from assms(4) no_loss obtain img c where
    img: "png_load_rgb_or_rgba lp al fs i = Inr img"
    and c: "build_container al type filename (Some p) n = Some c"
    and cap: "\<not> (of_nat (length c) :: u64) * 8 > image_data_bit_capacity img"
    and save: "png_save_rgb_or_rgba lp fs out (embed_bits img c (of_nat (length c))) = (STEGO_OK, fs')"
    by (auto simp: encode_common_def Let_def split: if_splits sum.splits option.splits)
  have wf: "wf_img img" by (rule png_load_wf [OF assms(1) img])
  have "stored_payload (Some p) n = p" using assms(2) by (simp add: stored_payload_def)
  then have "length c \<le> 270 + n"
    using c assms(2) build_container_layout [of "Some p" n al type filename] stored_name_length [of type filename]
    by (auto simp: Let_def length_simps split: if_splits)
  with assms(3) have "length c < 2 ^ 60" by simp
  then have "length c \<le> image_avail_bytes img" using cap needed_bits_fit [OF wf, of c] by simp
  with wf c save show ?thesis by blast
qed

lemma encode_common_decode:
  assumes lib: "libpng_rows lp" "libpng_lossless lp" "png_read_struct_ok lp" "png_read_info_struct_ok lp"
    and out: "fs_readable fs out" "fs_lost fs out = None"
    and p: "length p = n" "n < 2 ^ 32"
    and enc: "encode_common lp al fs i (Some out) type filename (Some p) n = (STEGO_OK, fs')"
  shows "stego_decode lp all_granted fs' (Some out) = Inr (extracted_of type (stored_name type filename) p)"
proof -
  obtain img c where wf: "wf_img img"
    and c: "build_container al type filename (Some p) n = Some c" and fits: "length c \<le> image_avail_bytes img"
    and save: "png_save_rgb_or_rgba lp fs (Some out) (embed_bits img c (of_nat (length c))) = (STEGO_OK, fs')"
    using encode_common_ok [OF lib(1) p enc] by blast
  obtain img' where load: "png_load_rgb_or_rgba lp all_granted fs' (Some out) = Inr img'"
    and same: "same_pixels img' (embed_bits img c (of_nat (length c)))"
    using png_load_save [OF lib(2) embed_bits_wf [OF wf] save out lib(3,4)] by blast
  have "stored_payload (Some p) n = p" using p by (simp add: stored_payload_def)
  then have body: "c = container_body type (stored_name type filename) p
      @ write_be32 (stego_crc32 (container_body type (stored_name type filename) p))"
    using c p(1) build_container_layout [of "Some p" n al type filename]
    by (simp add: Let_def split: if_splits)
  have "decode_loaded all_granted (embed_bits img c (of_nat (length c)))
      = Inr (extracted_of type (stored_name type filename) p)"
    using decode_embedded [OF wf body fits] stored_name_length [of type filename] p
    by (simp add: decode_allocs_def)
  then show ?thesis
    by (simp add: stego_decode_def load decode_same_pixels [OF same])
qed

section \<open>A concrete codec\<close>

text \<open>
  An uncompressed format with the PNG signature, as a concrete value of the parameter: it meets both
  assumptions, so the theorems that have them are about something.
\<close>

definition raw_channels :: "bytes \<Rightarrow> nat" where
  "raw_channels f = (if f ! 16 = 6 then 4 else 3)"

definition raw_info :: "bytes \<Rightarrow> png_info option" where
  "raw_info f =
     (if 17 \<le> length f \<and> (f ! 16 = 2 \<or> f ! 16 = 6) \<and> unat (read_be32 (drop 8 f)) \<le> 1000000 \<and>
         length f = 17 + unat (read_be32 (drop 12 f)) * (unat (read_be32 (drop 8 f)) * raw_channels f)
      then Some \<lparr>pi_width = read_be32 (drop 8 f), pi_height = read_be32 (drop 12 f), pi_bit_depth = 8,
                 pi_color_type = uint (f ! 16), pi_trns = False\<rparr>
      else None)"

definition raw_rows :: "bytes \<Rightarrow> bytes list" where
  "raw_rows f = (let n = unat (read_be32 (drop 8 f)) * raw_channels f
     in map (\<lambda>y. take n (drop (17 + y * n) f)) [0..<unat (read_be32 (drop 12 f))])"

definition png_signature :: bytes where
  "png_signature = [137, 80, 78, 71, 13, 10, 26, 10]"

definition raw_png :: libpng where
  "raw_png = \<lparr>png_sig_ok = (\<lambda>s. s = png_signature), png_read_struct_ok = True, png_read_info_struct_ok = True,
     png_read_info = raw_info, png_channels = (\<lambda>f. int (raw_channels f)),
     png_read_update = (\<lambda>f xf. map_option (\<lambda>i. \<lparr>pu_color_type = pi_color_type i, pu_bit_depth = 8,
        pu_channels = int (raw_channels f), pu_rowbytes = unat (pi_width i) * raw_channels f\<rparr>) (raw_info f)),
     png_read_image = (\<lambda>f xf. map_option (\<lambda>_. raw_rows f) (raw_info f)),
     png_read_end = (\<lambda>_. True), png_write_struct_ok = True, png_write_info_struct_ok = True,
     png_write = (\<lambda>ih rows. if unat (ih_width ih) \<le> 1000000 then
        Some (png_signature @ write_be32 (ih_width ih) @ write_be32 (ih_height ih)
          @ [of_int (ih_color_type ih)] @ concat rows) else None)\<rparr>"

lemma raw_infoD:
  assumes "raw_info f = Some i"
  shows "unat (read_be32 (drop 8 f)) \<le> 1000000"
    and "length f = 17 + unat (read_be32 (drop 12 f)) * (unat (read_be32 (drop 8 f)) * raw_channels f)"
    and "i = \<lparr>pi_width = read_be32 (drop 8 f), pi_height = read_be32 (drop 12 f), pi_bit_depth = 8,
                 pi_color_type = uint (f ! 16), pi_trns = False\<rparr>"
  using assms unfolding raw_info_def by (simp_all only: option.inject option.distinct split: if_split_asm)

lemma chunk_length:
  assumes "length f = k + h * n" "y < (h :: nat)"
  shows "length (take n (drop (k + y * n) f)) = n"
proof -
  have "Suc y * n \<le> h * n" using assms(2) by (intro mult_le_mono1) simp
  then show ?thesis using assms(1) by simp
qed

lemma raw_rows_lengths:
  assumes "raw_info f = Some i"
  shows "list_all (\<lambda>r. length r = unat (read_be32 (drop 8 f)) * raw_channels f) (raw_rows f)"
proof -
  let ?n = "unat (read_be32 (drop 8 f)) * raw_channels f" and ?h = "unat (read_be32 (drop 12 f))"
  have "length (take ?n (drop (17 + y * ?n) f)) = ?n" if "y < ?h" for y
    by (rule chunk_length [OF raw_infoD(2) [OF assms] that])
  then show ?thesis by (simp add: raw_rows_def Let_def list_all_iff del: length_take length_drop)
qed

lemma raw_png_rows: "libpng_rows raw_png"
  unfolding libpng_rows_def
proof (intro allI impI)
  fix f info xf upd rows
  assume r: "png_read_info raw_png f = Some info" "png_read_update raw_png f xf = Some upd"
    "png_read_image raw_png f xf = Some rows"
  then have i: "raw_info f = Some info" and rows: "rows = raw_rows f"
    and upd: "pu_rowbytes upd = unat (pi_width info) * raw_channels f" "pu_channels upd = int (raw_channels f)"
    by (auto simp: raw_png_def)
  have w: "unat (pi_width info) \<le> 1000000" "pi_width info = read_be32 (drop 8 f)"
    "pi_height info = read_be32 (drop 12 f)"
    using raw_infoD(1,3) [OF i] by simp_all
  then show "unat (pi_width info) \<le> 1000000 \<and> length rows = unat (pi_height info) \<and>
      list_all (\<lambda>r. length r = pu_rowbytes upd) rows \<and>
      (pu_bit_depth upd = 8 \<longrightarrow> pu_rowbytes upd = unat (pi_width info) * nat (pu_channels upd))"
    using raw_rows_lengths [OF i] by (simp add: rows upd) (simp add: raw_rows_def Let_def)
qed

lemma chunk_concat:
  "list_all (\<lambda>r. length r = n) rows \<Longrightarrow> y < length rows \<Longrightarrow> take n (drop (y * n) (concat rows)) = rows ! y"
proof (induction rows arbitrary: y)
  case (Cons r rows)
  then show ?case by (cases y) auto
qed simp

lemma concat_length_uniform: "list_all (\<lambda>r. length r = n) rows \<Longrightarrow> length (concat rows) = length rows * n"
  by (induction rows) auto

lemma raw_png_lossless: "libpng_lossless raw_png"
  unfolding libpng_lossless_def
proof (intro allI impI)
  fix w h :: u32 and ct rows f
  assume ct: "ct = PNG_COLOR_TYPE_RGB \<or> ct = PNG_COLOR_TYPE_RGB_ALPHA"
    and rows: "length rows = unat h" "list_all (\<lambda>r. length r = unat w * nat (color_channels ct)) rows"
    and wr: "png_write raw_png \<lparr>ih_width = w, ih_height = h, ih_bit_depth = 8, ih_color_type = ct\<rparr> rows = Some f"
  have w: "unat w \<le> 1000000"
    and f: "f = (png_signature @ write_be32 w @ write_be32 h @ [of_int ct]) @ concat rows"
    using wr by (simp_all add: raw_png_def split: if_splits)
  have head: "take 8 f = png_signature" "drop 8 f = write_be32 w @ write_be32 h @ of_int ct # concat rows"
    "drop 12 f = write_be32 h @ of_int ct # concat rows" "f ! 16 = of_int ct"
    unfolding f by (simp_all add: png_signature_def write_be32_def)
  have body: "drop (17 + k) f = drop k (concat rows)" for k
    unfolding f by (simp only: drop_append) (simp add: png_signature_def length_simps)
  have col: "f ! 16 = 2 \<or> f ! 16 = 6" "uint (f ! 16) = ct" "int (raw_channels f) = color_channels ct"
    "raw_channels f = nat (color_channels ct)"
    unfolding raw_channels_def head(4) using ct
    by (auto simp: PNG_COLOR_TYPE_RGB_def PNG_COLOR_TYPE_RGB_ALPHA_def color_channels_def)
  have len: "length f = 17 + unat h * (unat w * nat (color_channels ct))"
    using concat_length_uniform [OF rows(2)] rows(1) by (simp add: f png_signature_def length_simps)
  have info: "raw_info f = Some \<lparr>pi_width = w, pi_height = h, pi_bit_depth = 8, pi_color_type = ct, pi_trns = False\<rparr>"
    using w len col by (simp add: raw_info_def head(2,3) be32.dec_enc)
  have "raw_rows f = map (\<lambda>y. rows ! y) [0..<unat h]"
    unfolding raw_rows_def Let_def head(2,3) body be32.dec_enc col(4)
    using chunk_concat [OF rows(2)] rows(1) by simp
  then have "raw_rows f = rows" by (simp only: map_nth flip: rows(1))
  with info col show "8 \<le> length f \<and> png_sig_ok raw_png (take 8 f) \<and>
        png_read_info raw_png f = Some \<lparr>pi_width = w, pi_height = h, pi_bit_depth = 8,
          pi_color_type = ct, pi_trns = False\<rparr> \<and>
        png_read_update raw_png f no_xform = Some \<lparr>pu_color_type = ct, pu_bit_depth = 8,
          pu_channels = color_channels ct, pu_rowbytes = unat w * nat (color_channels ct)\<rparr> \<and>
        png_read_image raw_png f no_xform = Some rows \<and> png_read_end raw_png f"
    by (simp add: raw_png_def head(1) len)
qed

section \<open>Which requests succeed\<close>

lemma save_status: "fst (png_save_rgb_or_rgba lp fs p img) \<noteq> STEGO_ERR_CAPACITY"
  by (simp add: png_save_rgb_or_rgba_def Let_def split: option.split prod.split)

lemma build_text_container:
  assumes "al Alloc_container (15 + length t)"
  shows "\<exists>c. build_container al STEGO_PAYLOAD_TEXT None (Some t) (length t) = Some c \<and> length c = 15 + length t"
  using assms build_container_layout [of "Some t" "length t" al STEGO_PAYLOAD_TEXT None]
  by (simp add: stored_payload_def stored_name_def Let_def length_simps add.commute)

lemma encode_common_runs:
  assumes "libpng_rows lp" "png_load_rgb_or_rgba lp al fs (Some i) = Inr img"
    and "build_container al type fn p n = Some c" "length c < 2 ^ 60"
  shows "encode_common lp al fs (Some i) (Some out) type fn p n =
    (if length c > image_avail_bytes img then (STEGO_ERR_CAPACITY, fs)
     else png_save_rgb_or_rgba lp fs (Some out) (embed_bits img c (of_nat (length c))))"
  using needed_bits_fit [OF png_load_wf(1) [OF assms(1,2)] assms(4)]
  by (simp add: encode_common_def assms(2,3) Let_def)

lemma encode_text_outcome:
  assumes "libpng_rows lp" "png_load_rgb_or_rgba lp al fs (Some i) = Inr img"
    and "length t < 2 ^ 32" "al Alloc_container (15 + length t)"
  shows "\<exists>c. length c = 15 + length t \<and>
    stego_encode_text lp al fs (Some i) (Some out) (Some t) (length t) =
      (if 15 + length t > image_avail_bytes img then (STEGO_ERR_CAPACITY, fs)
       else png_save_rgb_or_rgba lp fs (Some out) (embed_bits img c (of_nat (length c))))"
proof -
  obtain c where c: "build_container al STEGO_PAYLOAD_TEXT None (Some t) (length t) = Some c"
    "length c = 15 + length t"
    using build_text_container [of al t] assms(4) by blast
  have "length c < 2 ^ 60" using assms(3) c(2) by simp
  from encode_common_runs [OF assms(1,2) c(1) this] show ?thesis
    by (intro exI [of _ c]) (simp add: stego_encode_text_def c(2))
qed

text \<open>
  C20: the capacity \<^verbatim>\<open>stego_get_capacity\<close> reports is exact for text. Given the memory for the
  container, \<^verbatim>\<open>stego_encode_text\<close> refuses a text with \<open>STEGO_ERR_CAPACITY\<close> if and only if it is longer than
  the reported \<^verbatim>\<open>payload_max_bytes\<close>, or it is empty and the image has fewer than 120 colour samples: such
  an image has no room for the 15 bytes of the header, which a reported capacity of zero does not tell.
\<close>

theorem capacity_exact_for_text:
  assumes "libpng_rows lp"
    and "stego_get_capacity lp al fs (Some i) = Inr cap"
    and "length t < 2 ^ 32" "al Alloc_container (15 + length t)"
  shows "fst (stego_encode_text lp al fs (Some i) (Some out) (Some t) (length t)) = STEGO_ERR_CAPACITY
    \<longleftrightarrow> length t > cap_payload_max_bytes cap \<or> (t = [] \<and> unat (cap_width cap) * unat (cap_height cap) * 3 < 120)"
proof -
  obtain img where img: "png_load_rgb_or_rgba lp al fs (Some i) = Inr img"
    and cap: "cap_payload_max_bytes cap = (if image_avail_bytes img > 15 then image_avail_bytes img - 15 else 0)"
      "cap_width cap = img_width img" "cap_height cap = img_height img"
    using assms(2)
    by (auto simp: stego_get_capacity_def image_avail_bytes_def STEGO_HEADER_MIN_LEN_def Let_def split: sum.splits)
  have "image_avail_bytes img = unat (img_width img) * unat (img_height img) * 3 div 8"
    using png_load_wf(1) [OF assms(1) img] by (simp add: image_avail_bytes_carriers length_carriers ac_simps)
  then have "image_avail_bytes img < 15 \<longleftrightarrow> unat (cap_width cap) * unat (cap_height cap) * 3 < 120"
    unfolding cap(2,3) by (simp add: div_less_iff_less_mult)
  moreover have "15 + length t > image_avail_bytes img \<longleftrightarrow>
      length t > cap_payload_max_bytes cap \<or> (t = [] \<and> image_avail_bytes img < 15)"
    unfolding cap(1) by (cases t) auto
  moreover obtain c where "stego_encode_text lp al fs (Some i) (Some out) (Some t) (length t) =
      (if 15 + length t > image_avail_bytes img then (STEGO_ERR_CAPACITY, fs)
       else png_save_rgb_or_rgba lp fs (Some out) (embed_bits img c (of_nat (length c))))"
    using encode_text_outcome [OF assms(1) img assms(3,4)] by blast
  ultimately show ?thesis using save_status by simp
qed

subsection \<open>A storage directory for the witnesses\<close>

definition disk0 :: filesys where
  "disk0 = \<lparr>fs_files = Map.empty, fs_dirs = (\<lambda>_. False), fs_readable = (\<lambda>_. True), fs_writable = (\<lambda>_. True),
     fs_seekable = (\<lambda>_. True), fs_room = (\<lambda>_. 1000000), fs_lost = (\<lambda>_. None)\<rparr>"

lemma raw_save_ok:
  assumes "fs_writable fs p" "\<not> fs_dirs fs p" "fs_lost fs p = None" "unat (img_width img) \<le> 1000000"
    and "17 + length (concat (img_rows img)) \<le> fs_room fs p"
  shows "fst (png_save_rgb_or_rgba raw_png fs (Some p) img) = STEGO_OK"
  using assms
  by (simp add: png_save_rgb_or_rgba_def raw_png_def fopen_wb_def fwrite_def fclose_w_def frame_simps Let_def
      length_simps png_signature_def)

definition disk1 :: filesys where
  "disk1 = snd (png_save_rgb_or_rgba raw_png disk0 (Some ''in.png'') rgb_8x8)"

lemma rgb_8x8_samples: "length (concat (img_rows rgb_8x8)) = 192"
  using concat_length_uniform [of 24 "img_rows rgb_8x8"] by (simp add: rgb_8x8_def list_all_iff)

lemma disk1_saved: "png_save_rgb_or_rgba raw_png disk0 (Some ''in.png'') rgb_8x8 = (STEGO_OK, disk1)"
proof (rule prod_eqI)
  have "unat (img_width rgb_8x8) \<le> 1000000" by (simp add: rgb_8x8_def)
  then show "fst (png_save_rgb_or_rgba raw_png disk0 (Some ''in.png'') rgb_8x8) = fst (STEGO_OK, disk1)"
    unfolding fst_conv by (intro raw_save_ok) (simp_all add: rgb_8x8_samples, simp_all add: disk0_def)
qed (simp add: disk1_def)

lemma save_env [frame_simps]:
  "fs_dirs (snd (png_save_rgb_or_rgba lp fs p img)) = fs_dirs fs"
  "fs_readable (snd (png_save_rgb_or_rgba lp fs p img)) = fs_readable fs"
  "fs_writable (snd (png_save_rgb_or_rgba lp fs p img)) = fs_writable fs"
  "fs_seekable (snd (png_save_rgb_or_rgba lp fs p img)) = fs_seekable fs"
  "fs_room (snd (png_save_rgb_or_rgba lp fs p img)) = fs_room fs"
  "fs_lost (snd (png_save_rgb_or_rgba lp fs p img)) = fs_lost fs"
  by (auto simp: png_save_rgb_or_rgba_def fopen_wb_def Let_def frame_simps split: option.split prod.split if_splits)

lemma disk1_env [simp]:
  "fs_dirs disk1 p = False" "fs_readable disk1 p" "fs_writable disk1 p" "fs_room disk1 p = 1000000"
  "fs_lost disk1 p = None"
  unfolding disk1_def frame_simps by (simp_all add: disk0_def)

lemma disk1_load:
  "\<exists>img. png_load_rgb_or_rgba raw_png all_granted disk1 (Some ''in.png'') = Inr img \<and> same_pixels img rgb_8x8"
  by (rule png_load_save [OF raw_png_lossless rgb_8x8_wf disk1_saved]) (simp_all add: disk0_def raw_png_def)

lemma same_pixels_avail: "same_pixels a b \<Longrightarrow> image_avail_bytes a = image_avail_bytes b"
  by (simp add: image_avail_bytes_def image_data_bit_capacity_def same_pixels_def)

lemma disk1_encode:
  assumes "png_load_rgb_or_rgba raw_png all_granted fs (Some i) = Inr img" "same_pixels img rgb_8x8"
    and "build_container all_granted type fn p n = Some c" "length c \<le> 24"
    and "fs_writable fs out" "\<not> fs_dirs fs out" "fs_lost fs out = None" "fs_room fs out = 1000000"
  shows "fst (encode_common raw_png all_granted fs (Some i) (Some out) type fn p n) = STEGO_OK"
proof -
  let ?img = "embed_bits img c (of_nat (length c))"
  have "image_avail_bytes img = 24" using assms(2) by (simp add: same_pixels_avail rgb_8x8_avail)
  then have c: "encode_common raw_png all_granted fs (Some i) (Some out) type fn p n
      = png_save_rgb_or_rgba raw_png fs (Some out) ?img"
    using encode_common_runs [OF raw_png_rows assms(1,3)] assms(4) by simp
  have wf: "wf_img ?img"
    by (rule embed_bits_wf [OF png_load_wf(1) [OF raw_png_rows assms(1)]])
  have "img_width img = 8" "img_height img = 8" "img_channels img = 3"
    using assms(2) by (simp_all add: same_pixels_def rgb_8x8_def)
  then have "list_all (\<lambda>r. length r = 24) (img_rows ?img)" "length (img_rows ?img) = 8"
    "unat (img_width ?img) \<le> 1000000"
    using wf by (simp_all add: wf_img_def frame_simps)
  then show ?thesis
    unfolding c using assms(5-8) by (intro raw_save_ok) (simp_all add: concat_length_uniform)
qed

theorem capacity_exact_for_text_witness:
  "fst (stego_encode_text raw_png all_granted disk1 (Some ''in.png'') (Some ''o.png'') (Some [1, 2])
      (length [1, 2 :: u8])) \<noteq> STEGO_ERR_CAPACITY"
proof -
  obtain img where img: "png_load_rgb_or_rgba raw_png all_granted disk1 (Some ''in.png'') = Inr img"
    "same_pixels img rgb_8x8"
    using disk1_load by blast
  have "image_avail_bytes img = 24" using img(2) by (simp add: same_pixels_avail rgb_8x8_avail)
  then obtain cap where "stego_get_capacity raw_png all_granted disk1 (Some ''in.png'') = Inr cap"
    "cap_payload_max_bytes cap = 9"
    by (simp add: stego_get_capacity_def img image_avail_bytes_def STEGO_HEADER_MIN_LEN_def Let_def)
  then show ?thesis
    using capacity_exact_for_text [OF raw_png_rows, of all_granted disk1 "''in.png''" cap "[1, 2]" "''o.png''"]
    by simp
qed

section \<open>Properties of encoding and decoding\<close>

text \<open>
  C3: hidden text comes back. When \<^verbatim>\<open>stego_encode_text\<close> reports success, \<^verbatim>\<open>stego_decode\<close> of the file it
  wrote returns exactly that text, as text, with no file name. libpng is only assumed to be lossless
  and to deliver the rows its header announces.
\<close>

theorem stego_text_roundtrip:
  assumes "libpng_rows lp" "libpng_lossless lp" "png_read_struct_ok lp" "png_read_info_struct_ok lp"
    and "fs_readable fs out" "fs_lost fs out = None"
    and "length t < 2 ^ 32"
    and "stego_encode_text lp al fs i (Some out) (Some t) (length t) = (STEGO_OK, fs')"
  shows "stego_decode lp all_granted fs' (Some out) =
    Inr \<lparr>ex_type = STEGO_PAYLOAD_TEXT, ex_filename = [], ex_data = (if t = [] then None else Some t),
         ex_data_len = length t\<rparr>"
  using encode_common_decode [OF assms(1-6) refl assms(7)] assms(8)
  by (simp add: stego_encode_text_def stored_name_def extracted_of_def)

theorem stego_text_roundtrip_witness:
  "\<exists>fs'. stego_encode_text raw_png all_granted disk1 (Some ''in.png'') (Some ''o.png'') (Some [104, 105])
        (length [104, 105 :: u8]) = (STEGO_OK, fs') \<and>
     stego_decode raw_png all_granted fs' (Some ''o.png'') =
       Inr \<lparr>ex_type = STEGO_PAYLOAD_TEXT, ex_filename = [], ex_data = Some [104, 105], ex_data_len = 2\<rparr>"
proof -
  let ?r = "stego_encode_text raw_png all_granted disk1 (Some ''in.png'') (Some ''o.png'') (Some [104, 105])
        (length [104, 105 :: u8])"
  obtain img where img: "png_load_rgb_or_rgba raw_png all_granted disk1 (Some ''in.png'') = Inr img"
    "same_pixels img rgb_8x8" using disk1_load by blast
  obtain c where c: "build_container all_granted STEGO_PAYLOAD_TEXT None (Some [104, 105]) (length [104, 105 :: u8]) = Some c"
    "length c = 15 + length [104, 105 :: u8]" using build_text_container [of all_granted "[104, 105]"] by blast
  have "fst ?r = STEGO_OK"
    using disk1_encode [OF img c(1), of "''o.png''"] c(2) by (simp add: stego_encode_text_def)
  then obtain fs' where ok: "?r = (STEGO_OK, fs')" by (cases ?r) simp
  moreover have "stego_decode raw_png all_granted fs' (Some ''o.png'') =
       Inr \<lparr>ex_type = STEGO_PAYLOAD_TEXT, ex_filename = [], ex_data = (if [104, 105 :: u8] = [] then None else Some [104, 105]),
         ex_data_len = length [104, 105 :: u8]\<rparr>"
    by (rule stego_text_roundtrip [OF raw_png_rows raw_png_lossless _ _ _ _ _ ok]) (simp_all add: raw_png_def)
  ultimately show ?thesis by simp
qed

text \<open>
  C6: a hidden file comes back. When \<^verbatim>\<open>stego_encode_file\<close> reports success, \<^verbatim>\<open>stego_decode\<close> of the file it
  wrote returns the bytes of the payload file, marked as a file, under the requested name or, when
  none was requested, under the last component of the payload path, cut to 255 characters.
\<close>

theorem stego_file_roundtrip:
  assumes "libpng_rows lp" "libpng_lossless lp" "png_read_struct_ok lp" "png_read_info_struct_ok lp"
    and "fs_readable fs out" "fs_lost fs out = None"
    and "fopen_rb fs pp = Some data" "length data < 2 ^ 32" "al Alloc_file_buf (length data)"
    and "stego_encode_file lp al fs i (Some out) (Some pp) name = (STEGO_OK, fs')"
  shows "stego_decode lp all_granted fs' (Some out) =
    Inr \<lparr>ex_type = STEGO_PAYLOAD_FILE,
         ex_filename = take 255 (cstr (case name of Some n \<Rightarrow> n | None \<Rightarrow> basename_of pp)),
         ex_data = (if data = [] then None else Some data), ex_data_len = length data\<rparr>"
proof -
  let ?fn = "case name of Some n \<Rightarrow> n | None \<Rightarrow> basename_of pp"
  have "encode_common lp al fs i (Some out) STEGO_PAYLOAD_FILE (Some ?fn) (Some data) (length data) = (STEGO_OK, fs')"
    using assms(7,9,10) by (simp add: stego_encode_file_def Let_def split: if_splits)
  from encode_common_decode [OF assms(1-6) refl assms(8) this]
  show ?thesis by (simp add: stored_name_def extracted_of_def take_bytes_of cstr_take)
qed

definition disk2 :: filesys where
  "disk2 = set_file disk1 ''d/a.txt'' [104, 105]"

theorem stego_file_roundtrip_witness:
  "\<exists>fs'. stego_encode_file raw_png all_granted disk2 (Some ''in.png'') (Some ''o.png'') (Some ''d/a.txt'') None
        = (STEGO_OK, fs') \<and>
     stego_decode raw_png all_granted fs' (Some ''o.png'') =
       Inr \<lparr>ex_type = STEGO_PAYLOAD_FILE, ex_filename = ''a.txt'', ex_data = Some [104, 105], ex_data_len = 2\<rparr>"
proof -
  let ?r = "stego_encode_file raw_png all_granted disk2 (Some ''in.png'') (Some ''o.png'') (Some ''d/a.txt'') None"
  obtain img where "png_load_rgb_or_rgba raw_png all_granted disk1 (Some ''in.png'') = Inr img"
    "same_pixels img rgb_8x8" using disk1_load by blast
  then have img: "png_load_rgb_or_rgba raw_png all_granted disk2 (Some ''in.png'') = Inr img"
    "same_pixels img rgb_8x8"
    by (simp_all add: png_load_rgb_or_rgba_def disk2_def frame_simps)
  have env: "fs_writable disk2 p" "\<not> fs_dirs disk2 p" "fs_lost disk2 p = None" "fs_room disk2 p = 1000000"
    "fs_readable disk2 p" for p
    by (simp_all add: disk2_def frame_simps)
  have pp: "fopen_rb disk2 ''d/a.txt'' = Some [104, 105]" "fs_seekable disk2 p" for p
    by (simp_all add: disk2_def frame_simps, simp add: disk1_def frame_simps, simp add: disk0_def)
  have name: "basename_of ''d/a.txt'' = ''a.txt''" by (simp add: basename_of_def)
  have "fst ?r = STEGO_OK"
    using disk1_encode [OF img hi_container_build _ env(1-4), of "''o.png''"]
    by (simp add: stego_encode_file_def pp name Let_def hi_container_length numeral_2_eq_2)
  then obtain fs' where ok: "?r = (STEGO_OK, fs')" by (cases ?r) simp
  moreover have "stego_decode raw_png all_granted fs' (Some ''o.png'') =
     Inr \<lparr>ex_type = STEGO_PAYLOAD_FILE,
         ex_filename = take 255 (cstr (case None of Some n \<Rightarrow> n | None \<Rightarrow> basename_of ''d/a.txt'')),
         ex_data = (if [104, 105 :: u8] = [] then None else Some [104, 105]), ex_data_len = length [104, 105 :: u8]\<rparr>"
    by (rule stego_file_roundtrip [OF raw_png_rows raw_png_lossless _ _ env(5,3) pp(1) _ _ ok])
      (simp_all add: raw_png_def)
  ultimately show ?thesis by (simp add: name cstr_def)
qed

text \<open>What an operation that writes one file may have done to the storage when it returns \<open>rc\<close>.\<close>

definition only_output :: "filesys \<Rightarrow> path \<Rightarrow> stego_status \<times> filesys \<Rightarrow> bool" where
  "only_output fs out r \<longleftrightarrow>
     (\<forall>q. q \<noteq> out \<longrightarrow> fs_files (snd r) q = fs_files fs q) \<and>
     (fst r \<noteq> STEGO_OK \<longrightarrow> fs_files (snd r) out = fs_files fs out \<or> fs_files (snd r) out = None)"

lemma only_output_refl: "only_output fs out (rc, fs)"
  by (simp add: only_output_def)

lemma save_only_output: "only_output fs out (png_save_rgb_or_rgba lp fs (Some out) img)"
  by (auto simp: only_output_def png_save_rgb_or_rgba_def fopen_wb_def Let_def frame_simps fclose_w_other
      split: option.split prod.split)

lemma encode_common_only_output:
  "only_output fs out (encode_common lp al fs i (Some out) type fn p n)"
  by (simp add: encode_common_def Let_def only_output_refl save_only_output split: sum.split option.split)

text \<open>
  C21: encoding touches one file. Whatever the outcome, every file other than the output is as
  before; and when \<^verbatim>\<open>stego_encode_file\<close> reports an error, the output path holds its old contents or
  nothing: no partly written image is left behind.
\<close>

theorem encode_leaves_no_partial_output:
  assumes "stego_encode_file lp al fs i (Some out) pp name = (rc, fs')"
  shows "(q \<noteq> out \<longrightarrow> fs_files fs' q = fs_files fs q) \<and>
    (rc \<noteq> STEGO_OK \<longrightarrow> fs_files fs' out = fs_files fs out \<or> fs_files fs' out = None)"
proof -
  have "only_output fs out (stego_encode_file lp al fs i (Some out) pp name)"
    by (simp add: stego_encode_file_def Let_def only_output_refl encode_common_only_output split: option.split)
  then show ?thesis using assms by (simp add: only_output_def)
qed

theorem encode_leaves_no_partial_output_witness:
  "\<exists>rc fs'. stego_encode_file raw_png all_granted disk2 (Some ''none.png'') (Some ''o.png'') (Some ''d/a.txt'') None = (rc, fs')
     \<and> fs_files fs' ''d/a.txt'' = Some [104, 105]"
proof -
  obtain rc fs' where r:
    "stego_encode_file raw_png all_granted disk2 (Some ''none.png'') (Some ''o.png'') (Some ''d/a.txt'') None = (rc, fs')"
    by fastforce
  have "fs_files fs' ''d/a.txt'' = fs_files disk2 ''d/a.txt''"
    using encode_leaves_no_partial_output [OF r, of "''d/a.txt''"] by simp
  with r show ?thesis by (simp add: disk2_def frame_simps)
qed

end
