(* ===== verification/Png_Utils.thy ===== *)
theory Png_Utils
  imports Stego_Codec
begin

text \<open>
  \<^verbatim>\<open>src/server/png_utils.c\<close>: PNG metadata without decoding, used by the \<^verbatim>\<open>VALIDATE\<close> job, and the
  simple capacity estimate of that module. libpng is the parameter of \<^theory_text>\<open>Stego_Codec\<close>.
\<close>

section \<open>The code\<close>

record png_metadata =
  md_width :: u32
  md_height :: u32
  md_bit_depth :: int
  md_color_type :: int
  md_channels :: int

definition is_png_signature_valid :: "libpng \<Rightarrow> filesys \<Rightarrow> path option \<Rightarrow> int" where
  "is_png_signature_valid lp fs path =
     (case path of None \<Rightarrow> - 1 | Some p \<Rightarrow>
      case fopen_rb fs p of None \<Rightarrow> - 1 | Some f \<Rightarrow>
      if length f < 8 then 0 else if png_sig_ok lp (take 8 f) then 1 else 0)"

definition png_read_metadata :: "libpng \<Rightarrow> filesys \<Rightarrow> path option \<Rightarrow> png_metadata option" where
  "png_read_metadata lp fs path =
     (case path of None \<Rightarrow> None | Some p \<Rightarrow>
      case fopen_rb fs p of None \<Rightarrow> None | Some f \<Rightarrow>
      if length f < 8 then None
      else if \<not> png_sig_ok lp (take 8 f) then None
      else if \<not> png_read_struct_ok lp then None
      else if \<not> png_read_info_struct_ok lp then None
      else case png_read_info lp f of None \<Rightarrow> None | Some info \<Rightarrow>
        Some \<lparr>md_width = pi_width info, md_height = pi_height info, md_bit_depth = pi_bit_depth info,
              md_color_type = pi_color_type info, md_channels = png_channels lp f\<rparr>)"

definition png_calculate_lsb_capacity_bytes :: "png_metadata \<Rightarrow> u64 option" where
  "png_calculate_lsb_capacity_bytes md =
     (if md_width md = 0 \<or> md_height md = 0 \<or> md_channels md \<le> 0 then None
      else if md_bit_depth md \<noteq> 8 then None
      else let pixels = ucast (md_width md) * ucast (md_height md) :: u64;
               usable_bits = pixels * of_int (md_channels md);
               reserved_bytes = 16;
               total_bytes = usable_bits div 8
           in Some (if total_bytes > reserved_bytes then total_bytes - reserved_bytes else 0))"

definition analyze_png_capacity_simple :: "libpng \<Rightarrow> filesys \<Rightarrow> path option \<Rightarrow> u64 option" where
  "analyze_png_capacity_simple lp fs path =
     (case path of None \<Rightarrow> None | Some p \<Rightarrow>
      case png_read_metadata lp fs (Some p) of None \<Rightarrow> None | Some md \<Rightarrow> png_calculate_lsb_capacity_bytes md)"

definition png_color_type_to_string :: "int \<Rightarrow> string" where
  "png_color_type_to_string color_type =
     (if color_type = PNG_COLOR_TYPE_GRAY then ''GRAY''
      else if color_type = PNG_COLOR_TYPE_GRAY_ALPHA then ''GRAY_ALPHA''
      else if color_type = PNG_COLOR_TYPE_PALETTE then ''PALETTE''
      else if color_type = PNG_COLOR_TYPE_RGB then ''RGB''
      else if color_type = PNG_COLOR_TYPE_RGB_ALPHA then ''RGBA''
      else ''UNKNOWN'')"

section \<open>Metadata and loading agree\<close>

text \<open>
  The \<^verbatim>\<open>VALIDATE\<close> job is not stricter than the codec: every image that \<^verbatim>\<open>png_load_rgb_or_rgba\<close>
  loads has readable metadata, with the dimensions the loaded image has.
\<close>

theorem loadable_is_valid:
  assumes "png_load_rgb_or_rgba lp al fs p = Inr img"
  shows "\<exists>md. png_read_metadata lp fs p = Some md \<and> md_width md = img_width img \<and> md_height md = img_height img"
  using assms
  by (auto simp: png_load_rgb_or_rgba_def png_read_metadata_def Let_def split: option.splits if_splits)

theorem loadable_is_valid_witness:
  "\<exists>md. png_read_metadata raw_png disk1 (Some ''in.png'') = Some md \<and> md_width md = 8"
proof -
  obtain img where img: "png_load_rgb_or_rgba raw_png all_granted disk1 (Some ''in.png'') = Inr img"
    "same_pixels img rgb_8x8" using disk1_load by blast
  then have "img_width img = 8" by (simp add: same_pixels_def rgb_8x8_def)
  with loadable_is_valid [OF img(1)] show ?thesis by auto
qed

text \<open>
  The two capacity computations of the program disagree. On an 8-bit RGBA image of at least 64
  pixels (and at most \<open>2 ^ 60\<close>), \<^verbatim>\<open>png_calculate_lsb_capacity_bytes\<close>, which counts the alpha channel,
  promises more bytes than \<^verbatim>\<open>stego_get_capacity\<close>, which is what encoding honours.
\<close>

theorem lsb_capacity_overstates_rgba:
  assumes "wf_img img" "img_channels img = 4"
    and "md_width md = img_width img" "md_height md = img_height img" "md_bit_depth md = 8" "md_channels md = 4"
    and "64 \<le> unat (img_width img) * unat (img_height img)" "unat (img_width img) * unat (img_height img) \<le> 2 ^ 60"
  shows "\<exists>c. png_calculate_lsb_capacity_bytes md = Some c \<and> unat c + 15 > image_avail_bytes img"
proof -
  let ?n = "unat (img_width img) * unat (img_height img)"
  let ?p = "ucast (img_width img) * ucast (img_height img) :: u64"
  have nz: "img_width img \<noteq> 0" "img_height img \<noteq> 0" using assms(7) by auto
  have p: "unat ?p = ?n" using assms(8) by (subst unat_mult_u64) simp_all
  have "?n * 4 < 2 ^ 64" using assms(8) by (rule le_less_trans [OF mult_le_mono1]) simp
  with p have b: "unat (?p * 4) = ?n * 4" by (subst unat_mult_u64) (simp_all add: mult.commute)
  have avail: "image_avail_bytes img = ?n * 3 div 8"
    using assms(1) by (simp add: image_avail_bytes_carriers length_carriers ac_simps)
  have t: "unat (?p * 4 div 8) = ?n * 4 div 8" by (simp add: unat_div b)
  have big: "?n * 4 div 8 > 16" "?n * 4 div 8 - 16 + 15 > ?n * 3 div 8" using assms(7) by linarith+
  then have gt: "?p * 4 div 8 > 16" by (simp add: word_less_nat_alt t)
  then have "unat (?p * 4 div 8 - 16) = ?n * 4 div 8 - 16" by (simp add: unat_sub_if_size word_le_nat_alt t word_less_nat_alt)
  then show ?thesis
    using nz gt big avail assms(3-6) by (simp add: png_calculate_lsb_capacity_bytes_def Let_def)
qed

definition rgba_8x8 :: png_image_buf where
  "rgba_8x8 = \<lparr>img_width = 8, img_height = 8, img_bit_depth = 8, img_color_type = 6,
     img_channels = 4, img_rows = replicate 8 (replicate 32 255)\<rparr>"

theorem lsb_capacity_overstates_rgba_witness:
  "\<exists>c. png_calculate_lsb_capacity_bytes \<lparr>md_width = 8, md_height = 8, md_bit_depth = 8, md_color_type = 6, md_channels = 4\<rparr>
      = Some c \<and> unat c + 15 > image_avail_bytes rgba_8x8"
  by (rule lsb_capacity_overstates_rgba) (simp_all add: rgba_8x8_def wf_img_def list_all_iff)

end
