(* ===== verification/Net_IO.thy ===== *)
theory Net_IO
  imports Clib
begin

text \<open>
  The transfer loops of \<^verbatim>\<open>src/server/net.c\<close>. A connected socket is the bytes the peer has sent and not
  yet been read, the bytes written to the peer, and a schedule: what the kernel does on each call
  (interrupt it, fail it, or transfer only some bytes). When the schedule is used up, calls transfer
  everything they can. Reading at the end of the peer's data is end of file. Every loop of the code
  takes one step of the schedule or makes progress in each round, which is its termination measure.
\<close>

section \<open>The code\<close>

datatype io_step = Io_eintr | Io_error | Io_some nat

record sock =
  s_in :: bytes
  s_out :: bytes
  s_sched :: "io_step list"

datatype io_result = Res_eintr | Res_error | Res_ok nat

text \<open>\<^verbatim>\<open>read\<close>: at least one byte unless the data is at its end. The data read is returned too.\<close>

definition sock_read :: "nat \<Rightarrow> sock \<Rightarrow> sock \<times> io_result \<times> bytes" where
  "sock_read want s =
     (case s_sched s of
        [] \<Rightarrow> (s\<lparr>s_in := drop want (s_in s)\<rparr>, Res_ok (min want (length (s_in s))), take want (s_in s))
      | step # rest \<Rightarrow>
         (let s1 = s\<lparr>s_sched := rest\<rparr> in
          case step of
            Io_eintr \<Rightarrow> (s1, Res_eintr, [])
          | Io_error \<Rightarrow> (s1, Res_error, [])
          | Io_some k \<Rightarrow>
              (let n = min want (Suc k)
               in (s1\<lparr>s_in := drop n (s_in s)\<rparr>, Res_ok (min n (length (s_in s))), take n (s_in s)))))"

text \<open>\<^verbatim>\<open>write\<close>: possibly only a part, possibly nothing.\<close>

definition sock_write :: "bytes \<Rightarrow> sock \<Rightarrow> sock \<times> io_result" where
  "sock_write d s =
     (case s_sched s of
        [] \<Rightarrow> (s\<lparr>s_out := s_out s @ d\<rparr>, Res_ok (length d))
      | step # rest \<Rightarrow>
         (let s1 = s\<lparr>s_sched := rest\<rparr> in
          case step of
            Io_eintr \<Rightarrow> (s1, Res_eintr)
          | Io_error \<Rightarrow> (s1, Res_error)
          | Io_some k \<Rightarrow> (s1\<lparr>s_out := s_out s @ take k d\<rparr>, Res_ok (min k (length d)))))"

text \<open>
  The loops. \<open>None\<close> is the return value \<^verbatim>\<open>-1\<close>. The arguments \<open>written\<close>, \<open>pos\<close> and \<open>remaining\<close> are the loop
  variables; data already read is carried in \<open>acc\<close>.
\<close>

function write_all_loop :: "bytes \<Rightarrow> nat \<Rightarrow> sock \<Rightarrow> sock \<times> nat option" where
  "write_all_loop buf written s =
     (if written < length buf then
        (case sock_write (drop written buf) s of (s1, r) \<Rightarrow>
           case r of
             Res_eintr \<Rightarrow> write_all_loop buf written s1
           | Res_error \<Rightarrow> (s1, None)
           | Res_ok n \<Rightarrow> if n = 0 then (s1, Some written) else write_all_loop buf (written + n) s1)
      else (s, Some written))"
  by pat_completeness auto

function read_line_loop :: "nat \<Rightarrow> bytes \<Rightarrow> sock \<Rightarrow> sock \<times> bytes option" where
  "read_line_loop buffer_size acc s =
     (if length acc + 1 < buffer_size then
        (case sock_read 1 s of (s1, r, d) \<Rightarrow>
           case r of
             Res_eintr \<Rightarrow> read_line_loop buffer_size acc s1
           | Res_error \<Rightarrow> (s1, None)
           | Res_ok n \<Rightarrow>
               if n = 0 then (s1, Some acc)
               else let acc1 = acc @ d in
                 if d = [of_nat (of_char NL)] then (s1, Some acc1) else read_line_loop buffer_size acc1 s1)
      else (s, Some acc))"
  by pat_completeness auto

function read_exact_loop :: "nat \<Rightarrow> bytes \<Rightarrow> sock \<Rightarrow> sock \<times> bytes option" where
  "read_exact_loop sz acc s =
     (if length acc < sz then
        (case sock_read (sz - length acc) s of (s1, r, d) \<Rightarrow>
           case r of
             Res_eintr \<Rightarrow> read_exact_loop sz acc s1
           | Res_error \<Rightarrow> (s1, None)
           | Res_ok n \<Rightarrow> if n = 0 then (s1, Some acc) else read_exact_loop sz (acc @ d) s1)
      else (s, Some acc))"
  by pat_completeness auto

definition CHUNK_SIZE :: nat where "CHUNK_SIZE = 65536"

function discard_loop :: "nat \<Rightarrow> sock \<Rightarrow> sock \<times> bool" where
  "discard_loop remaining s =
     (if remaining > 0 then
        (let want = (if remaining < CHUNK_SIZE then remaining else CHUNK_SIZE) in
         case sock_read want s of (s1, r, d) \<Rightarrow>
           case r of
             Res_eintr \<Rightarrow> discard_loop remaining s1
           | Res_error \<Rightarrow> (s1, False)
           | Res_ok n \<Rightarrow> if n = 0 then (s1, False) else discard_loop (remaining - n) s1)
      else (s, True))"
  by pat_completeness auto

section \<open>Termination\<close>

lemma sock_read_eintr: "sock_read w s = (s1, Res_eintr, d) \<Longrightarrow> length (s_sched s1) < length (s_sched s)"
  by (auto simp: sock_read_def Let_def split: list.splits io_step.splits)

lemma sock_write_eintr: "sock_write w s = (s1, Res_eintr) \<Longrightarrow> length (s_sched s1) < length (s_sched s)"
  by (auto simp: sock_write_def Let_def split: list.splits io_step.splits)

lemma sock_read_sched: "sock_read w s = (s1, r, d) \<Longrightarrow> length (s_sched s1) \<le> length (s_sched s)"
  by (auto simp: sock_read_def Let_def split: list.splits io_step.splits)

lemma sock_write_sched: "sock_write w s = (s1, r) \<Longrightarrow> length (s_sched s1) \<le> length (s_sched s)"
  by (auto simp: sock_write_def Let_def split: list.splits io_step.splits)

lemma sock_read_sched_set: "sock_read w s = (s1, r, d) \<Longrightarrow> set (s_sched s1) \<subseteq> set (s_sched s)"
  by (auto simp: sock_read_def Let_def split: list.splits io_step.splits)

lemma sock_read_data:
  assumes "sock_read w s = (s1, Res_ok n, d)"
  shows "length d = n \<and> n \<le> w \<and> s_in s = d @ s_in s1 \<and> s_out s1 = s_out s"
  using assms by (auto simp: sock_read_def Let_def min_def split: list.splits io_step.splits)

lemma sock_read_eof:
  assumes "sock_read w s = (s1, Res_ok 0, d)" "0 < w"
  shows "s_in s = [] \<and> s_in s1 = []"
  using assms by (auto simp: sock_read_def Let_def min_def split: list.splits io_step.splits if_splits)

lemma sock_write_count:
  assumes "sock_write d s = (s1, Res_ok n)"
  shows "n \<le> length d \<and> s_out s1 = s_out s @ take n d \<and> s_in s1 = s_in s"
  using assms by (auto simp: sock_write_def Let_def min_def split: list.splits io_step.splits)

lemma read_progress: "sock_read w s = (s1, Res_ok n, d) \<Longrightarrow> length d = n \<and> length (s_sched s1) \<le> length (s_sched s)"
  by (blast dest: sock_read_data sock_read_sched)

lemma write_progress: "sock_write d s = (s1, Res_ok n) \<Longrightarrow> length (s_sched s1) \<le> length (s_sched s)"
  by (rule sock_write_sched)

termination write_all_loop
  by (relation "measure (\<lambda>(buf, written, s). length buf - written + length (s_sched s))") (auto dest!: sock_write_eintr [OF sym] write_progress [OF sym])

termination read_line_loop
  by (relation "measure (\<lambda>(n, acc, s). n - length acc + length (s_sched s))") (auto dest!: sock_read_eintr [OF sym] read_progress [OF sym] simp: neq_Nil_conv)

termination read_exact_loop
  by (relation "measure (\<lambda>(n, acc, s). n - length acc + length (s_sched s))") (auto dest!: sock_read_eintr [OF sym] read_progress [OF sym] simp: neq_Nil_conv)

termination discard_loop
  by (relation "measure (\<lambda>(n, s). n + length (s_sched s))") (auto dest!: sock_read_eintr [OF sym] read_progress [OF sym] simp: neq_Nil_conv)

declare write_all_loop.simps [simp del] read_line_loop.simps [simp del]
  read_exact_loop.simps [simp del] discard_loop.simps [simp del]

text \<open>The functions of \<^verbatim>\<open>net.c\<close>; a \<^verbatim>\<open>NULL\<close> buffer is not represented.\<close>

definition write_all :: "bytes \<Rightarrow> sock \<Rightarrow> sock \<times> nat option" where
  "write_all buf s = write_all_loop buf 0 s"

definition read_line :: "nat \<Rightarrow> sock \<Rightarrow> sock \<times> string option" where
  "read_line buffer_size s =
     (if buffer_size = 0 then (s, None)
      else case read_line_loop buffer_size [] s of (s1, r) \<Rightarrow> (s1, map_option chars_of r))"

definition read_exact :: "nat \<Rightarrow> sock \<Rightarrow> sock \<times> bytes option" where
  "read_exact sz s = read_exact_loop sz [] s"

definition discard_exact :: "nat \<Rightarrow> sock \<Rightarrow> sock \<times> bool" where
  "discard_exact sz s = discard_loop sz s"

section \<open>The loops do not depend on how the kernel slices the data\<close>

text \<open>A schedule without errors; for writes also without calls that write nothing.\<close>

definition calm :: "sock \<Rightarrow> bool" where
  "calm s \<longleftrightarrow> Io_error \<notin> set (s_sched s)"

definition calm_writes :: "sock \<Rightarrow> bool" where
  "calm_writes s \<longleftrightarrow> Io_error \<notin> set (s_sched s) \<and> Io_some 0 \<notin> set (s_sched s)"

text \<open>One read under a calm schedule: an interrupt, or a slice of the data that is empty only at its end.\<close>

lemma calm_read_cases:
  assumes "calm s" "0 < w"
  obtains (intr) s1 where "sock_read w s = (s1, Res_eintr, [])" "s_in s1 = s_in s" "s_out s1 = s_out s" "calm s1"
  | (eof) s1 where "sock_read w s = (s1, Res_ok 0, [])" "s_in s = []" "s_in s1 = []" "s_out s1 = s_out s" "calm s1"
  | (slice) s1 n d where "sock_read w s = (s1, Res_ok n, d)" "0 < n" "length d = n" "n \<le> w" "s_in s = d @ s_in s1"
    "s_out s1 = s_out s" "calm s1"
proof -
  obtain s1 r d where rd: "sock_read w s = (s1, r, d)" by (cases "sock_read w s") auto
  have calm1: "calm s1" using assms(1) rd
    by (auto simp: calm_def sock_read_def Let_def split: list.splits io_step.splits)
  show thesis
  proof (cases r)
    case Res_eintr
    then show ?thesis using rd calm1 intr
      by (auto simp: sock_read_def Let_def split: list.splits io_step.splits)
  next
    case Res_error
    then show ?thesis using rd assms(1)
      by (auto simp: calm_def sock_read_def Let_def split: list.splits io_step.splits)
  next
    case (Res_ok n)
    note d = sock_read_data [OF rd [unfolded Res_ok]]
    show ?thesis
    proof (cases "n = 0")
      case True
      then show ?thesis using sock_read_eof [of w s s1 d] rd Res_ok assms(2) d calm1 eof by auto
    next
      case False
      then show ?thesis using slice [of s1 n d] rd Res_ok d calm1 by auto
    qed
  qed
qed

lemma read_exact_loop_calm:
  "calm s \<Longrightarrow> length acc \<le> sz \<Longrightarrow>
     \<exists>s1. read_exact_loop sz acc s = (s1, Some (acc @ take (sz - length acc) (s_in s))) \<and>
       s_in s1 = drop (sz - length acc) (s_in s) \<and> s_out s1 = s_out s \<and> calm s1"
proof (induction sz acc s rule: read_exact_loop.induct)
  case (1 sz acc s)
  show ?case
  proof (cases "length acc < sz")
    case False
    then show ?thesis using "1.prems" by (simp add: read_exact_loop.simps)
  next
    case True
    then have w: "0 < sz - length acc" by simp
    note unfold = read_exact_loop.simps [of sz acc s]
    from \<open>calm s\<close> w show ?thesis
    proof (cases rule: calm_read_cases)
      case (intr s1)
      from "1.IH"(1) [OF True intr(1) [symmetric] refl refl intr(4) "1.prems"(2)] show ?thesis
        using True intr by (simp add: unfold)
    next
      case (eof s1)
      then show ?thesis using True by (simp add: unfold)
    next
      case (slice s1 n d)
      have "length (acc @ d) \<le> sz" using True slice(3,4) by simp
      from "1.IH"(2) [OF True slice(1) [symmetric] refl refl _ slice(7) this] show ?thesis
        using True slice by (simp add: unfold)
    qed
  qed
qed

lemma discard_loop_calm:
  "calm s \<Longrightarrow> \<exists>s1. discard_loop n s = (s1, n \<le> length (s_in s)) \<and> s_in s1 = drop n (s_in s)
     \<and> s_out s1 = s_out s \<and> calm s1"
proof (induction n s rule: discard_loop.induct)
  case (1 n s)
  show ?case
  proof (cases "n > 0")
    case False
    then show ?thesis using "1.prems" by (simp add: discard_loop.simps)
  next
    case True
    let ?w = "if n < CHUNK_SIZE then n else CHUNK_SIZE"
    have w: "0 < ?w" "?w \<le> n" using True by (auto simp: CHUNK_SIZE_def)
    note unfold = discard_loop.simps [of n s]
    from \<open>calm s\<close> w(1) show ?thesis
    proof (cases rule: calm_read_cases)
      case (intr s1)
      from "1.IH"(1) [OF True refl intr(1) [symmetric] refl refl intr(4)] show ?thesis
        using True intr by (simp add: unfold)
    next
      case (eof s1)
      then show ?thesis using True by (simp add: unfold)
    next
      case (slice s1 k d)
      from "1.IH"(2) [OF True refl slice(1) [symmetric] refl refl _ slice(7)] slice(2)
      obtain s2 where "discard_loop (n - k) s1 = (s2, n - k \<le> length (s_in s1))" "s_in s2 = drop (n - k) (s_in s1)"
        "s_out s2 = s_out s1" "calm s2" by auto
      then show ?thesis using True slice w(2) by (auto simp: unfold)
    qed
  qed
qed

text \<open>The specification of a line: at most \<open>n\<close> bytes, up to and including the first newline.\<close>

fun take_line :: "nat \<Rightarrow> bytes \<Rightarrow> bytes" where
  "take_line 0 d = []"
| "take_line (Suc n) [] = []"
| "take_line (Suc n) (b # bs) = (if b = 10 then [b] else b # take_line n bs)"

lemma read_line_loop_calm:
  "calm s \<Longrightarrow>
     \<exists>s1. read_line_loop n acc s = (s1, Some (acc @ take_line (n - 1 - length acc) (s_in s))) \<and>
       s_in s = take_line (n - 1 - length acc) (s_in s) @ s_in s1 \<and> s_out s1 = s_out s \<and> calm s1"
proof (induction n acc s rule: read_line_loop.induct)
  case (1 n acc s)
  note unfold = read_line_loop.simps [of n acc s]
  show ?case
  proof (cases "length acc + 1 < n")
    case False
    then have "n - 1 - length acc = 0" by simp
    then show ?thesis using "1.prems" False by (simp add: unfold)
  next
    case True
    then obtain k where k: "n - 1 - length acc = Suc k" by (cases "n - 1 - length acc") auto
    have one: "(0 :: nat) < 1" by simp
    from \<open>calm s\<close> one show ?thesis
    proof (cases rule: calm_read_cases)
      case (intr s1)
      from "1.IH"(1) [OF True intr(1) [symmetric] refl refl intr(4)] show ?thesis
        using True intr by (simp add: unfold)
    next
      case (eof s1)
      then show ?thesis using True k by (simp add: unfold)
    next
      case (slice s1 m d)
      then obtain b where d: "d = [b]" "m = 1" by (cases d) auto
      show ?thesis
      proof (cases "b = 10")
        case True
        then show ?thesis using slice d k \<open>length acc + 1 < n\<close> by (simp add: unfold)
      next
        case False
        then have nl: "d \<noteq> [of_nat (of_char NL)]" using d by simp
        from "1.IH"(2) [OF True slice(1) [symmetric] refl refl _ refl nl slice(7)] slice(2)
        obtain s2 where "read_line_loop n (acc @ d) s1 = (s2, Some ((acc @ d) @ take_line (n - 1 - length (acc @ d)) (s_in s1)))"
          "s_in s1 = take_line (n - 1 - length (acc @ d)) (s_in s1) @ s_in s2" "s_out s2 = s_out s1" "calm s2"
          by auto
        moreover have "n - 1 - length (acc @ d) = k" using k d by simp
        ultimately show ?thesis using True slice d False k nl by (simp add: unfold)
      qed
    qed
  qed
qed

lemma write_all_loop_calm:
  "calm_writes s \<Longrightarrow> w \<le> length buf \<Longrightarrow>
     \<exists>s1. write_all_loop buf w s = (s1, Some (length buf)) \<and> s_out s1 = s_out s @ drop w buf \<and>
       s_in s1 = s_in s \<and> calm_writes s1"
proof (induction buf w s rule: write_all_loop.induct)
  case (1 buf w s)
  note unfold = write_all_loop.simps [of buf w s]
  show ?case
  proof (cases "w < length buf")
    case False
    then show ?thesis using "1.prems" by (simp add: write_all_loop.simps)
  next
    case True
    obtain s1 r where wr: "sock_write (drop w buf) s = (s1, r)" by (cases "sock_write (drop w buf) s")
    have c1: "calm_writes s1" and r: "r \<noteq> Res_error" "r \<noteq> Res_ok 0" "r = Res_eintr \<longrightarrow> s_out s1 = s_out s \<and> s_in s1 = s_in s"
      using wr \<open>calm_writes s\<close> True
      by (auto simp: calm_writes_def sock_write_def Let_def split: list.splits io_step.splits)
    show ?thesis
    proof (cases r)
      case Res_eintr
      from "1.IH"(1) [OF True wr [symmetric] Res_eintr c1 "1.prems"(2)] show ?thesis
        using True wr Res_eintr r(3) by (simp add: unfold)
    next
      case Res_error
      then show ?thesis using r(1) by simp
    next
      case (Res_ok n)
      then have n: "n \<noteq> 0" "n \<le> length buf - w" "s_out s1 = s_out s @ take n (drop w buf)" "s_in s1 = s_in s"
        using r(2) sock_write_count [of "drop w buf" s s1 n] wr by auto
      have "take n (drop w buf) @ drop (w + n) buf = drop w buf"
        by (simp add: add.commute flip: drop_drop)
      moreover have "w + n \<le> length buf" using n(2) True by simp
      ultimately show ?thesis
        using "1.IH"(2) [OF True wr [symmetric] Res_ok n(1) c1] True wr Res_ok n by (auto simp: unfold)
    qed
  qed
qed

section \<open>Properties of the transfer loops\<close>

text \<open>
  C23: \<^verbatim>\<open>read_exact\<close> reassembles the stream: whatever interrupts and partial reads the kernel produces,
  it returns the next \<^verbatim>\<open>size\<close> bytes (fewer only at the end of the data) and consumes exactly those.
\<close>

theorem read_exact_any_schedule:
  assumes "calm s"
  shows "\<exists>s1. read_exact n s = (s1, Some (take n (s_in s))) \<and> s_in s1 = drop n (s_in s)"
  using read_exact_loop_calm [OF assms, of "[]" n] by (auto simp: read_exact_def)

theorem read_exact_any_schedule_witness:
  "\<exists>s1. read_exact 3 \<lparr>s_in = [1, 2, 3, 4], s_out = [], s_sched = [Io_some 0, Io_eintr, Io_some 0]\<rparr>
      = (s1, Some (take 3 [1, 2, 3, 4])) \<and> s_in s1 = drop 3 [1, 2, 3, 4]"
proof -
  have "calm \<lparr>s_in = [1, 2, 3, 4], s_out = [], s_sched = [Io_some 0, Io_eintr, Io_some 0]\<rparr>" by (simp add: calm_def)
  from read_exact_any_schedule [OF this, of 3] show ?thesis by simp
qed

text \<open>
  C33: \<^verbatim>\<open>read_line\<close> returns the next line with its newline, cut to the buffer, and consumes exactly the
  bytes it returns, so that the binary data behind a command line is left for the next read.
\<close>

theorem read_line_any_schedule:
  assumes "calm s" "0 < n"
  shows "\<exists>s1. read_line n s = (s1, Some (chars_of (take_line (n - 1) (s_in s)))) \<and>
    s_in s = take_line (n - 1) (s_in s) @ s_in s1"
  using read_line_loop_calm [OF assms(1), of n "[]"] assms(2) by (auto simp: read_line_def)

theorem read_line_any_schedule_witness:
  "\<exists>s1. read_line 4096 \<lparr>s_in = [65, 10, 66], s_out = [], s_sched = [Io_eintr]\<rparr> =
      (s1, Some (chars_of (take_line (4096 - 1) [65, 10, 66])))"
proof -
  have "calm \<lparr>s_in = [65, 10, 66], s_out = [], s_sched = [Io_eintr]\<rparr>" by (simp add: calm_def)
  from read_line_any_schedule [OF this, of 4096] show ?thesis by auto
qed

text \<open>
  C24: \<^verbatim>\<open>discard_exact\<close> resynchronises the connection: under every schedule without errors it succeeds
  exactly when the peer sent the announced number of bytes, and it has then consumed exactly those.
\<close>

theorem discard_exact_any_schedule:
  assumes "calm s"
  shows "\<exists>s1. discard_exact n s = (s1, n \<le> length (s_in s)) \<and> s_in s1 = drop n (s_in s)"
  using discard_loop_calm [OF assms, of n] by (auto simp: discard_exact_def)

theorem discard_exact_any_schedule_witness:
  "\<exists>s1. discard_exact 2 \<lparr>s_in = [1, 2, 3], s_out = [], s_sched = [Io_some 0]\<rparr> = (s1, True) \<and> s_in s1 = [3]"
proof -
  have "calm \<lparr>s_in = [1, 2, 3], s_out = [], s_sched = [Io_some 0]\<rparr>" by (simp add: calm_def)
  from discard_exact_any_schedule [OF this, of 2] show ?thesis by (auto simp: numeral_2_eq_2)
qed

text \<open>
  C34: \<^verbatim>\<open>write_all\<close> delivers the whole buffer once and in order, whatever interrupts and partial writes
  occur, and returns its size.
\<close>

theorem write_all_any_schedule:
  assumes "calm_writes s"
  shows "\<exists>s1. write_all buf s = (s1, Some (length buf)) \<and> s_out s1 = s_out s @ buf"
  using write_all_loop_calm [OF assms, of 0 buf] by (auto simp: write_all_def)

theorem write_all_any_schedule_witness:
  "\<exists>s1. write_all [1, 2, 3] \<lparr>s_in = [], s_out = [9], s_sched = [Io_some 1, Io_eintr]\<rparr>
      = (s1, Some (length [1, 2, 3 :: u8])) \<and> s_out s1 = [9] @ [1, 2, 3]"
proof -
  have "calm_writes \<lparr>s_in = [], s_out = [9], s_sched = [Io_some 1, Io_eintr]\<rparr>" by (simp add: calm_writes_def)
  from write_all_any_schedule [OF this, of "[1, 2, 3]"] show ?thesis by simp
qed

end
