(* ===== verification/Doubles.thy ===== *)
theory Doubles
  imports Complex_Main "HOL-Library.Log_Nat"
begin

text \<open>
  The C type \<^verbatim>\<open>double\<close> on the values the server computes with: durations in milliseconds. A number is
  the rational it stands for, and every conversion and operation is the exact one followed by \<open>dbl\<close>,
  rounding to 53 significant bits, ties to even. Overflow, subnormal numbers and signed zeros do not
  arise for these values and are not represented. The lemmas bound the error of one rounding and of a
  sum computed term by term.
\<close>

section \<open>Rounding\<close>

definition round_even :: "rat \<Rightarrow> int" where
  "round_even x =
     (let f = \<lfloor>x\<rfloor>; r = x - of_int f in if r > 1 / 2 \<or> (r = 1 / 2 \<and> odd f) then f + 1 else f)"

text \<open>The exponent of a positive number: the \<open>e\<close> with \<open>2 ^ e \<le> x < 2 ^ (e + 1)\<close>.\<close>

definition binexp :: "rat \<Rightarrow> int" where
  "binexp x = (if 1 \<le> x then int (floorlog 2 (nat \<lfloor>x\<rfloor>)) - 1 else - int (floorlog 2 (nat (\<lceil>1 / x\<rceil> - 1))))"

definition dbl :: "rat \<Rightarrow> rat" where
  "dbl x = (if x = 0 then 0 else let u = 2 powi (binexp \<bar>x\<bar> - 52) in of_int (round_even (x / u)) * u)"

section \<open>The error of one rounding\<close>

lemma round_even_error: "\<bar>of_int (round_even x) - x\<bar> \<le> 1 / 2"
proof -
  have "of_int \<lfloor>x\<rfloor> \<le> x" "x < of_int \<lfloor>x\<rfloor> + 1" by linarith+
  then show ?thesis by (auto simp: round_even_def Let_def abs_le_iff)
qed

lemma round_even_int [simp]: "round_even (of_int n) = n"
  by (simp add: round_even_def)

lemma binexp_low:
  assumes "0 < x"
  shows "2 powi binexp x \<le> x"
proof (cases "1 \<le> x")
  case True
  let ?n = "nat \<lfloor>x\<rfloor>"
  have n: "0 < ?n" using True by simp
  then obtain m where m: "floorlog 2 ?n = Suc m" by (cases "floorlog 2 ?n") (auto simp: floorlog_eq_zero_iff)
  have "2 ^ m \<le> ?n" using floorlog_bounds [of ?n 2] n m by simp
  then have "(2 :: rat) ^ m \<le> of_nat ?n" by (metis of_nat_le_iff of_nat_numeral of_nat_power)
  also have "of_nat ?n \<le> x" using True by simp
  finally show ?thesis using True m by (simp add: binexp_def)
next
  case False
  let ?k = "nat (\<lceil>1 / x\<rceil> - 1)"
  have y: "1 < 1 / x" using False assms by simp
  then have k: "0 < ?k" "1 / x \<le> of_nat ?k + 1" by linarith+
  have "n + 1 \<le> 2 ^ floorlog 2 n" if "0 < n" for n using floorlog_bounds [of n 2] that by simp
  from this [OF k(1)] have "?k + 1 \<le> 2 ^ floorlog 2 ?k" .
  then have "(of_nat (?k + 1) :: rat) \<le> 2 ^ floorlog 2 ?k" by (metis of_nat_le_iff of_nat_numeral of_nat_power)
  then have "1 / x \<le> 2 ^ floorlog 2 ?k" using k(2) by linarith
  then have "1 / 2 ^ floorlog 2 ?k \<le> x" using assms by (simp add: divide_simps mult.commute)
  then show ?thesis using False by (simp add: binexp_def power_int_minus divide_inverse)
qed

definition unit_roundoff :: rat where
  "unit_roundoff = 1 / 2 ^ 53"

lemma dbl_error: "\<bar>dbl x - x\<bar> \<le> \<bar>x\<bar> * unit_roundoff"
proof (cases "x = 0")
  case False
  let ?e = "binexp \<bar>x\<bar>" and ?u = "2 powi (binexp \<bar>x\<bar> - 52) :: rat"
  have u: "0 < ?u" by simp
  have "\<bar>dbl x - x\<bar> = \<bar>of_int (round_even (x / ?u)) - x / ?u\<bar> * ?u"
    using False u by (simp add: dbl_def Let_def abs_mult_pos left_diff_distrib)
  also have "\<dots> \<le> 1 / 2 * ?u" using u by (intro mult_right_mono round_even_error) simp
  also have "1 / 2 * ?u = 2 powi ?e * unit_roundoff"
    by (simp add: power_int_diff unit_roundoff_def)
  also have "\<dots> \<le> \<bar>x\<bar> * unit_roundoff"
    using binexp_low [of "\<bar>x\<bar>"] False by (intro mult_right_mono) (simp_all add: unit_roundoff_def)
  finally show ?thesis .
qed (simp add: dbl_def)

lemma dbl_nonneg: "0 \<le> dbl x \<longleftrightarrow> 0 \<le> x"
proof -
  have "0 \<le> y \<longleftrightarrow> 0 \<le> x" if "\<bar>y - x\<bar> \<le> \<bar>x\<bar> * unit_roundoff" "x \<noteq> 0" for y
  proof -
    have "\<bar>x\<bar> * unit_roundoff < \<bar>x\<bar>" using that(2) by (simp add: unit_roundoff_def)
    with that(1) have "\<bar>y - x\<bar> < \<bar>x\<bar>" by (rule order_le_less_trans)
    then show ?thesis by linarith
  qed
  then show ?thesis using dbl_error [of x] by (cases "x = 0") (simp add: dbl_def, blast)
qed

text \<open>Integers of up to 53 bits are represented exactly.\<close>

lemma dbl_int:
  assumes "\<bar>n\<bar> < 2 ^ 53"
  shows "dbl (of_int n) = of_int n"
proof (cases "n = 0")
  case False
  let ?x = "of_int n :: rat" and ?e = "binexp \<bar>of_int n\<bar>"
  have x: "1 \<le> \<bar>?x\<bar>" using False by (metis int_one_le_iff_zero_less of_int_1_le_iff of_int_abs zero_less_abs_iff)
  have "(2 :: rat) powi ?e \<le> \<bar>?x\<bar>" using x by (intro binexp_low) simp
  also have "\<bar>?x\<bar> < 2 ^ 53" using assms by (metis of_int_abs of_int_less_iff of_int_numeral of_int_power)
  finally have "(2 :: rat) powi ?e < 2 powi 53" by simp
  then have "?e \<le> 52" using power_int_increasing [of 53 ?e "2 :: rat"] by linarith
  then obtain k where k: "?e - 52 = - int k" by (metis diff_le_0_iff_le nonneg_int_cases neg_0_le_iff_le minus_minus)
  have "?x / 2 powi (?e - 52) = of_int (n * 2 ^ k)" by (simp add: k power_int_minus divide_inverse)
  then have "dbl ?x = of_int (n * 2 ^ k) * 2 powi (?e - 52)" using False unfolding dbl_def by (simp only: round_even_int Let_def) simp
  then show ?thesis by (simp add: k power_int_minus)
qed (simp add: dbl_def)

section \<open>The error of a sum\<close>

text \<open>Terms \<open>f x\<close> that stand for the exact \<open>g x\<close>, added one after the other.\<close>

lemma dbl_sum_error:
  assumes "\<And>x. x \<in> set xs \<Longrightarrow> 0 \<le> g x \<and> \<bar>f x - g x\<bar> \<le> (g x + c) * unit_roundoff"
    and "0 \<le> c" "length xs \<le> 2 ^ 20"
  shows "\<bar>foldl (\<lambda>t x. dbl (t + f x)) 0 xs - sum_list (map g xs)\<bar>
      \<le> 3 * of_nat (length xs) * unit_roundoff * (sum_list (map g xs) + of_nat (length xs) * c)"
  using assms(1,3)
proof (induction xs rule: rev_induct)
  case (snoc x xs)
  let ?u = unit_roundoff and ?n = "of_nat (length xs) :: rat"
  let ?T = "foldl (\<lambda>t x. dbl (t + f x)) 0 xs" and ?S = "sum_list (map g xs)"
  let ?S' = "?S + g x" and ?A = "?S + ?n * c"
  let ?A' = "?S' + (?n + 1) * c" and ?T' = "dbl (?T + f x)"
  have u: "0 < ?u" by (simp add: unit_roundoff_def)
  have n: "0 \<le> ?n" "(3 * ?n + 1) * ?u \<le> 1"
  proof -
    have "length xs \<le> 2 ^ 20" using snoc.prems(2) by simp
    then have "?n \<le> 2 ^ 20" by (metis of_nat_le_iff of_nat_numeral of_nat_power)
    then show "(3 * ?n + 1) * ?u \<le> 1" by (simp add: unit_roundoff_def)
  qed simp
  have g: "0 \<le> g x" "\<bar>f x - g x\<bar> \<le> (g x + c) * ?u" using snoc.prems(1) by auto
  have S: "0 \<le> ?S" using snoc.prems(1) by (intro sum_list_nonneg) auto
  have A: "0 \<le> ?A" "?A \<le> ?A'" "g x + c \<le> ?A'" "?S' \<le> ?A'"
    using S g(1) assms(2) n(1) by (simp_all add: distrib_right)
  have IH: "\<bar>?T - ?S\<bar> \<le> 3 * ?n * ?u * ?A" using snoc by simp
  also have "\<dots> \<le> 3 * ?n * ?u * ?A'" using A n u by (intro mult_left_mono) auto
  finally have T: "\<bar>?T - ?S\<bar> \<le> 3 * ?n * ?u * ?A'" .
  have f: "\<bar>f x - g x\<bar> \<le> ?A' * ?u" using g(2) A(3) u by (meson mult_right_mono less_imp_le order_trans)
  have sum: "\<bar>(?T + f x) - ?S'\<bar> \<le> (3 * ?n + 1) * ?u * ?A'" using T f by (simp add: algebra_simps)
  also have "\<dots> \<le> 1 * ?A'" using n(2) A by (intro mult_right_mono) auto
  finally have near: "\<bar>(?T + f x) - ?S'\<bar> \<le> ?A'" by simp
  have "\<bar>t\<bar> \<le> a + a" if "\<bar>t - s\<bar> \<le> a" "0 \<le> s" "s \<le> a" for t s a :: rat using that by linarith
  from this [OF near _ A(4)] have "\<bar>?T + f x\<bar> \<le> ?A' + ?A'" using S g(1) by simp
  then have rnd: "\<bar>?T' - (?T + f x)\<bar> \<le> (?A' + ?A') * ?u" using dbl_error [of "?T + f x"] u by (meson mult_right_mono less_imp_le order_trans)
  have "\<bar>a - c\<bar> \<le> d + e" if "\<bar>b - c\<bar> \<le> d" "\<bar>a - b\<bar> \<le> e" for a b c d e :: rat using that by linarith
  from this [OF sum rnd]
  have "\<bar>?T' - ?S'\<bar> \<le> (3 * ?n + 1) * ?u * ?A' + (?A' + ?A') * ?u" .
  then show ?case by (simp add: algebra_simps)
qed simp

end
