(* ===== verification/Job_Table.thy ===== *)
theory Job_Table
  imports Doubles Clib
begin

text \<open>
  \<^verbatim>\<open>src/server/job.c\<close> with \<^verbatim>\<open>include/job.h\<close>: jobs, their states and the table that owns them. A job
  is a record, a job pointer its index in the table (jobs are never removed before the table is
  destroyed). Each operation runs under the mutex of its job or of the table, so it is one atomic
  function. The clock is an argument. The \<^verbatim>\<open>NULL\<close> guards on job and table pointers have no
  counterpart: an index or a record is always there. Durations are \<^verbatim>\<open>double\<close>s, with every operation
  rounded as in \<^theory_text>\<open>Doubles\<close>.
\<close>

section \<open>Data\<close>

datatype job_type =
    JOB_TYPE_UNKNOWN | JOB_TYPE_TEXT | JOB_TYPE_VALIDATE_IMAGE | JOB_TYPE_ANALYZE_CAPACITY
  | JOB_TYPE_ENCODE_TEXT | JOB_TYPE_ENCODE_FILE | JOB_TYPE_DECODE

datatype job_state =
    JOB_STATE_QUEUED | JOB_STATE_RUNNING | JOB_STATE_DONE | JOB_STATE_FAILED | JOB_STATE_CANCELED

datatype job_result_kind = JOB_RESULT_NONE | JOB_RESULT_TEXT | JOB_RESULT_FILE | JOB_RESULT_PNG

record timespec =
  tv_sec :: int
  tv_nsec :: int

record job =
  j_id :: u64
  j_owner_fd :: int
  j_type :: job_type
  j_state :: job_state
  j_cancel_requested :: bool
  j_payload :: string
  j_input_path :: string
  j_stored_path :: string
  j_output_path :: string
  j_result_filename :: string
  j_result_kind :: job_result_kind
  j_result_size :: u64
  j_result :: string
  j_owner_ip :: string
  j_created_at :: timespec
  j_started_at :: timespec
  j_finished_at :: timespec

record job_table =
  tbl_jobs :: "job list"
  tbl_next_id :: u64

definition MAX_JOBS :: nat where "MAX_JOBS = 1024"
definition MAX_JOB_PAYLOAD :: nat where "MAX_JOB_PAYLOAD = 1024"
definition MAX_JOB_RESULT :: nat where "MAX_JOB_RESULT = 2048"
definition MAX_JOB_PATH :: nat where "MAX_JOB_PATH = 512"
definition MAX_JOB_FILENAME :: nat where "MAX_JOB_FILENAME = 256"

lemmas job_sizes = MAX_JOBS_def MAX_JOB_PAYLOAD_def MAX_JOB_RESULT_def MAX_JOB_PATH_def MAX_JOB_FILENAME_def

section \<open>Operations\<close>

definition timespec_diff_ms :: "timespec \<Rightarrow> timespec \<Rightarrow> rat" where
  "timespec_diff_ms start stop =
     (let s = dbl (dbl (of_int (tv_sec stop - tv_sec start)) * 1000);
          ns = dbl (dbl (of_int (tv_nsec stop - tv_nsec start)) / 1000000)
      in dbl (s + ns))"

text \<open>\<^verbatim>\<open>None\<close> when the mutex cannot be initialised (the function returns \<^verbatim>\<open>-1\<close>).\<close>

definition job_table_init :: "bool \<Rightarrow> job_table option" where
  "job_table_init mutex_ok = (if mutex_ok then Some \<lparr>tbl_jobs = [], tbl_next_id = 1\<rparr> else None)"

definition job_table_destroy :: "job_table \<Rightarrow> job_table" where
  "job_table_destroy t = t\<lparr>tbl_jobs := []\<rparr>"

text \<open>A \<^verbatim>\<open>calloc\<close>ed job: all bytes zero.\<close>

definition zero_time :: timespec where
  "zero_time = \<lparr>tv_sec = 0, tv_nsec = 0\<rparr>"

definition zero_job :: job where
  "zero_job = \<lparr>j_id = 0, j_owner_fd = 0, j_type = JOB_TYPE_UNKNOWN, j_state = JOB_STATE_QUEUED,
     j_cancel_requested = False, j_payload = [], j_input_path = [], j_stored_path = [], j_output_path = [],
     j_result_filename = [], j_result_kind = JOB_RESULT_NONE, j_result_size = 0, j_result = [],
     j_owner_ip = [], j_created_at = zero_time, j_started_at = zero_time, j_finished_at = zero_time\<rparr>"

definition new_job ::
  "timespec \<Rightarrow> u64 \<Rightarrow> int \<Rightarrow> string option \<Rightarrow> job_type \<Rightarrow> string option \<Rightarrow> string option \<Rightarrow> job" where
  "new_job now job_id owner_fd owner_ip type payload input_path =
     zero_job\<lparr>j_id := job_id,
       j_owner_fd := owner_fd,
       j_type := type,
       j_state := JOB_STATE_QUEUED,
       j_cancel_requested := False,
       j_result_kind := JOB_RESULT_NONE,
       j_result_size := 0,
       j_owner_ip := (case owner_ip of None \<Rightarrow> [] | Some s \<Rightarrow> snprintf_s 64 s),
       j_payload := (case payload of None \<Rightarrow> [] | Some s \<Rightarrow> snprintf_s MAX_JOB_PAYLOAD s),
       j_input_path := (case input_path of None \<Rightarrow> [] | Some s \<Rightarrow> snprintf_s MAX_JOB_PATH s),
       j_created_at := now\<rparr>"

text \<open>The allocator and the mutex may refuse: \<open>calloc_ok\<close> and \<open>mutex_ok\<close>.\<close>

definition job_table_create_job ::
  "bool \<Rightarrow> bool \<Rightarrow> timespec \<Rightarrow> job_table \<Rightarrow> int \<Rightarrow> string option \<Rightarrow> job_type \<Rightarrow> string option \<Rightarrow> string option \<Rightarrow>
     job_table \<times> nat option" where
  "job_table_create_job calloc_ok mutex_ok now t owner_fd owner_ip type payload input_path =
     (if \<not> calloc_ok then (t, None)
      else if \<not> mutex_ok then (t, None)
      else if length (tbl_jobs t) \<ge> MAX_JOBS then (t, None)
      else (t\<lparr>tbl_jobs := tbl_jobs t @ [new_job now (tbl_next_id t) owner_fd owner_ip type payload input_path],
               tbl_next_id := tbl_next_id t + 1\<rparr>,
            Some (length (tbl_jobs t))))"

fun find_job :: "job list \<Rightarrow> u64 \<Rightarrow> nat \<Rightarrow> nat option" where
  "find_job [] job_id i = None"
| "find_job (j # js) job_id i = (if j_id j = job_id then Some i else find_job js job_id (Suc i))"

definition job_table_find :: "job_table \<Rightarrow> u64 \<Rightarrow> nat option" where
  "job_table_find t job_id = (if job_id = 0 then None else find_job (tbl_jobs t) job_id 0)"

definition job_state_to_string :: "job_state \<Rightarrow> string" where
  "job_state_to_string state = (case state of
      JOB_STATE_QUEUED \<Rightarrow> ''QUEUED''
    | JOB_STATE_RUNNING \<Rightarrow> ''RUNNING''
    | JOB_STATE_DONE \<Rightarrow> ''DONE''
    | JOB_STATE_FAILED \<Rightarrow> ''FAILED''
    | JOB_STATE_CANCELED \<Rightarrow> ''CANCELED'')"

definition job_type_to_string :: "job_type \<Rightarrow> string" where
  "job_type_to_string type = (case type of
      JOB_TYPE_TEXT \<Rightarrow> ''TEXT''
    | JOB_TYPE_VALIDATE_IMAGE \<Rightarrow> ''VALIDATE_IMAGE''
    | JOB_TYPE_ANALYZE_CAPACITY \<Rightarrow> ''ANALYZE_CAPACITY''
    | JOB_TYPE_ENCODE_TEXT \<Rightarrow> ''ENCODE_TEXT''
    | JOB_TYPE_ENCODE_FILE \<Rightarrow> ''ENCODE_FILE''
    | JOB_TYPE_DECODE \<Rightarrow> ''DECODE''
    | JOB_TYPE_UNKNOWN \<Rightarrow> ''UNKNOWN'')"

definition job_result_kind_to_string :: "job_result_kind \<Rightarrow> string" where
  "job_result_kind_to_string kind = (case kind of
      JOB_RESULT_TEXT \<Rightarrow> ''TEXT''
    | JOB_RESULT_FILE \<Rightarrow> ''FILE''
    | JOB_RESULT_PNG \<Rightarrow> ''PNG''
    | JOB_RESULT_NONE \<Rightarrow> ''NONE'')"

definition cancellable :: "job_state \<Rightarrow> bool" where
  "cancellable s \<longleftrightarrow> s = JOB_STATE_QUEUED \<or> s = JOB_STATE_RUNNING"

definition finished :: "job_state \<Rightarrow> bool" where
  "finished s \<longleftrightarrow> s = JOB_STATE_DONE \<or> s = JOB_STATE_FAILED \<or> s = JOB_STATE_CANCELED"

definition job_request_cancel :: "job \<Rightarrow> job \<times> bool" where
  "job_request_cancel j =
     (if cancellable (j_state j) then (j\<lparr>j_cancel_requested := True\<rparr>, True) else (j, False))"

definition job_set_state :: "timespec \<Rightarrow> job_state \<Rightarrow> job \<Rightarrow> job" where
  "job_set_state now state j =
     (let j1 = j\<lparr>j_state := state\<rparr>;
          j2 = (if state = JOB_STATE_RUNNING then j1\<lparr>j_started_at := now\<rparr> else j1)
      in if finished state then j2\<lparr>j_finished_at := now\<rparr> else j2)"

definition job_set_result :: "string \<Rightarrow> job \<Rightarrow> job" where
  "job_set_result result j = j\<lparr>j_result := snprintf_s MAX_JOB_RESULT result\<rparr>"

definition job_set_stored_path :: "string \<Rightarrow> job \<Rightarrow> job" where
  "job_set_stored_path p j = j\<lparr>j_stored_path := snprintf_s MAX_JOB_PATH p\<rparr>"

definition job_set_output_path :: "string \<Rightarrow> job \<Rightarrow> job" where
  "job_set_output_path p j = j\<lparr>j_output_path := snprintf_s MAX_JOB_PATH p\<rparr>"

definition job_set_result_meta :: "job_result_kind \<Rightarrow> u64 \<Rightarrow> string option \<Rightarrow> job \<Rightarrow> job" where
  "job_set_result_meta kind sz filename j =
     j\<lparr>j_result_kind := kind, j_result_size := sz,
       j_result_filename := (case filename of Some f \<Rightarrow> snprintf_s MAX_JOB_FILENAME f | None \<Rightarrow> [])\<rparr>"

text \<open>The getters that copy into a buffer of the caller; a buffer of size 0 is left alone.\<close>

definition copy_out :: "string \<Rightarrow> string \<Rightarrow> nat \<Rightarrow> string" where
  "copy_out field old sz = (if sz = 0 then old else snprintf_s sz field)"

definition job_get_result :: "job \<Rightarrow> string \<Rightarrow> nat \<Rightarrow> string" where
  "job_get_result j = copy_out (j_result j)"

definition job_get_payload :: "job \<Rightarrow> string \<Rightarrow> nat \<Rightarrow> string" where
  "job_get_payload j = copy_out (j_payload j)"

definition job_get_input_path :: "job \<Rightarrow> string \<Rightarrow> nat \<Rightarrow> string" where
  "job_get_input_path j = copy_out (j_input_path j)"

definition job_get_stored_path :: "job \<Rightarrow> string \<Rightarrow> nat \<Rightarrow> string" where
  "job_get_stored_path j = copy_out (j_stored_path j)"

definition job_get_output_path :: "job \<Rightarrow> string \<Rightarrow> nat \<Rightarrow> string" where
  "job_get_output_path j = copy_out (j_output_path j)"

definition job_get_owner_ip :: "job \<Rightarrow> string \<Rightarrow> nat \<Rightarrow> string" where
  "job_get_owner_ip j = copy_out (j_owner_ip j)"

definition job_get_result_meta :: "job \<Rightarrow> string \<Rightarrow> nat \<Rightarrow> job_result_kind \<times> u64 \<times> string" where
  "job_get_result_meta j old sz = (j_result_kind j, j_result_size j, copy_out (j_result_filename j) old sz)"

section \<open>Operations over the whole table\<close>

record job_stats =
  st_total :: nat
  st_queued :: nat
  st_running :: nat
  st_done :: nat
  st_failed :: nat
  st_canceled :: nat
  st_avg_duration_ms :: rat

definition stats_count :: "job_state \<Rightarrow> job_stats \<Rightarrow> job_stats" where
  "stats_count state st = (case state of
      JOB_STATE_QUEUED \<Rightarrow> st\<lparr>st_queued := st_queued st + 1\<rparr>
    | JOB_STATE_RUNNING \<Rightarrow> st\<lparr>st_running := st_running st + 1\<rparr>
    | JOB_STATE_DONE \<Rightarrow> st\<lparr>st_done := st_done st + 1\<rparr>
    | JOB_STATE_FAILED \<Rightarrow> st\<lparr>st_failed := st_failed st + 1\<rparr>
    | JOB_STATE_CANCELED \<Rightarrow> st\<lparr>st_canceled := st_canceled st + 1\<rparr>)"

text \<open>The loop of \<^verbatim>\<open>job_table_collect_stats\<close>: counters, summed duration, number of durations.\<close>

fun stats_loop :: "job list \<Rightarrow> job_stats \<Rightarrow> rat \<Rightarrow> nat \<Rightarrow> job_stats \<times> rat \<times> nat" where
  "stats_loop [] st total_duration finished_count = (st, total_duration, finished_count)"
| "stats_loop (j # js) st total_duration finished_count =
     (let st1 = stats_count (j_state j) st;
          d = timespec_diff_ms (j_started_at j) (j_finished_at j)
      in if (j_state j = JOB_STATE_DONE \<or> j_state j = JOB_STATE_FAILED) \<and> d \<ge> 0
         then stats_loop js st1 (dbl (total_duration + d)) (finished_count + 1)
         else stats_loop js st1 total_duration finished_count)"

definition job_table_collect_stats :: "job_table \<Rightarrow> job_stats" where
  "job_table_collect_stats t =
     (case stats_loop (tbl_jobs t) \<lparr>st_total = length (tbl_jobs t), st_queued = 0, st_running = 0, st_done = 0,
             st_failed = 0, st_canceled = 0, st_avg_duration_ms = 0\<rparr> 0 0 of
        (st, total_duration, finished_count) \<Rightarrow>
          st\<lparr>st_avg_duration_ms := (if finished_count > 0 then dbl (total_duration / dbl (of_nat finished_count)) else 0)\<rparr>)"

definition list_item :: "job \<Rightarrow> string" where
  "list_item j = snd (snprintf_fmt 256
     (''id='' @ udec (unat (j_id j)) @ '',type='' @ job_type_to_string (j_type j)
       @ '',state='' @ job_state_to_string (j_state j) @ '',ip='' @ j_owner_ip j))"

text \<open>
  The bounded writer of both formatters: \<open>Some\<close> the new buffer contents, \<open>None\<close> when the item with
  its separator and the terminator does not fit.
\<close>

definition append_item :: "nat \<Rightarrow> string \<Rightarrow> string \<Rightarrow> string option" where
  "append_item buffer_size buffer item =
     (let used = length buffer; extra_sep = (if used = 0 then 0 else 1)
      in if used + extra_sep + length item + 1 \<ge> buffer_size then None
         else let buffer1 = (if used \<noteq> 0 then buffer @ '';'' else buffer)
              in Some (buffer1 @ snd (snprintf_fmt (buffer_size - length buffer1) item)))"

fun format_list_loop :: "nat \<Rightarrow> job list \<Rightarrow> string \<Rightarrow> string" where
  "format_list_loop n [] buffer = buffer"
| "format_list_loop n (j # js) buffer =
     (case append_item n buffer (list_item j) of
        None \<Rightarrow> buffer
      | Some buffer' \<Rightarrow> format_list_loop n js buffer')"

text \<open>\<open>None\<close> is the return value \<^verbatim>\<open>-1\<close> for an empty buffer.\<close>

definition job_table_format_list :: "job_table \<Rightarrow> nat \<Rightarrow> string option" where
  "job_table_format_list t buffer_size =
     (if buffer_size = 0 then None
      else if tbl_jobs t = [] then Some (snprintf_s buffer_size ''empty'')
      else Some (format_list_loop buffer_size (tbl_jobs t) []))"

text \<open>\<^verbatim>\<open>%.kf\<close>: \<open>k\<close> decimals, ties to even.\<close>

fun zero_pad :: "nat \<Rightarrow> nat \<Rightarrow> string" where
  "zero_pad 0 n = []"
| "zero_pad (Suc k) n = zero_pad k (n div 10) @ [digit_char (n mod 10)]"

definition fmt_fixed :: "nat \<Rightarrow> rat \<Rightarrow> string" where
  "fmt_fixed k x =
     (let n = nat (round_even (\<bar>x\<bar> * 10 ^ k)) in (if x < 0 then ''-'' else []) @ udec (n div 10 ^ k) @ ''.'' @ zero_pad k (n mod 10 ^ k))"

definition history_item :: "job \<Rightarrow> string" where
  "history_item j = snd (snprintf_fmt 320
     (''id='' @ udec (unat (j_id j)) @ '',type='' @ job_type_to_string (j_type j)
       @ '',state='' @ job_state_to_string (j_state j)
       @ '',dur_ms='' @ fmt_fixed 1 (timespec_diff_ms (j_started_at j) (j_finished_at j))
       @ '',ip='' @ j_owner_ip j))"

text \<open>The loop runs from the newest job to the oldest; the list argument is in that order.\<close>

fun format_history_loop :: "nat \<Rightarrow> nat \<Rightarrow> job list \<Rightarrow> nat \<Rightarrow> string \<Rightarrow> string \<times> nat" where
  "format_history_loop n max_items [] emitted buffer = (buffer, emitted)"
| "format_history_loop n max_items (j # js) emitted buffer =
     (if emitted \<ge> max_items then (buffer, emitted)
      else if finished (j_state j) then
        (case append_item n buffer (history_item j) of
           None \<Rightarrow> format_history_loop n max_items js emitted buffer
         | Some buffer' \<Rightarrow> format_history_loop n max_items js (emitted + 1) buffer')
      else format_history_loop n max_items js emitted buffer)"

definition job_table_format_history :: "job_table \<Rightarrow> nat \<Rightarrow> nat \<Rightarrow> string option" where
  "job_table_format_history t buffer_size max_items =
     (if buffer_size = 0 then None
      else case format_history_loop buffer_size max_items (rev (tbl_jobs t)) 0 [] of
        (buffer, emitted) \<Rightarrow> Some (if emitted = 0 then snprintf_s buffer_size ''empty'' else buffer))"

fun cancel_owner_loop :: "int \<Rightarrow> job list \<Rightarrow> job list \<times> nat" where
  "cancel_owner_loop owner_fd [] = ([], 0)"
| "cancel_owner_loop owner_fd (j # js) =
     (case cancel_owner_loop owner_fd js of (js', count) \<Rightarrow>
        if j_owner_fd j = owner_fd \<and> cancellable (j_state j)
        then (j\<lparr>j_cancel_requested := True\<rparr> # js', Suc count)
        else (j # js', count))"

definition job_table_cancel_by_owner :: "job_table \<Rightarrow> int \<Rightarrow> job_table \<times> nat" where
  "job_table_cancel_by_owner t owner_fd =
     (case cancel_owner_loop owner_fd (tbl_jobs t) of (js, count) \<Rightarrow> (t\<lparr>tbl_jobs := js\<rparr>, count))"

text \<open>A mutation through a job pointer.\<close>

definition upd_job :: "job_table \<Rightarrow> nat \<Rightarrow> (job \<Rightarrow> job) \<Rightarrow> job_table" where
  "upd_job t i f = t\<lparr>tbl_jobs := (tbl_jobs t)[i := f (tbl_jobs t ! i)]\<rparr>"

section \<open>The table as a keyed store\<close>

text \<open>
  What the server relies on: every live entry is found under its key, nothing else is found, and an
  insertion adds one entry under a fresh key and keeps the others.
\<close>

locale keyed_store =
  fixes ok :: "'t \<Rightarrow> bool"
    and ins :: "'v \<Rightarrow> 't \<Rightarrow> 't \<times> 'p option"
    and look :: "'t \<Rightarrow> 'k \<Rightarrow> 'p option"
    and live :: "'t \<Rightarrow> 'p \<Rightarrow> bool"
    and key :: "'t \<Rightarrow> 'p \<Rightarrow> 'k"
  assumes look_live: "ok t \<Longrightarrow> live t p \<Longrightarrow> look t (key t p) = Some p"
    and look_sound: "ok t \<Longrightarrow> look t k = Some p \<Longrightarrow> live t p \<and> key t p = k"
    and ins_ok: "ok t \<Longrightarrow> ok (fst (ins v t))"
    and ins_refused: "ins v t = (t', None) \<Longrightarrow> t' = t"
    and ins_live: "ok t \<Longrightarrow> ins v t = (t', Some p) \<Longrightarrow> live t' q \<longleftrightarrow> live t q \<or> q = p"
    and ins_fresh: "ok t \<Longrightarrow> ins v t = (t', Some p) \<Longrightarrow> \<not> live t p"
    and ins_key: "ok t \<Longrightarrow> ins v t = (t', Some p) \<Longrightarrow> live t q \<Longrightarrow> key t' q = key t q"
begin

lemma keys_unique: "ok t \<Longrightarrow> live t p \<Longrightarrow> live t q \<Longrightarrow> key t p = key t q \<Longrightarrow> p = q"
  by (metis look_live option.inject)

lemma look_ins_same: "ok t \<Longrightarrow> ins v t = (t', Some p) \<Longrightarrow> look t' (key t' p) = Some p"
  by (metis look_live ins_ok ins_live fst_conv)

lemma look_ins_other:
  assumes "ok t" "ins v t = (t', Some p)" "k \<noteq> key t' p"
  shows "look t' k = look t k"
proof (cases "look t k")
  case (Some q)
  then have "live t q" "key t q = k" using look_sound [OF assms(1)] by auto
  then have "live t' q" "key t' q = k" using ins_live [OF assms(1,2)] ins_key [OF assms(1,2)] by auto
  then show ?thesis using look_live [of t' q] ins_ok [OF assms(1), of v] assms(2) Some by auto
next
  case None
  have ok': "ok t'" using ins_ok [OF assms(1), of v] assms(2) by simp
  have "look t' k \<noteq> Some q" for q
  proof
    assume q: "look t' k = Some q"
    then have l: "live t' q" "key t' q = k" using look_sound [OF ok'] by auto
    then have "live t q" using ins_live [OF assms(1,2)] assms(3) by auto
    then show False using None look_live [OF assms(1)] ins_key [OF assms(1,2)] l(2) by force
  qed
  then show ?thesis using None by (cases "look t' k") auto
qed

end

section \<open>Well-formed tables\<close>

text \<open>The strings of a job fit the arrays that hold them, terminator included.\<close>

definition job_fits :: "job \<Rightarrow> bool" where
  "job_fits j \<longleftrightarrow> length (j_payload j) < MAX_JOB_PAYLOAD \<and> length (j_input_path j) < MAX_JOB_PATH \<and>
     length (j_stored_path j) < MAX_JOB_PATH \<and> length (j_output_path j) < MAX_JOB_PATH \<and>
     length (j_result_filename j) < MAX_JOB_FILENAME \<and> length (j_result j) < MAX_JOB_RESULT \<and>
     length (j_owner_ip j) < 64"

text \<open>
  Ids are handed out in order and never reused: entry \<open>i\<close> has id \<open>i + 1\<close>, so with at most
  \<open>MAX_JOBS\<close> entries the 64-bit counter does not wrap.
\<close>

definition table_ok :: "job_table \<Rightarrow> bool" where
  "table_ok t \<longleftrightarrow> length (tbl_jobs t) \<le> MAX_JOBS \<and>
     tbl_next_id t = of_nat (Suc (length (tbl_jobs t))) \<and>
     (\<forall>i < length (tbl_jobs t). j_id (tbl_jobs t ! i) = of_nat (Suc i) \<and> job_fits (tbl_jobs t ! i))"

lemma id_inj: "i < 2 ^ 63 \<Longrightarrow> k < 2 ^ 63 \<Longrightarrow> (of_nat (Suc i) :: u64) = of_nat (Suc k) \<longleftrightarrow> i = k"
proof
  assume a: "i < 2 ^ 63" "k < 2 ^ 63" "(of_nat (Suc i) :: u64) = of_nat (Suc k)"
  then have "unat (of_nat (Suc i) :: u64) = Suc i" "unat (of_nat (Suc k) :: u64) = Suc k"
    by (intro unat_of_nat_u64; simp)+
  then have "Suc i = Suc k" unfolding a(3) by (rule trans [OF sym])
  then show "i = k" by simp
qed simp

lemma find_job_Some: "find_job js k n = Some p \<Longrightarrow> n \<le> p \<and> p < n + length js \<and> j_id (js ! (p - n)) = k"
proof (induction js arbitrary: n)
  case (Cons j js)
  show ?case
  proof (cases "j_id j = k")
    case False
    with Cons.prems have "Suc n \<le> p \<and> p < Suc n + length js \<and> j_id (js ! (p - Suc n)) = k"
      by (intro Cons.IH) simp
    moreover from this have "p - n = Suc (p - Suc n)" by arith
    ultimately show ?thesis by simp
  qed (use Cons in simp)
qed simp

lemma find_job_None: "find_job js k n = None \<Longrightarrow> j \<in> set js \<Longrightarrow> j_id j \<noteq> k"
  by (induction js arbitrary: n) (auto split: if_splits)

lemma table_find_sound:
  "job_table_find t k = Some p \<Longrightarrow> p < length (tbl_jobs t) \<and> j_id (tbl_jobs t ! p) = k"
  by (auto simp: job_table_find_def dest: find_job_Some split: if_splits)

lemma table_find_live:
  assumes "table_ok t" "p < length (tbl_jobs t)"
  shows "job_table_find t (j_id (tbl_jobs t ! p)) = Some p"
proof -
  have id: "j_id (tbl_jobs t ! i) = of_nat (Suc i)" if "i < length (tbl_jobs t)" for i
    using assms(1) that by (simp add: table_ok_def)
  have small: "i < 2 ^ 63" if "i < length (tbl_jobs t)" for i
    using assms(1) that by (simp add: table_ok_def job_sizes)
  have "unat (j_id (tbl_jobs t ! p)) = Suc p"
    using id [OF assms(2)] small [OF assms(2)] unat_of_nat_u64 [of "Suc p"] by simp
  then have nz: "j_id (tbl_jobs t ! p) \<noteq> 0" by (metis nat.distinct(1) unat_0)
  obtain q where q: "find_job (tbl_jobs t) (j_id (tbl_jobs t ! p)) 0 = Some q"
    using find_job_None nth_mem [OF assms(2)] by (metis option.exhaust)
  then have "q < length (tbl_jobs t)" "j_id (tbl_jobs t ! q) = j_id (tbl_jobs t ! p)"
    using find_job_Some by force+
  then have "q = p" using id assms(2) id_inj [OF small small] by metis
  with q nz show ?thesis by (simp add: job_table_find_def)
qed

text \<open>The arguments of \<^verbatim>\<open>job_table_create_job\<close> after the table, as one value.\<close>

type_synonym job_request = "bool \<times> bool \<times> timespec \<times> int \<times> string option \<times> job_type \<times> string option \<times> string option"

definition create_from :: "job_request \<Rightarrow> job_table \<Rightarrow> job_table \<times> nat option" where
  "create_from r t = (case r of (calloc_ok, mutex_ok, now, fd, ip, type, payload, input) \<Rightarrow>
     job_table_create_job calloc_ok mutex_ok now t fd ip type payload input)"

lemma new_job_fits: "job_fits (new_job now job_id fd ip type payload input)"
proof -
  have "length (case x of None \<Rightarrow> [] | Some s \<Rightarrow> snprintf_s n s) < n" if "0 < n" for x n
    using that by (simp add: length_simps split: option.split)
  moreover have "0 < MAX_JOB_PAYLOAD" "0 < MAX_JOB_PATH" "0 < MAX_JOB_FILENAME" "0 < MAX_JOB_RESULT"
    by (simp_all add: job_sizes)
  ultimately show ?thesis by (simp add: job_fits_def new_job_def zero_job_def)
qed

lemma create_from_cases:
  "(create_from r t = (t, None)) \<or>
   (length (tbl_jobs t) < MAX_JOBS \<and> (\<exists>j. job_fits j \<and> j_id j = tbl_next_id t \<and>
      create_from r t = (t\<lparr>tbl_jobs := tbl_jobs t @ [j], tbl_next_id := tbl_next_id t + 1\<rparr>, Some (length (tbl_jobs t)))))"
proof -
  obtain a b now fd ip ty pl inp where r: "r = (a, b, now, fd, ip, ty, pl, inp)" by (cases r) auto
  let ?j = "new_job now (tbl_next_id t) fd ip ty pl inp"
  have "job_fits ?j \<and> j_id ?j = tbl_next_id t" by (simp add: new_job_fits) (simp add: new_job_def)
  then show ?thesis
    unfolding create_from_def r prod.case job_table_create_job_def
    by (cases "a \<and> b \<and> length (tbl_jobs t) < MAX_JOBS") auto
qed

lemma table_ok_append:
  assumes "table_ok t" "length (tbl_jobs t) < MAX_JOBS" "job_fits j" "j_id j = tbl_next_id t"
  shows "table_ok (t\<lparr>tbl_jobs := tbl_jobs t @ [j], tbl_next_id := tbl_next_id t + 1\<rparr>)"
  using assms by (auto simp: table_ok_def nth_append less_Suc_eq)

lemma create_from_ok [inv_intros]: "table_ok t \<Longrightarrow> table_ok (fst (create_from r t))"
  using create_from_cases [of r t] table_ok_append by auto

interpretation jobs: keyed_store table_ok create_from job_table_find
  "\<lambda>t p. p < length (tbl_jobs t)" "\<lambda>t p. j_id (tbl_jobs t ! p)"
proof unfold_locales
  fix t r t' p q
  assume ok: "table_ok t" and c: "create_from r t = (t', Some p)"
  show "q < length (tbl_jobs t') \<longleftrightarrow> q < length (tbl_jobs t) \<or> q = p"
    using create_from_cases [of r t] c by auto
  show "\<not> p < length (tbl_jobs t)"
    using create_from_cases [of r t] c by auto
  show "q < length (tbl_jobs t) \<Longrightarrow> j_id (tbl_jobs t' ! q) = j_id (tbl_jobs t ! q)"
    using create_from_cases [of r t] c by (auto simp: nth_append)
next
  show "create_from v t = (t', None) \<Longrightarrow> t' = t" for v t t'
    using create_from_cases [of v t] by auto
qed (simp_all add: table_find_live table_find_sound create_from_ok)

text \<open>The job operations that a mutation through a pointer applies keep the invariant.\<close>

lemma upd_job_ok [inv_intros]:
  assumes "table_ok t" "\<And>j. j_id (f j) = j_id j" "\<And>j. job_fits j \<Longrightarrow> job_fits (f j)"
  shows "table_ok (upd_job t i f)"
proof (cases "i < length (tbl_jobs t)")
  case True
  then show ?thesis using assms by (auto simp: table_ok_def upd_job_def nth_list_update)
next
  case False
  then show ?thesis using assms(1) by (simp add: upd_job_def list_update_beyond)
qed

lemma job_ops_id [frame_simps]:
  "j_id (job_set_state now st j) = j_id j" "j_id (job_set_result r j) = j_id j"
  "j_id (job_set_stored_path p j) = j_id j" "j_id (job_set_output_path p j) = j_id j"
  "j_id (job_set_result_meta k n f j) = j_id j" "j_id (fst (job_request_cancel j)) = j_id j"
  by (simp_all add: job_set_state_def Let_def job_set_result_def job_set_stored_path_def job_set_output_path_def
      job_set_result_meta_def job_request_cancel_def)

lemma job_ops_fits [inv_intros]:
  "job_fits j \<Longrightarrow> job_fits (job_set_state now st j)" "job_fits j \<Longrightarrow> job_fits (job_set_result r j)"
  "job_fits j \<Longrightarrow> job_fits (job_set_stored_path p j)" "job_fits j \<Longrightarrow> job_fits (job_set_output_path p j)"
  "job_fits j \<Longrightarrow> job_fits (job_set_result_meta k n f j)" "job_fits j \<Longrightarrow> job_fits (fst (job_request_cancel j))"
  by (simp_all add: job_fits_def job_set_state_def Let_def job_set_result_def job_set_stored_path_def
      job_set_output_path_def job_set_result_meta_def job_request_cancel_def length_simps job_sizes split: option.split)

lemma cancel_owner_loop_map:
  "cancel_owner_loop fd js =
     (map (\<lambda>j. if j_owner_fd j = fd \<and> cancellable (j_state j) then j\<lparr>j_cancel_requested := True\<rparr> else j) js,
      length (filter (\<lambda>j. j_owner_fd j = fd \<and> cancellable (j_state j)) js))"
  by (induction js) auto

section \<open>Statistics and listings\<close>

definition in_state :: "job_state \<Rightarrow> job list \<Rightarrow> nat" where
  "in_state s js = length (filter (\<lambda>j. j_state j = s) js)"

text \<open>The duration of a job in milliseconds, and the jobs whose duration enters the average: done or failed,
  and the clock did not run backwards.\<close>

definition exact_ms :: "job \<Rightarrow> rat" where
  "exact_ms j = of_int (tv_sec (j_finished_at j) - tv_sec (j_started_at j)) * 1000
     + of_int (tv_nsec (j_finished_at j) - tv_nsec (j_started_at j)) / 1000000"

definition timed_jobs :: "job list \<Rightarrow> job list" where
  "timed_jobs js = filter (\<lambda>j. (j_state j = JOB_STATE_DONE \<or> j_state j = JOB_STATE_FAILED) \<and> 0 \<le> exact_ms j) js"

text \<open>Times as the clock gives them: fewer than \<open>10 ^ 9\<close> nanoseconds, and seconds that fit 43 bits.\<close>

definition clock_times :: "job \<Rightarrow> bool" where
  "clock_times j \<longleftrightarrow> (\<forall>t \<in> {j_started_at j, j_finished_at j}. 0 \<le> tv_sec t \<and> tv_sec t < 2 ^ 43 \<and> 0 \<le> tv_nsec t \<and> tv_nsec t < 10 ^ 9)"

abbreviation ms_of :: "job \<Rightarrow> rat" where
  "ms_of j \<equiv> timespec_diff_ms (j_started_at j) (j_finished_at j)"

lemma ms_of_parts:
  assumes "clock_times j"
  obtains a b r where "exact_ms j = of_int a * 1000 + b" "ms_of j = dbl (of_int a * 1000 + r)"
    "\<bar>b\<bar> < 1000" "\<bar>r - b\<bar> \<le> \<bar>b\<bar> * unit_roundoff" "\<bar>r\<bar> < 1000" "0 \<le> r \<longleftrightarrow> 0 \<le> b"
proof -
  let ?a = "tv_sec (j_finished_at j) - tv_sec (j_started_at j)" and ?n = "tv_nsec (j_finished_at j) - tv_nsec (j_started_at j)"
  let ?b = "of_int ?n / 1000000 :: rat"
  have a: "\<bar>?a\<bar> < 2 ^ 43" and n: "\<bar>?n\<bar> \<le> 999999999" using assms by (auto simp: clock_times_def)
  have "dbl (of_int ?a) = of_int ?a" "dbl (of_int (?a * 1000)) = of_int (?a * 1000)" "dbl (of_int ?n) = of_int ?n"
    by (rule dbl_int; use a n in simp)+
  then have ms: "ms_of j = dbl (of_int ?a * 1000 + dbl ?b)" by (simp add: timespec_diff_ms_def Let_def)
  have "\<bar>of_int ?n\<bar> \<le> (999999999 :: rat)" using n by (metis of_int_abs of_int_le_iff of_int_numeral)
  then have b: "\<bar>?b\<bar> \<le> 999999999 / 1000000" by (simp only: abs_divide) simp
  then have "\<bar>?b\<bar> * unit_roundoff \<le> 999999999 / 1000000 * unit_roundoff" by (intro mult_right_mono) (simp_all add: unit_roundoff_def)
  with dbl_error [of ?b] have "\<bar>dbl ?b - ?b\<bar> \<le> 999999999 / 1000000 * unit_roundoff" by (rule order_trans)
  moreover have "\<bar>y\<bar> < 1000" if "\<bar>x\<bar> \<le> 999999999 / 1000000" "\<bar>y - x\<bar> \<le> 999999999 / 1000000 * unit_roundoff" for x y
    using that unfolding unit_roundoff_def abs_le_iff abs_less_iff by simp
  ultimately have "\<bar>dbl ?b\<bar> < 1000" using b by blast
  then show thesis
    using b dbl_error [of ?b] ms by (intro that [of ?a ?b "dbl ?b"]) (simp_all add: exact_ms_def dbl_nonneg)
qed

lemma ms_of_nonneg:
  assumes "clock_times j"
  shows "0 \<le> ms_of j \<longleftrightarrow> 0 \<le> exact_ms j"
proof -
  obtain a b r where p: "exact_ms j = of_int a * 1000 + b" "ms_of j = dbl (of_int a * 1000 + r)"
    "\<bar>b\<bar> < 1000" "\<bar>r\<bar> < 1000" "0 \<le> r \<longleftrightarrow> 0 \<le> b" by (rule ms_of_parts [OF assms])
  have sign: "0 \<le> x * 1000 + r \<longleftrightarrow> 0 \<le> x * 1000 + b" if "1 \<le> x \<or> x \<le> - 1" for x
    using that p(3,4) by linarith
  consider "a = 0" | "1 \<le> a" | "a \<le> - 1" by linarith
  then show ?thesis
  proof cases
    case 2
    then have "(1 :: rat) \<le> of_int a" by simp
    then show ?thesis unfolding p(1,2) dbl_nonneg by (intro sign disjI1)
  next
    case 3
    then have "of_int a \<le> (- 1 :: rat)" by (metis of_int_1 of_int_le_iff of_int_minus)
    then show ?thesis unfolding p(1,2) dbl_nonneg by (intro sign disjI2)
  qed (use p in \<open>simp add: dbl_nonneg\<close>)
qed

lemma ms_of_error:
  assumes "clock_times j" "0 \<le> exact_ms j"
  shows "\<bar>ms_of j - exact_ms j\<bar> \<le> (exact_ms j + 1001) * unit_roundoff"
proof -
  obtain a b r where p: "exact_ms j = of_int a * 1000 + b" "ms_of j = dbl (of_int a * 1000 + r)"
    "\<bar>b\<bar> < 1000" "\<bar>r - b\<bar> \<le> \<bar>b\<bar> * unit_roundoff" by (rule ms_of_parts [OF assms(1)])
  let ?y = "of_int a * 1000 + r"
  have u: "0 \<le> unit_roundoff" by (simp add: unit_roundoff_def)
  have "\<bar>b\<bar> * unit_roundoff \<le> 1000 * unit_roundoff" using p(3) u by (intro mult_right_mono) simp_all
  with p(4) have r: "\<bar>r - b\<bar> \<le> 1000 * unit_roundoff" by simp
  then have "\<bar>?y - exact_ms j\<bar> \<le> 1000 * unit_roundoff" by (simp add: p(1))
  moreover have "\<bar>x\<bar> \<le> e + 1" if "\<bar>x - e\<bar> \<le> 1000 * unit_roundoff" "0 \<le> e" for x e
    using that unfolding unit_roundoff_def abs_le_iff by simp
  ultimately have y: "\<bar>?y - exact_ms j\<bar> \<le> 1000 * unit_roundoff" "\<bar>?y\<bar> \<le> exact_ms j + 1"
    using assms(2) by blast+
  have "\<bar>?y\<bar> * unit_roundoff \<le> (exact_ms j + 1) * unit_roundoff" by (rule mult_right_mono [OF y(2) u])
  then have "\<bar>ms_of j - ?y\<bar> \<le> (exact_ms j + 1) * unit_roundoff" using dbl_error [of ?y] p(2) by simp
  with y(1) show ?thesis by (simp add: distrib_right)
qed

lemma stats_loop_sums:
  "list_all clock_times js \<Longrightarrow> stats_loop js st d n =
     (st\<lparr>st_queued := st_queued st + in_state JOB_STATE_QUEUED js,
        st_running := st_running st + in_state JOB_STATE_RUNNING js,
        st_done := st_done st + in_state JOB_STATE_DONE js,
        st_failed := st_failed st + in_state JOB_STATE_FAILED js,
        st_canceled := st_canceled st + in_state JOB_STATE_CANCELED js\<rparr>,
      foldl (\<lambda>t j. dbl (t + ms_of j)) d (timed_jobs js), n + length (timed_jobs js))"
proof (induction js arbitrary: st d n)
  case Nil
  then show ?case by (simp add: in_state_def timed_jobs_def)
next
  case (Cons j js)
  then show ?case
    using ms_of_nonneg [of j]
    by (cases "j_state j") (simp_all add: stats_count_def in_state_def timed_jobs_def Let_def)
qed

lemma average_error:
  assumes "list_all clock_times js" "length js \<le> 1024" "xs = timed_jobs js" "xs \<noteq> []"
  shows "\<bar>dbl (foldl (\<lambda>t j. dbl (t + ms_of j)) 0 xs / dbl (of_nat (length xs))) - sum_list (map exact_ms xs) / of_nat (length xs)\<bar>
    \<le> (sum_list (map exact_ms xs) / of_nat (length xs) + 1001) / 2 ^ 41"
proof -
  let ?T = "foldl (\<lambda>t j. dbl (t + ms_of j)) 0 xs" and ?S = "sum_list (map exact_ms xs)" and ?n = "of_nat (length xs) :: rat"
  let ?m = "?S / ?n" and ?u = unit_roundoff
  have len: "length xs \<le> 1024" using assms(2,3) by (metis le_trans length_filter_le timed_jobs_def)
  then have n: "1 \<le> ?n" "?n \<le> 1024" using assms(4) by (metis One_nat_def Suc_leI length_greater_0_conv of_nat_1 of_nat_le_iff,
    metis of_nat_le_iff of_nat_numeral)
  have each: "0 \<le> exact_ms j \<and> \<bar>ms_of j - exact_ms j\<bar> \<le> (exact_ms j + 1001) * ?u" if "j \<in> set xs" for j
    using that assms(1,3) ms_of_error [of j] by (auto simp: timed_jobs_def list_all_iff)
  have S: "0 \<le> ?S" using each by (intro sum_list_nonneg) auto
  have "\<bar>?T - ?S\<bar> \<le> 3 * ?n * ?u * (?S + ?n * 1001)"
    by (rule dbl_sum_error) (use each len in simp_all)
  then have "\<bar>?T - ?S\<bar> / ?n \<le> 3 * ?n * ?u * (?S + ?n * 1001) / ?n" by (rule divide_right_mono) simp
  moreover have "\<bar>?T / ?n - ?m\<bar> = \<bar>?T - ?S\<bar> / ?n" using n(1) by (simp add: abs_divide flip: diff_divide_distrib)
  ultimately have "\<bar>?T / ?n - ?m\<bar> \<le> 3 * ?n * ?u * (?S + ?n * 1001) / ?n" by simp
  also have "\<dots> = 3 * ?n * ?u * (?m + 1001)" using n(1) by (simp add: field_simps)
  also have "\<dots> \<le> 3072 * ?u * (?m + 1001)"
    using n S by (intro mult_right_mono) (simp_all add: unit_roundoff_def)
  finally have mean: "\<bar>?T / ?n - ?m\<bar> \<le> 3072 * ?u * (?m + 1001)" .
  have m: "0 \<le> ?m" using S by simp
  have "\<bar>y - m\<bar> \<le> (m + 1001) / 2 ^ 41"
    if "\<bar>x - m\<bar> \<le> 3072 * ?u * (m + 1001)" "\<bar>y - x\<bar> \<le> \<bar>x\<bar> * ?u" "0 \<le> m" for x y m
    using that by (simp add: unit_roundoff_def abs_if split: if_splits)
  moreover have "dbl ?n = ?n" using dbl_int [of "int (length xs)"] len by simp
  ultimately show ?thesis using mean dbl_error [of "?T / ?n"] m by simp
qed

text \<open>The buffer after the items have been appended, separated by semicolons.\<close>

definition join_item :: "string \<Rightarrow> string \<Rightarrow> string" where
  "join_item buffer item = (if buffer = [] then item else buffer @ '';'' @ item)"

lemma append_item_Some:
  "append_item n buffer item = Some b \<longleftrightarrow> b = join_item buffer item \<and> length b + 1 < n"
  by (auto simp: append_item_def join_item_def Let_def snprintf_fmt_def)

lemma append_item_None: "append_item n buffer item = None \<longleftrightarrow> n \<le> length (join_item buffer item) + 1"
  by (auto simp: append_item_def join_item_def Let_def)

lemma format_list_loop_prefix:
  "\<exists>k \<le> length js. format_list_loop n js b = foldl join_item b (map list_item (take k js)) \<and>
     (k < length js \<longrightarrow> n \<le> length (join_item (format_list_loop n js b) (list_item (js ! k))) + 1)"
proof (induction js arbitrary: b)
  case (Cons j js)
  show ?case
  proof (cases "append_item n b (list_item j)")
    case None
    with append_item_None [of n b "list_item j"] show ?thesis by (intro exI [of _ 0]) simp
  next
    case (Some b')
    then have b': "b' = join_item b (list_item j)" by (simp add: append_item_Some)
    obtain k where "k \<le> length js" "format_list_loop n js b' = foldl join_item b' (map list_item (take k js))"
      "k < length js \<longrightarrow> n \<le> length (join_item (format_list_loop n js b') (list_item (js ! k))) + 1"
      using Cons.IH [of b'] by blast
    then show ?thesis using Some b' by (intro exI [of _ "Suc k"]) simp
  qed
qed simp

lemma format_list_loop_length: "length b < n \<Longrightarrow> length (format_list_loop n js b) < n"
  by (induction js arbitrary: b) (auto simp: append_item_Some split: option.split)

lemma format_history_loop_length:
  "length b < n \<Longrightarrow> length (fst (format_history_loop n m js e b)) < n"
  by (induction js arbitrary: b e) (auto simp: append_item_Some split: option.split)

lemma format_history_loop_emitted:
  "e \<le> m \<Longrightarrow> snd (format_history_loop n m js e b) \<le> m"
  by (induction js arbitrary: b e) (auto split: option.split)

section \<open>Properties of the job table\<close>

text \<open>
  C24: a new job can be found and disturbs no other. When \<^verbatim>\<open>job_table_create_job\<close> returns a job, the
  table is still well formed, \<^verbatim>\<open>job_table_find\<close> of its id returns it, and for every other id the
  result of \<^verbatim>\<open>job_table_find\<close> is as before; the job is queued and not cancelled.
\<close>

theorem create_job_then_find:
  assumes "table_ok t"
    and "job_table_create_job calloc_ok mutex_ok now t fd ip type payload input = (t', Some p)"
  shows "table_ok t' \<and> job_table_find t' (j_id (tbl_jobs t' ! p)) = Some p
    \<and> (\<forall>k. k \<noteq> j_id (tbl_jobs t' ! p) \<longrightarrow> job_table_find t' k = job_table_find t k)
    \<and> j_state (tbl_jobs t' ! p) = JOB_STATE_QUEUED \<and> \<not> j_cancel_requested (tbl_jobs t' ! p)"
proof -
  have c: "create_from (calloc_ok, mutex_ok, now, fd, ip, type, payload, input) t = (t', Some p)"
    using assms(2) by (simp add: create_from_def)
  have "tbl_jobs t' ! p = new_job now (tbl_next_id t) fd ip type payload input"
    using assms(2) by (auto simp: job_table_create_job_def split: if_splits)
  then have "j_state (tbl_jobs t' ! p) = JOB_STATE_QUEUED \<and> \<not> j_cancel_requested (tbl_jobs t' ! p)"
    by (simp add: new_job_def)
  then show ?thesis
    using jobs.look_ins_same [OF assms(1) c] jobs.look_ins_other [OF assms(1) c] jobs.ins_ok [OF assms(1)] c
    by (metis fst_conv)
qed

lemma empty_table_ok: "table_ok \<lparr>tbl_jobs = [], tbl_next_id = 1\<rparr>"
  by (simp add: table_ok_def)

theorem create_job_then_find_witness:
  "\<exists>t'. job_table_create_job True True zero_time \<lparr>tbl_jobs = [], tbl_next_id = 1\<rparr> 5 (Some ''10.0.0.1'') JOB_TYPE_TEXT
      (Some ''hi'') None = (t', Some 0) \<and> job_table_find t' (j_id (tbl_jobs t' ! 0)) = Some 0"
proof -
  obtain t' where t': "job_table_create_job True True zero_time \<lparr>tbl_jobs = [], tbl_next_id = 1\<rparr> 5 (Some ''10.0.0.1'')
      JOB_TYPE_TEXT (Some ''hi'') None = (t', Some 0)"
    by (simp add: job_table_create_job_def job_sizes)
  with create_job_then_find [OF empty_table_ok t'] show ?thesis by blast
qed

text \<open>
  C33: \<^verbatim>\<open>job_table_collect_stats\<close> can be relied on. Each counter is the number of jobs in that state, the
  five counters add up to the total, and the average, computed in \<^verbatim>\<open>double\<close> with a rounding in every
  conversion, sum and quotient, differs from the true mean \<open>m\<close> of the non-negative durations of the jobs
  done or failed by at most \<open>(m + 1001) / 2 ^ 41\<close> milliseconds, for a table of up to \<open>MAX_JOBS\<close> jobs whose times
  come from the clock; it is zero when there are none.
\<close>

theorem collect_stats_accurate:
  fixes t
  defines "js \<equiv> tbl_jobs t" and "st \<equiv> job_table_collect_stats t"
    and "mean \<equiv> sum_list (map exact_ms (timed_jobs (tbl_jobs t))) / of_nat (length (timed_jobs (tbl_jobs t)))"
  assumes "list_all clock_times js" "length js \<le> MAX_JOBS"
  shows "st_total st = length js \<and>
      st_queued st = in_state JOB_STATE_QUEUED js \<and> st_running st = in_state JOB_STATE_RUNNING js \<and>
      st_done st = in_state JOB_STATE_DONE js \<and> st_failed st = in_state JOB_STATE_FAILED js \<and>
      st_canceled st = in_state JOB_STATE_CANCELED js \<and>
      st_queued st + st_running st + st_done st + st_failed st + st_canceled st = st_total st \<and>
      \<bar>st_avg_duration_ms st - mean\<bar> \<le> (mean + 1001) / 2 ^ 41 \<and> (timed_jobs js = [] \<longrightarrow> st_avg_duration_ms st = 0)"
proof -
  have sum: "in_state JOB_STATE_QUEUED xs + in_state JOB_STATE_RUNNING xs + in_state JOB_STATE_DONE xs
      + in_state JOB_STATE_FAILED xs + in_state JOB_STATE_CANCELED xs = length xs" for xs
  proof (induction xs)
    case (Cons j xs)
    then show ?case by (cases "j_state j") (simp_all add: in_state_def)
  qed (simp add: in_state_def)
  note st = stats_loop_sums [OF assms(4) [unfolded js_def]]
  show ?thesis
  proof (cases "timed_jobs (tbl_jobs t) = []")
    case True
    then show ?thesis using sum by (simp add: st_def js_def mean_def job_table_collect_stats_def st)
  next
    case False
    have "length (tbl_jobs t) \<le> 1024" using assms(5) by (simp add: js_def MAX_JOBS_def)
    from average_error [OF assms(4) [unfolded js_def] this refl False] False sum show ?thesis
      by (simp add: st_def js_def mean_def job_table_collect_stats_def st)
  qed
qed

definition timed_job :: job where
  "timed_job = zero_job\<lparr>j_id := 1, j_state := JOB_STATE_DONE, j_started_at := \<lparr>tv_sec = 1700000000, tv_nsec = 999000000\<rparr>,
     j_finished_at := \<lparr>tv_sec = 1700000002, tv_nsec = 1\<rparr>\<rparr>"

theorem collect_stats_accurate_witness:
  "\<bar>st_avg_duration_ms (job_table_collect_stats \<lparr>tbl_jobs = [timed_job], tbl_next_id = 2\<rparr>) - 1001000001 / 1000000\<bar> \<le> 1 / 2 ^ 30"
  using collect_stats_accurate [of "\<lparr>tbl_jobs = [timed_job], tbl_next_id = 2\<rparr>"]
  by (simp add: clock_times_def timed_job_def zero_job_def MAX_JOBS_def timed_jobs_def exact_ms_def)

text \<open>
  C40: \<^verbatim>\<open>job_table_format_list\<close> never overruns its buffer, and what it prints is the entries of the
  first jobs in table order, separated by semicolons, stopping only where the next entry would not
  fit together with its separator and the terminator.
\<close>

theorem format_list_bounded_prefix:
  assumes "0 < n" "tbl_jobs t \<noteq> []"
  shows "\<exists>out k. job_table_format_list t n = Some out \<and> length out < n \<and> k \<le> length (tbl_jobs t)
    \<and> out = foldl join_item [] (map list_item (take k (tbl_jobs t)))
    \<and> (k < length (tbl_jobs t) \<longrightarrow> n \<le> length (join_item out (list_item (tbl_jobs t ! k))) + 1)"
proof -
  have "job_table_format_list t n = Some (format_list_loop n (tbl_jobs t) [])"
    using assms by (simp add: job_table_format_list_def)
  moreover have "length (format_list_loop n (tbl_jobs t) []) < n"
    using assms(1) by (simp add: format_list_loop_length)
  ultimately show ?thesis using format_list_loop_prefix [where b = "[]" and js = "tbl_jobs t" and n = n] by auto
qed

theorem format_list_bounded_prefix_witness:
  "\<exists>out. job_table_format_list \<lparr>tbl_jobs = [zero_job], tbl_next_id = 2\<rparr> 10 = Some out \<and> length out < 10"
  using format_list_bounded_prefix [of 10 "\<lparr>tbl_jobs = [zero_job], tbl_next_id = 2\<rparr>"] by auto

text \<open>
  C1: \<^verbatim>\<open>job_table_cancel_by_owner\<close>, given the descriptor of a client, requests cancellation of exactly its
  queued and running jobs, changes nothing else in the table, and returns how many there were.
\<close>

theorem cancel_by_owner_exact:
  "job_table_cancel_by_owner t fd =
     (t\<lparr>tbl_jobs := map (\<lambda>j. if j_owner_fd j = fd \<and> cancellable (j_state j)
                            then j\<lparr>j_cancel_requested := True\<rparr> else j) (tbl_jobs t)\<rparr>,
      length (filter (\<lambda>j. j_owner_fd j = fd \<and> cancellable (j_state j)) (tbl_jobs t)))"
  by (simp add: job_table_cancel_by_owner_def cancel_owner_loop_map)

end
