(* ===== verification/Storage.thy ===== *)
theory Storage
  imports Filesys Net_IO Job_Table
begin

text \<open>
  \<^verbatim>\<open>src/server/storage.c\<close>: the storage root and its three subdirectories (file-static variables, here a
  record), the names of uploads and results, and the transfers between sockets and files. \<^verbatim>\<open>errno\<close> is
  not represented; a read of a regular file does not fail once it is open.
\<close>

section \<open>The code\<close>

record storage =
  g_root :: path
  g_uploads :: path
  g_results :: path
  g_temp :: path

definition storage_default :: storage where
  "storage_default = \<lparr>g_root = ''storage'', g_uploads = ''storage/uploads'', g_results = ''storage/results'',
     g_temp = ''storage/temp''\<rparr>"

text \<open>The new contents of \<^verbatim>\<open>out\<close>, which \<^verbatim>\<open>snprintf\<close> has cut when it does not fit, and success.\<close>

definition build_child_path :: "string \<Rightarrow> string \<Rightarrow> nat \<Rightarrow> string \<times> bool" where
  "build_child_path dir name out_size =
     (case snprintf_fmt out_size (dir @ ''/'' @ name) of (rc, out) \<Rightarrow> (out, rc < out_size))"

definition storage_set_root :: "storage \<Rightarrow> string \<Rightarrow> storage \<times> bool" where
  "storage_set_root st root_path =
     (if root_path = [] then (st, False)
      else let st1 = st\<lparr>g_root := snprintf_s MAX_JOB_PATH root_path\<rparr> in
      if length root_path \<ge> MAX_JOB_PATH then (st1, False)
      else case build_child_path (g_root st1) ''uploads'' MAX_JOB_PATH of (u, ok1) \<Rightarrow>
      let st2 = st1\<lparr>g_uploads := u\<rparr> in
      if \<not> ok1 then (st2, False)
      else case build_child_path (g_root st1) ''results'' MAX_JOB_PATH of (r, ok2) \<Rightarrow>
      let st3 = st2\<lparr>g_results := r\<rparr> in
      if \<not> ok2 then (st3, False)
      else case build_child_path (g_root st1) ''temp'' MAX_JOB_PATH of (t, ok3) \<Rightarrow>
      let st4 = st3\<lparr>g_temp := t\<rparr> in
      (st4, ok3))"

definition ensure_directory_exists :: "filesys \<Rightarrow> path \<Rightarrow> filesys \<times> bool" where
  "ensure_directory_exists fs p =
     (if fs_dirs fs p then (fs, True)
      else if fs_files fs p \<noteq> None then (fs, False)
      else case mkdir fs p of None \<Rightarrow> (fs, False) | Some fs1 \<Rightarrow> (fs1, True))"

definition get_file_size_bytes :: "filesys \<Rightarrow> path \<Rightarrow> nat option" where
  "get_file_size_bytes fs p = file_size fs p"

definition storage_init_dirs :: "storage \<Rightarrow> filesys \<Rightarrow> filesys \<times> bool" where
  "storage_init_dirs st fs =
     (case ensure_directory_exists fs (g_root st) of (fs1, ok1) \<Rightarrow> if \<not> ok1 then (fs1, False) else
      case ensure_directory_exists fs1 (g_uploads st) of (fs2, ok2) \<Rightarrow> if \<not> ok2 then (fs2, False) else
      case ensure_directory_exists fs2 (g_results st) of (fs3, ok3) \<Rightarrow> if \<not> ok3 then (fs3, False) else
      case ensure_directory_exists fs3 (g_temp st) of (fs4, ok4) \<Rightarrow> (fs4, ok4))"

definition job_path :: "path \<Rightarrow> u64 \<Rightarrow> string \<Rightarrow> string" where
  "job_path dir job_id s = dir @ ''/job_'' @ udec (unat job_id) @ ''.'' @ s"

text \<open>\<open>None\<close> when the name does not fit; \<^verbatim>\<open>out\<close> then holds nothing of use.\<close>

definition storage_make_upload_path :: "storage \<Rightarrow> u64 \<Rightarrow> string option \<Rightarrow> nat \<Rightarrow> path option" where
  "storage_make_upload_path st job_id suffix out_size =
     (if out_size = 0 then None
      else let s = (case suffix of Some x \<Rightarrow> x | None \<Rightarrow> ''bin'') in
      case snprintf_fmt out_size (job_path (g_uploads st) job_id s) of (rc, out) \<Rightarrow>
        if rc \<ge> out_size then None else Some out)"

definition storage_make_result_path :: "storage \<Rightarrow> u64 \<Rightarrow> string option \<Rightarrow> nat \<Rightarrow> path option" where
  "storage_make_result_path st job_id suffix out_size =
     (if out_size = 0 then None
      else let s = (case suffix of Some x \<Rightarrow> x | None \<Rightarrow> ''bin'') in
      case snprintf_fmt out_size (job_path (g_results st) job_id s) of (rc, out) \<Rightarrow>
        if rc \<ge> out_size then None else Some out)"

text \<open>The receive loop: \<open>fp\<close> is the stream of the destination file so far.\<close>

function receive_loop :: "filesys \<Rightarrow> path \<Rightarrow> nat \<Rightarrow> bytes \<Rightarrow> sock \<Rightarrow> sock \<times> bytes option" where
  "receive_loop fs dst remaining fp s =
     (if remaining > 0 then
        (let want = (if remaining < CHUNK_SIZE then remaining else CHUNK_SIZE) in
         case sock_read want s of (s1, r, d) \<Rightarrow>
           case r of
             Res_eintr \<Rightarrow> receive_loop fs dst remaining fp s1
           | Res_error \<Rightarrow> (s1, None)
           | Res_ok n \<Rightarrow>
               if n = 0 then (s1, None)
               else case fwrite fs dst fp d of (fp1, k) \<Rightarrow>
                 if k \<noteq> n then (s1, None) else receive_loop fs dst (remaining - n) fp1 s1)
      else (s, Some fp))"
  by pat_completeness auto
termination
  by (relation "measure (\<lambda>(fs, dst, n, fp, s). n + length (s_sched s))")
    (auto dest!: sock_read_eintr [OF sym] read_progress [OF sym] simp: neq_Nil_conv)

declare receive_loop.simps [simp del]

definition storage_receive_to_file :: "filesys \<Rightarrow> sock \<Rightarrow> nat \<Rightarrow> path \<Rightarrow> filesys \<times> sock \<times> bool" where
  "storage_receive_to_file fs s sz dst_path =
     (case fopen_wb fs dst_path of None \<Rightarrow> (fs, s, False) | Some fs1 \<Rightarrow>
      case receive_loop fs1 dst_path sz [] s of
        (s1, None) \<Rightarrow> (unlink fs1 dst_path, s1, False)
      | (s1, Some fp) \<Rightarrow>
          (case fclose_w fs1 dst_path fp of (fs2, ok) \<Rightarrow>
             if ok then (fs2, s1, True) else (unlink fs2 dst_path, s1, False)))"

text \<open>The send loop over what is left of the file; only a negative \<^verbatim>\<open>write_all\<close> counts as a failure.\<close>

function send_loop :: "bytes \<Rightarrow> sock \<Rightarrow> sock \<times> bool" where
  "send_loop rest s =
     (let buf = take CHUNK_SIZE rest; r = length buf in
      if r > 0 then
        (case write_all buf s of
           (s1, None) \<Rightarrow> (s1, False)
         | (s1, Some _) \<Rightarrow> if r < CHUNK_SIZE then (s1, True) else send_loop (drop CHUNK_SIZE rest) s1)
      else (s, True))"
  by pat_completeness auto
termination
  by (relation "measure (\<lambda>(rest, s). length rest)") (auto simp: CHUNK_SIZE_def)

declare send_loop.simps [simp del]

definition storage_send_file :: "filesys \<Rightarrow> sock \<Rightarrow> path \<Rightarrow> sock \<times> bool" where
  "storage_send_file fs s src_path =
     (case fopen_rb fs src_path of None \<Rightarrow> (s, False) | Some f \<Rightarrow> send_loop f s)"

definition storage_read_all :: "filesys \<Rightarrow> path \<Rightarrow> nat \<Rightarrow> bytes option" where
  "storage_read_all fs p buffer_size =
     (if buffer_size = 0 then None
      else case fopen_rb fs p of None \<Rightarrow> None | Some f \<Rightarrow> Some (take (buffer_size - 1) f))"

text \<open>The copy loop reads and writes chunks; it stops at the first short write.\<close>

function copy_loop :: "filesys \<Rightarrow> path \<Rightarrow> bytes \<Rightarrow> bytes \<Rightarrow> bytes \<times> bool" where
  "copy_loop fs dst rest fp =
     (let buf = take CHUNK_SIZE rest; r = length buf in
      case (if r > 0 then fwrite fs dst fp buf else (fp, 0)) of (fp1, k) \<Rightarrow>
        if k \<noteq> r then (fp1, False)
        else if r < CHUNK_SIZE then (fp1, True)
        else copy_loop fs dst (drop CHUNK_SIZE rest) fp1)"
  by pat_completeness auto
termination
  by (relation "measure (\<lambda>(fs, dst, rest, fp). length rest)") (auto simp: CHUNK_SIZE_def min_def split: if_splits)

declare copy_loop.simps [simp del]

definition copy_file_to_storage ::
  "storage \<Rightarrow> timespec option \<Rightarrow> filesys \<Rightarrow> path \<Rightarrow> nat \<Rightarrow> filesys \<times> path option" where
  "copy_file_to_storage st now fs src_path dst_path_size =
     (if dst_path_size = 0 then (fs, None)
      else case storage_init_dirs st fs of (fs1, ok) \<Rightarrow>
      if \<not> ok then (fs1, None)
      else case now of None \<Rightarrow> (fs1, None) | Some ts \<Rightarrow>
      case snprintf_fmt dst_path_size
          (g_uploads st @ ''/'' @ sdec (tv_sec ts) @ ''_'' @ sdec (tv_nsec ts) @ ''_'' @ basename_of src_path) of (rc, dst) \<Rightarrow>
      if rc \<ge> dst_path_size then (fs1, None)
      else case fopen_rb fs1 src_path of None \<Rightarrow> (fs1, None) | Some f \<Rightarrow>
      case fopen_wb fs1 dst of None \<Rightarrow> (fs1, None) | Some fs2 \<Rightarrow>
      case copy_loop fs2 dst f [] of (fp, ok1) \<Rightarrow>
      case fclose_w fs2 dst fp of (fs3, ok2) \<Rightarrow>
      if ok1 \<and> ok2 then (fs3, Some dst) else (unlink fs3 dst, None))"

section \<open>Names\<close>

lemma job_path_inj:
  assumes "job_path d i s = job_path d k t"
  shows "i = k \<and> s = t"
proof -
  have dot: "\<not> isdigit (CHR ''.'')" by (simp add: isdigit_def)
  have eq: "udec (unat i) @ ''.'' @ s = udec (unat k) @ ''.'' @ t"
    using assms by (simp add: job_path_def)
  have tw: "takeWhile isdigit (udec n @ ''.'' @ r) = udec n" for n r
    using span_digits [OF udec_digits, of "''.'' @ r" n] dot by simp
  from eq have "udec (unat i) = udec (unat k)" by (metis tw)
  then have "i = k" by (simp add: udec_inj word_unat_eq_iff)
  with eq show ?thesis by simp
qed

lemma make_upload_path_Some:
  "storage_make_upload_path st i s n = Some p \<Longrightarrow> p = job_path (g_uploads st) i (case s of Some x \<Rightarrow> x | None \<Rightarrow> ''bin'')"
  by (auto simp: storage_make_upload_path_def snprintf_fmt_def Let_def split: if_splits)

lemma make_result_path_Some:
  "storage_make_result_path st i s n = Some p \<Longrightarrow> p = job_path (g_results st) i (case s of Some x \<Rightarrow> x | None \<Rightarrow> ''bin'')"
  by (auto simp: storage_make_result_path_def snprintf_fmt_def Let_def split: if_splits)

lemma set_root_dirs:
  assumes "storage_set_root st r = (st', True)" "NUL \<notin> set r"
  shows "st' = \<lparr>g_root = r, g_uploads = r @ ''/uploads'', g_results = r @ ''/results'', g_temp = r @ ''/temp''\<rparr>"
proof -
  have "length r < MAX_JOB_PATH" using assms(1) by (simp add: storage_set_root_def Let_def split: if_splits)
  then have "snprintf_s MAX_JOB_PATH r = r" by (rule snprintf_s_id [OF assms(2)])
  then show ?thesis
    using assms(1)
    by (auto simp: storage_set_root_def build_child_path_def snprintf_fmt_def Let_def split: if_splits)
qed

section \<open>Transfers\<close>

lemma receive_loop_calm:
  "calm s \<Longrightarrow> length fp + n \<le> fs_room fs dst \<Longrightarrow>
     \<exists>s1. receive_loop fs dst n fp s = (s1, if n \<le> length (s_in s) then Some (fp @ take n (s_in s)) else None)
       \<and> s_in s1 = drop n (s_in s) \<and> s_out s1 = s_out s \<and> calm s1"
proof (induction fs dst n fp s rule: receive_loop.induct)
  case (1 fs dst n fp s)
  note unfold = receive_loop.simps [of fs dst n fp s]
  show ?case
  proof (cases "n > 0")
    case False
    then show ?thesis using "1.prems" by (simp add: receive_loop.simps)
  next
    case True
    let ?w = "if n < CHUNK_SIZE then n else CHUNK_SIZE"
    have w: "0 < ?w" "?w \<le> n" using True by (auto simp: CHUNK_SIZE_def)
    from \<open>calm s\<close> w(1) show ?thesis
    proof (cases rule: calm_read_cases)
      case (intr s1)
      have "receive_loop fs dst n fp s = receive_loop fs dst n fp s1" using True intr by (simp add: unfold)
      with "1.IH"(1) [OF True refl intr(1) [symmetric] refl refl intr(4) "1.prems"(2)] show ?thesis
        by (simp only: intr(2,3))
    next
      case (eof s1)
      then show ?thesis using True by (simp add: unfold)
    next
      case (slice s1 k d)
      have fw: "fwrite fs dst fp d = (fp @ d, k)"
        using "1.prems"(2) slice(3,4) w(2) by (subst fwrite_fits) auto
      have room: "length (fp @ d) + (n - k) \<le> fs_room fs dst" using "1.prems"(2) slice(3,4) w(2) by simp
      have k0: "k \<noteq> 0" using slice(2) by simp
      have kk: "\<not> k \<noteq> k" by simp
      obtain s2 where "receive_loop fs dst (n - k) (fp @ d) s1
          = (s2, if n - k \<le> length (s_in s1) then Some ((fp @ d) @ take (n - k) (s_in s1)) else None)"
        "s_in s2 = drop (n - k) (s_in s1)" "s_out s2 = s_out s1" "calm s2"
        using "1.IH"(2) [OF True refl slice(1) [symmetric] refl refl k0 fw [symmetric] kk slice(7) room] by blast
      then show ?thesis using True slice w(2) fw by (auto simp: unfold)
    qed
  qed
qed

lemma receive_loop_sched: "set (s_sched (fst (receive_loop fs dst n fp s))) \<subseteq> set (s_sched s)"
proof (induction fs dst n fp s rule: receive_loop.induct)
  case (1 fs dst n fp s)
  let ?want = "if n < CHUNK_SIZE then n else CHUNK_SIZE"
  obtain s1 r d where rd: "sock_read ?want s = (s1, r, d)" by (metis prod_cases3)
  have sub: "set (s_sched s1) \<subseteq> set (s_sched s)" by (rule sock_read_sched_set [OF rd])
  note unfold = receive_loop.simps [of fs dst n fp s]
  show ?case
  proof (cases "0 < n")
    case False
    then show ?thesis by (subst unfold) simp
  next
    case n: True
    show ?thesis
    proof (cases r)
      case Res_eintr
      then show ?thesis using n rd sub "1.IH"(1) [OF n refl rd [symmetric]] by (subst unfold) (simp add: Let_def)
    next
      case Res_error
      then show ?thesis using n rd sub by (subst unfold) (simp add: Let_def)
    next
      case (Res_ok k)
      obtain fp1 m where fw: "fwrite fs dst fp d = (fp1, m)" by (cases "fwrite fs dst fp d")
      show ?thesis
        using n rd sub "1.IH"(2) [OF n refl rd [symmetric] refl Res_ok _ fw [symmetric]] Res_ok fw
        by (subst unfold) (auto simp: Let_def)
    qed
  qed
qed

lemma send_loop_calm:
  "calm_writes s \<Longrightarrow> \<exists>s1. send_loop rest s = (s1, True) \<and> s_out s1 = s_out s @ rest \<and> calm_writes s1"
proof (induction rest s rule: send_loop.induct)
  case (1 rest s)
  obtain s1 where w: "write_all (take CHUNK_SIZE rest) s = (s1, Some (length (take CHUNK_SIZE rest)))"
    "s_out s1 = s_out s @ take CHUNK_SIZE rest" "calm_writes s1"
    using write_all_loop_calm [OF "1.prems", of 0 "take CHUNK_SIZE rest"] by (auto simp: write_all_def)
  show ?case
  proof (cases "rest = []")
    case True
    then show ?thesis using "1.prems" by (simp add: send_loop.simps)
  next
    case False
    then have pos: "0 < length (take CHUNK_SIZE rest)" by (simp add: CHUNK_SIZE_def)
    show ?thesis
    proof (cases "length (take CHUNK_SIZE rest) < CHUNK_SIZE")
      case True
      then have "take CHUNK_SIZE rest = rest" by (auto simp: min_def split: if_splits)
      then show ?thesis using w True pos by (subst send_loop.simps) (simp add: Let_def)
    next
      case False
      from "1.IH" [OF refl refl pos w(1) [symmetric] refl False w(3)]
      obtain s2 where "send_loop (drop CHUNK_SIZE rest) s1 = (s2, True)"
        "s_out s2 = s_out s1 @ drop CHUNK_SIZE rest" "calm_writes s2" by auto
      then show ?thesis using w False pos \<open>rest \<noteq> []\<close> by (subst send_loop.simps) (simp add: Let_def)
    qed
  qed
qed

section \<open>Properties of the storage\<close>

text \<open>
  C26: jobs do not share files. Once the storage root is set, the paths made for uploads and for
  results never coincide, and two uploads, or two results, have the same path only when they belong
  to the same job and have the same suffix.
\<close>

theorem storage_paths_disjoint:
  assumes "storage_set_root st r = (st', True)" "NUL \<notin> set r"
    and "storage_make_upload_path st' i s n = Some up" "storage_make_upload_path st' i2 s2 n2 = Some up2"
    and "storage_make_result_path st' k t m = Some rp" "storage_make_result_path st' k2 t2 m2 = Some rp2"
  shows "up \<noteq> rp \<and> (up = up2 \<longrightarrow> i = i2) \<and> (rp = rp2 \<longrightarrow> k = k2)"
proof -
  have st': "g_uploads st' = r @ ''/uploads''" "g_results st' = r @ ''/results''"
    using set_root_dirs [OF assms(1,2)] by simp_all
  note p = assms(3,4) [THEN make_upload_path_Some] assms(5,6) [THEN make_result_path_Some]
  have "up \<noteq> rp" using p st' by (simp add: job_path_def)
  moreover have "i = i2" if "up = up2" using p(1,2) job_path_inj that by metis
  moreover have "k = k2" if "rp = rp2" using p(3,4) job_path_inj that by metis
  ultimately show ?thesis by blast
qed

theorem storage_paths_disjoint_witness:
  "storage_make_upload_path (fst (storage_set_root storage_default ''/srv'')) 1 (Some ''png'') 512
     \<noteq> storage_make_result_path (fst (storage_set_root storage_default ''/srv'')) 1 (Some ''png'') 512"
proof -
  obtain st' where st': "storage_set_root storage_default ''/srv'' = (st', True)"
    by (simp add: storage_set_root_def build_child_path_def snprintf_fmt_def snprintf_s_def cstr_def job_sizes Let_def)
  have len: "length (udec (unat (1 :: u64))) \<le> 20" by (rule udec_length_u64)
  have dirs: "st' = \<lparr>g_root = ''/srv'', g_uploads = ''/srv/uploads'', g_results = ''/srv/results'', g_temp = ''/srv/temp''\<rparr>"
    using set_root_dirs [OF st'] by simp
  obtain up rp where p: "storage_make_upload_path st' 1 (Some ''png'') 512 = Some up"
    "storage_make_result_path st' 1 (Some ''png'') 512 = Some rp"
    using len by (simp add: storage_make_upload_path_def storage_make_result_path_def snprintf_fmt_def Let_def job_path_def dirs)
  from storage_paths_disjoint [OF st' _ p(1) p(1) p(2) p(2)] have "up \<noteq> rp" by simp
  then show ?thesis using p st' by simp
qed

text \<open>On a file that accepts the bytes, the whole outcome is determined by how much the peer sends.\<close>

lemma receive_to_file_outcome:
  assumes "calm s" "accepts fs dst n"
  shows "\<exists>s1. storage_receive_to_file fs s n dst =
      (if n \<le> length (s_in s) then set_file fs dst (take n (s_in s)) else unlink fs dst, s1, n \<le> length (s_in s))
    \<and> s_in s1 = drop n (s_in s) \<and> s_out s1 = s_out s \<and> set (s_sched s1) \<subseteq> set (s_sched s)"
proof -
  let ?fs1 = "set_file fs dst []"
  have open_ok: "fopen_wb fs dst = Some ?fs1" using assms(2) by (simp add: fopen_wb_def accepts_def)
  obtain s1 where r: "receive_loop ?fs1 dst n [] s = (s1, if n \<le> length (s_in s) then Some (take n (s_in s)) else None)"
    "s_in s1 = drop n (s_in s)" "s_out s1 = s_out s"
    using receive_loop_calm [OF assms(1), of "[]" n ?fs1 dst] assms(2) by (auto simp: accepts_def frame_simps)
  show ?thesis
    using r open_ok assms(2) receive_loop_sched [of ?fs1 dst n "[]" s]
    by (simp add: storage_receive_to_file_def fclose_w_def accepts_def frame_simps)
qed

text \<open>
  C25: \<^verbatim>\<open>storage_receive_to_file\<close> is all or nothing. With a destination that takes the data, under every
  schedule without errors, it succeeds exactly when the peer sends the announced number of bytes;
  the file then holds exactly those bytes. Otherwise no file is left. No other file changes and
  exactly the announced bytes are consumed from the connection.
\<close>

theorem receive_to_file_exact:
  assumes "calm s" "accepts fs dst n"
  shows "\<exists>fs' s1. storage_receive_to_file fs s n dst = (fs', s1, n \<le> length (s_in s))
    \<and> fs_files fs' dst = (if n \<le> length (s_in s) then Some (take n (s_in s)) else None)
    \<and> (\<forall>q. q \<noteq> dst \<longrightarrow> fs_files fs' q = fs_files fs q) \<and> s_in s1 = drop n (s_in s)"
  using receive_to_file_outcome [OF assms] by (auto simp: frame_simps)

definition quiet_disk :: filesys where
  "quiet_disk = \<lparr>fs_files = Map.empty, fs_dirs = (\<lambda>_. False), fs_readable = (\<lambda>_. True), fs_writable = (\<lambda>_. True),
     fs_seekable = (\<lambda>_. True), fs_room = (\<lambda>_. 1000), fs_lost = (\<lambda>_. None)\<rparr>"

theorem receive_to_file_exact_witness:
  "\<exists>fs' s1. storage_receive_to_file quiet_disk \<lparr>s_in = [1, 2, 3], s_out = [], s_sched = [Io_some 0, Io_eintr]\<rparr> 2 ''u''
      = (fs', s1, True) \<and> fs_files fs' ''u'' = Some (take 2 [1, 2, 3])"
proof -
  have "calm \<lparr>s_in = [1, 2, 3], s_out = [], s_sched = [Io_some 0, Io_eintr]\<rparr>" "accepts quiet_disk ''u'' 2"
    by (simp_all add: calm_def accepts_def quiet_disk_def)
  from receive_to_file_exact [OF this] show ?thesis by auto
qed

text \<open>
  C22: \<^verbatim>\<open>storage_send_file\<close> sends the whole file: under every schedule without errors or empty writes it
  succeeds, and the peer receives exactly the contents of the file, in order.
\<close>

theorem send_file_complete:
  assumes "calm_writes s" "fopen_rb fs p = Some f"
  shows "\<exists>s1. storage_send_file fs s p = (s1, True) \<and> s_out s1 = s_out s @ f"
  using send_loop_calm [OF assms(1), of f] assms(2) by (auto simp: storage_send_file_def)

theorem send_file_complete_witness:
  "\<exists>s1. storage_send_file (set_file quiet_disk ''r'' [7, 8]) \<lparr>s_in = [], s_out = [1], s_sched = [Io_some 1]\<rparr> ''r''
      = (s1, True) \<and> s_out s1 = [1] @ [7, 8]"
proof -
  have "calm_writes \<lparr>s_in = [], s_out = [1], s_sched = [Io_some 1]\<rparr>" "fopen_rb (set_file quiet_disk ''r'' [7, 8]) ''r'' = Some [7, 8]"
    by (simp_all add: calm_writes_def fopen_rb_def frame_simps, simp add: quiet_disk_def)
  from send_file_complete [OF this] show ?thesis by simp
qed

end
