(* ===== verification/Job_Queue.thy ===== *)
theory Job_Queue
  imports Stega_Prelude
begin

text \<open>
  \<^verbatim>\<open>src/server/queue.c\<close>: the singly linked job queue the server pushes to and the workers pop from.
  Nodes live in a heap of addresses, \<^verbatim>\<open>next\<close> and the head and tail pointers are optional addresses,
  and a job pointer is the index of the job in the table. Each operation holds the queue's mutex
  throughout, so it is one function; \<^verbatim>\<open>pthread_cond_wait\<close> is the outcome \<open>Pop_wait\<close>, after which the
  caller tries again when signalled.
\<close>

section \<open>The code\<close>

record job_node =
  n_job :: nat
  n_next :: "nat option"

record job_queue =
  q_nodes :: "nat \<Rightarrow> job_node option"
  q_head :: "nat option"
  q_tail :: "nat option"
  q_stopped :: bool

datatype pop_result = Pop_wait | Pop_null | Pop_job nat

definition job_queue_init :: "bool \<Rightarrow> bool \<Rightarrow> job_queue option" where
  "job_queue_init mutex_ok cond_ok =
     (if \<not> mutex_ok then None else if \<not> cond_ok then None
      else Some \<lparr>q_nodes = Map.empty, q_head = None, q_tail = None, q_stopped = False\<rparr>)"

text \<open>
  \<open>node\<close> is the result of \<^verbatim>\<open>calloc\<close>. A dereference of an address with no node has no meaning in C; the
  well-formedness below excludes it.
\<close>

definition job_queue_push :: "nat option \<Rightarrow> job_queue \<Rightarrow> nat \<Rightarrow> job_queue \<times> bool" where
  "job_queue_push node q job =
     (case node of None \<Rightarrow> (q, False) | Some a \<Rightarrow>
      let q1 = q\<lparr>q_nodes := (q_nodes q)(a \<mapsto> \<lparr>n_job = job, n_next = None\<rparr>)\<rparr> in
      if q_stopped q1 then (q1\<lparr>q_nodes := (q_nodes q1)(a := None)\<rparr>, False)
      else case q_tail q1 of
        None \<Rightarrow> (q1\<lparr>q_head := Some a, q_tail := Some a\<rparr>, True)
      | Some t \<Rightarrow>
          (q1\<lparr>q_nodes := (q_nodes q1)(t := map_option (\<lambda>n. n\<lparr>n_next := Some a\<rparr>) (q_nodes q1 t)),
              q_tail := Some a\<rparr>, True))"

definition job_queue_pop :: "job_queue \<Rightarrow> job_queue \<times> pop_result" where
  "job_queue_pop q =
     (if q_head q = None \<and> \<not> q_stopped q then (q, Pop_wait)
      else if q_stopped q then (q, Pop_null)
      else case q_head q of None \<Rightarrow> (q, Pop_wait) | Some a \<Rightarrow>
        case q_nodes q a of None \<Rightarrow> (q, Pop_null) | Some node \<Rightarrow>
        let q1 = q\<lparr>q_head := n_next node\<rparr>;
            q2 = (if q_head q1 = None then q1\<lparr>q_tail := None\<rparr> else q1)
        in (q2\<lparr>q_nodes := (q_nodes q2)(a := None)\<rparr>, Pop_job (n_job node)))"

definition job_queue_stop :: "job_queue \<Rightarrow> job_queue" where
  "job_queue_stop q = q\<lparr>q_stopped := True\<rparr>"

text \<open>The loop that frees the nodes; \<open>None\<close> when it would follow a dangling pointer or never end.\<close>

partial_function (option) free_nodes :: "(nat \<Rightarrow> job_node option) \<Rightarrow> nat option \<Rightarrow> (nat \<Rightarrow> job_node option) option" where
  "free_nodes nodes p =
     (case p of None \<Rightarrow> Some nodes | Some a \<Rightarrow>
      case nodes a of None \<Rightarrow> None | Some node \<Rightarrow> free_nodes (nodes(a := None)) (n_next node))"

definition job_queue_destroy :: "job_queue \<Rightarrow> job_queue option" where
  "job_queue_destroy q =
     map_option (\<lambda>nodes. q\<lparr>q_nodes := nodes, q_head := None, q_tail := None\<rparr>) (free_nodes (q_nodes q) (q_head q))"

section \<open>First in, first out\<close>

datatype 'a queue_event = Pushed 'a | Popped 'a

fun pushes :: "'a queue_event list \<Rightarrow> 'a list" where
  "pushes [] = []"
| "pushes (Pushed a # es) = a # pushes es"
| "pushes (Popped a # es) = pushes es"

fun pops :: "'a queue_event list \<Rightarrow> 'a list" where
  "pops [] = []"
| "pops (Pushed a # es) = pops es"
| "pops (Popped a # es) = a # pops es"

text \<open>A history of a queue: each event is a successful operation on the state before it.\<close>

fun history :: "('q \<Rightarrow> 'a \<Rightarrow> 'q \<Rightarrow> bool) \<Rightarrow> ('q \<Rightarrow> 'a \<Rightarrow> 'q \<Rightarrow> bool) \<Rightarrow> 'q \<Rightarrow> 'a queue_event list \<Rightarrow> 'q \<Rightarrow> bool" where
  "history enq deq q [] q' \<longleftrightarrow> q' = q"
| "history enq deq q (Pushed a # es) q' \<longleftrightarrow> (\<exists>q1. enq q a q1 \<and> history enq deq q1 es q')"
| "history enq deq q (Popped a # es) q' \<longleftrightarrow> (\<exists>q1. deq q a q1 \<and> history enq deq q1 es q')"

locale fifo =
  fixes holds :: "'q \<Rightarrow> 'a list \<Rightarrow> bool"
    and enq :: "'q \<Rightarrow> 'a \<Rightarrow> 'q \<Rightarrow> bool"
    and deq :: "'q \<Rightarrow> 'a \<Rightarrow> 'q \<Rightarrow> bool"
  assumes enq_last: "holds q xs \<Longrightarrow> enq q a q' \<Longrightarrow> holds q' (xs @ [a])"
    and deq_first: "holds q xs \<Longrightarrow> deq q a q' \<Longrightarrow> \<exists>ys. xs = a # ys \<and> holds q' ys"
begin

lemma history_order:
  "holds q xs \<Longrightarrow> history enq deq q es q' \<Longrightarrow> \<exists>ys. holds q' ys \<and> xs @ pushes es = pops es @ ys"
proof (induction es arbitrary: q xs)
  case (Cons e es)
  show ?case
  proof (cases e)
    case (Pushed a)
    then obtain q1 where "enq q a q1" "history enq deq q1 es q'" using Cons.prems(2) by auto
    then show ?thesis using Cons.IH [of q1 "xs @ [a]"] enq_last Cons.prems(1) Pushed by auto
  next
    case (Popped a)
    then obtain q1 where q1: "deq q a q1" "history enq deq q1 es q'" using Cons.prems(2) by auto
    then obtain zs where "xs = a # zs" "holds q1 zs" using deq_first Cons.prems(1) by blast
    then show ?thesis using Cons.IH [of q1 zs] q1(2) Popped by auto
  qed
qed auto

end

section \<open>The linked representation\<close>

fun chain :: "(nat \<Rightarrow> job_node option) \<Rightarrow> nat option \<Rightarrow> nat list \<Rightarrow> nat list \<Rightarrow> bool" where
  "chain nodes p [] js \<longleftrightarrow> p = None \<and> js = []"
| "chain nodes p (a # ns) js \<longleftrightarrow> p = Some a \<and>
     (case nodes a of None \<Rightarrow> False
      | Some n \<Rightarrow> (case js of [] \<Rightarrow> False | j # js' \<Rightarrow> n_job n = j \<and> chain nodes (n_next n) ns js'))"

text \<open>The queue holds the jobs \<open>js\<close>: its nodes form one chain from head to tail and no node is leaked.\<close>

definition queue_holds :: "job_queue \<Rightarrow> nat list \<Rightarrow> bool" where
  "queue_holds q js \<longleftrightarrow> (\<exists>ns. chain (q_nodes q) (q_head q) ns js \<and> distinct ns \<and> dom (q_nodes q) = set ns \<and>
     q_tail q = (if ns = [] then None else Some (last ns)))"

lemma chain_length: "chain nodes p ns js \<Longrightarrow> length ns = length js"
  by (induction nodes p ns js rule: chain.induct) (auto split: option.splits list.splits)

lemma chain_frame: "chain nodes p ns js \<Longrightarrow> (\<And>a. a \<in> set ns \<Longrightarrow> nodes' a = nodes a) \<Longrightarrow> chain nodes' p ns js"
  by (induction nodes p ns js rule: chain.induct) (auto split: option.splits list.splits)

lemma chain_snoc:
  assumes "chain nodes p ns js" "ns \<noteq> []" "distinct ns" "a \<notin> set ns" "nodes a = Some \<lparr>n_job = j, n_next = None\<rparr>"
  shows "chain (nodes(last ns := map_option (\<lambda>n. n\<lparr>n_next := Some a\<rparr>) (nodes (last ns)))) p (ns @ [a]) (js @ [j])"
  using assms
proof (induction ns arbitrary: p js)
  case (Cons b bs)
  obtain n js' where b: "nodes b = Some n" "p = Some b" "js = n_job n # js'" "chain nodes (n_next n) bs js'"
    using Cons.prems(1) by (auto split: option.splits list.splits)
  show ?case
  proof (cases "bs = []")
    case True
    then show ?thesis using b Cons.prems by auto
  next
    case False
    then have "last bs \<noteq> b" using Cons.prems(3) by (metis distinct.simps(2) last_in_set)
    then show ?thesis using Cons.IH [OF b(4) False] Cons.prems False b by auto
  qed
qed simp

text \<open>A push that was given a node and accepted, a pop that returned a job.\<close>

definition push_step :: "job_queue \<Rightarrow> nat \<Rightarrow> job_queue \<Rightarrow> bool" where
  "push_step q j q' \<longleftrightarrow> (\<exists>a. q_nodes q a = None \<and> job_queue_push (Some a) q j = (q', True))"

definition pop_step :: "job_queue \<Rightarrow> nat \<Rightarrow> job_queue \<Rightarrow> bool" where
  "pop_step q j q' \<longleftrightarrow> job_queue_pop q = (q', Pop_job j)"

lemma push_holds:
  assumes "queue_holds q js" "q_nodes q a = None" "\<not> q_stopped q"
  shows "\<exists>q'. job_queue_push (Some a) q j = (q', True) \<and> queue_holds q' (js @ [j]) \<and> \<not> q_stopped q'"
proof -
  obtain ns where c: "chain (q_nodes q) (q_head q) ns js" "distinct ns" "dom (q_nodes q) = set ns"
    "q_tail q = (if ns = [] then None else Some (last ns))"
    using assms(1) by (auto simp: queue_holds_def)
  have fresh: "a \<notin> set ns" using c(3) assms(2) by (metis domIff)
  let ?nodes = "(q_nodes q)(a \<mapsto> \<lparr>n_job = j, n_next = None\<rparr>)"
  show ?thesis
  proof (cases "ns = []")
    case True
    have "queue_holds (q\<lparr>q_nodes := ?nodes, q_head := Some a, q_tail := Some a\<rparr>) (js @ [j])"
      using c True unfolding queue_holds_def by (intro exI [of _ "[a]"]) (auto dest: chain_length)
    then show ?thesis using c(4) True assms(3) by (simp add: job_queue_push_def Let_def)
  next
    case False
    let ?nodes' = "?nodes(last ns := map_option (\<lambda>n. n\<lparr>n_next := Some a\<rparr>) (?nodes (last ns)))"
    have la: "last ns \<in> set ns" "last ns \<noteq> a" using False fresh by auto
    have "chain ?nodes (q_head q) ns js" using c(1) fresh by (auto intro: chain_frame)
    then have "chain ?nodes' (q_head q) (ns @ [a]) (js @ [j])"
      using False c(2) fresh by (intro chain_snoc) auto
    moreover have "dom ?nodes' = set (ns @ [a])"
      using c(3) la by (auto simp: dom_def split: if_splits)
    ultimately have "queue_holds (q\<lparr>q_nodes := ?nodes', q_tail := Some a\<rparr>) (js @ [j])"
      using c(2) fresh unfolding queue_holds_def by (intro exI [of _ "ns @ [a]"]) simp
    then show ?thesis using c(4) False assms(3) by (simp add: job_queue_push_def Let_def)
  qed
qed

lemma push_refused:
  assumes "q_nodes q a = None" "q_stopped q"
  shows "job_queue_push (Some a) q j = (q, False)"
proof -
  have "(q_nodes q)(a := None) = q_nodes q" using assms(1) by (simp add: fun_upd_idem)
  then show ?thesis using assms(2) by (simp add: job_queue_push_def Let_def)
qed

lemma pop_holds:
  assumes "queue_holds q (j # js)" "\<not> q_stopped q"
  shows "\<exists>q'. job_queue_pop q = (q', Pop_job j) \<and> queue_holds q' js \<and> \<not> q_stopped q'"
proof -
  obtain ns where c: "chain (q_nodes q) (q_head q) ns (j # js)" "distinct ns" "dom (q_nodes q) = set ns"
    "q_tail q = (if ns = [] then None else Some (last ns))"
    using assms(1) by (auto simp: queue_holds_def)
  then obtain a bs n where a: "ns = a # bs" "q_head q = Some a" "q_nodes q a = Some n" "n_job n = j"
    "chain (q_nodes q) (n_next n) bs js"
    by (cases ns) (auto split: option.splits)
  let ?q = "q\<lparr>q_nodes := (q_nodes q)(a := None), q_head := n_next n,
    q_tail := (if n_next n = None then None else q_tail q)\<rparr>"
  have "chain ((q_nodes q)(a := None)) (n_next n) bs js"
    using a(1,5) c(2) by (auto intro: chain_frame)
  moreover have "n_next n = None \<longleftrightarrow> bs = []" using a(5) by (cases bs) (auto split: option.splits)
  moreover have "dom ((q_nodes q)(a := None)) = set bs" using c(2,3) a(1) by auto
  ultimately have "queue_holds ?q js"
    unfolding queue_holds_def using c(2,4) a(1) by (intro exI [of _ bs]) simp
  moreover have "job_queue_pop q = (?q, Pop_job j)"
    using a(2-4) assms(2) by (simp add: job_queue_pop_def Let_def)
  ultimately show ?thesis using assms(2) by simp
qed

lemma pop_empty: "queue_holds q [] \<Longrightarrow> \<not> q_stopped q \<Longrightarrow> job_queue_pop q = (q, Pop_wait)"
proof -
  assume h: "queue_holds q []" "\<not> q_stopped q"
  then obtain ns where "chain (q_nodes q) (q_head q) ns []" by (auto simp: queue_holds_def)
  then have "q_head q = None" by (cases ns) (auto split: option.splits)
  with h(2) show ?thesis by (simp add: job_queue_pop_def)
qed

lemma push_step_running: "push_step q j q' \<Longrightarrow> \<not> q_stopped q"
  by (auto simp: push_step_def push_refused)

lemma pop_step_running: "pop_step q j q' \<Longrightarrow> \<not> q_stopped q"
  by (auto simp: pop_step_def job_queue_pop_def split: if_splits)

interpretation jq: fifo queue_holds push_step pop_step
proof unfold_locales
  fix q xs a q'
  assume h: "queue_holds q xs"
  show "queue_holds q' (xs @ [a])" if p: "push_step q a q'"
  proof -
    obtain n where n: "q_nodes q n = None" "job_queue_push (Some n) q a = (q', True)"
      using p by (auto simp: push_step_def)
    from push_holds [OF h n(1) push_step_running [OF p], of a] n(2) show ?thesis by auto
  qed
  show "\<exists>ys. xs = a # ys \<and> queue_holds q' ys" if p: "pop_step q a q'"
  proof (cases xs)
    case Nil
    then show ?thesis using pop_empty [of q] pop_step_running [OF p] p h by (auto simp: pop_step_def)
  next
    case (Cons x ys)
    then show ?thesis using pop_holds [of q x ys] pop_step_running [OF p] p h by (auto simp: pop_step_def)
  qed
qed

lemma free_nodes_chain:
  assumes "chain nodes p ns js" "distinct ns"
  shows "free_nodes nodes p = Some (\<lambda>a. if a \<in> set ns then None else nodes a)"
  using assms
proof (induction ns arbitrary: nodes p js)
  case Nil
  then show ?case by (subst free_nodes.simps) simp
next
  case (Cons a ns)
  obtain n js' where a: "p = Some a" "nodes a = Some n" "js = n_job n # js'" "chain nodes (n_next n) ns js'"
    using Cons.prems(1) by (auto split: option.splits list.splits)
  have "chain (nodes(a := None)) (n_next n) ns js'" using a(4) Cons.prems(2) by (auto intro: chain_frame)
  have "free_nodes (nodes(a := None)) (n_next n) = Some (\<lambda>b. if b \<in> set ns then None else (nodes(a := None)) b)"
    by (rule Cons.IH [OF \<open>chain (nodes(a := None)) (n_next n) ns js'\<close>]) (use Cons.prems(2) in simp)
  then show ?case using a(1,2) by (subst free_nodes.simps) (auto simp: fun_eq_iff)
qed

lemma destroy_holds:
  assumes "queue_holds q js"
  shows "\<exists>q'. job_queue_destroy q = Some q' \<and> q_nodes q' = Map.empty \<and> q_stopped q' = q_stopped q \<and> queue_holds q' []"
proof -
  obtain ns where c: "chain (q_nodes q) (q_head q) ns js" "distinct ns" "dom (q_nodes q) = set ns"
    using assms by (auto simp: queue_holds_def)
  have "(\<lambda>a. if a \<in> set ns then None else q_nodes q a) = Map.empty"
    using c(3) by (auto simp: fun_eq_iff)
  with free_nodes_chain [OF c(1,2)]
  have d: "job_queue_destroy q = Some (q\<lparr>q_nodes := Map.empty, q_head := None, q_tail := None\<rparr>)"
    by (simp add: job_queue_destroy_def)
  show ?thesis unfolding d queue_holds_def by (intro exI conjI, rule refl) (auto intro!: exI [of _ "[]"])
qed

section \<open>Properties of the queue\<close>

text \<open>
  C23: the queue is first in, first out. In every history of a queue that starts initialised, the
  jobs popped so far are, in order, the first of the jobs pushed, and the queue holds exactly the
  rest: no job is lost, duplicated or overtaken.
\<close>

theorem job_queue_fifo:
  assumes "job_queue_init True True = Some q0" "history push_step pop_step q0 es q"
  shows "\<exists>waiting. queue_holds q waiting \<and> pushes es = pops es @ waiting"
proof -
  have "queue_holds q0 []"
    using assms(1) unfolding job_queue_init_def queue_holds_def by (intro exI [of _ "[]"]) auto
  from jq.history_order [OF this assms(2)] show ?thesis by simp
qed

definition queue0 :: job_queue where
  "queue0 = \<lparr>q_nodes = Map.empty, q_head = None, q_tail = None, q_stopped = False\<rparr>"

theorem job_queue_fifo_witness:
  "\<exists>q waiting. history push_step pop_step queue0 [Pushed 7, Pushed 8, Popped 7] q \<and> queue_holds q waiting
     \<and> [7, 8] = [7] @ waiting"
proof -
  have h0: "queue_holds queue0 []" unfolding queue_holds_def queue0_def by (intro exI [of _ "[]"]) simp
  have init: "job_queue_init True True = Some queue0" by (simp add: job_queue_init_def queue0_def)
  have "q_nodes queue0 1 = None" "\<not> q_stopped queue0" by (simp_all add: queue0_def)
  then obtain q1 where q1: "job_queue_push (Some 1) queue0 7 = (q1, True)" "queue_holds q1 [7]" "\<not> q_stopped q1"
    "push_step queue0 7 q1"
    using push_holds [OF h0, of 1 7] by (auto simp: push_step_def)
  then have "q_nodes q1 2 = None" by (auto simp: job_queue_push_def queue0_def)
  then obtain q2 where q2: "queue_holds q2 [7, 8]" "\<not> q_stopped q2" "push_step q1 8 q2"
    using push_holds [OF q1(2) _ q1(3), of 2 8] by (auto simp: push_step_def)
  then obtain q3 where "pop_step q2 7 q3" using pop_holds [OF q2(1,2)] by (auto simp: pop_step_def)
  with q1(4) q2(3) have "history push_step pop_step queue0 [Pushed 7, Pushed 8, Popped 7] q3" by auto
  with job_queue_fifo [OF init this] show ?thesis by auto
qed

text \<open>
  The outcome of \<^verbatim>\<open>job_queue_pop\<close> on every queue: a stopped queue gives \<^verbatim>\<open>NULL\<close> even when jobs are
  left, an empty running queue makes the worker wait, and otherwise the oldest job comes out.
\<close>

theorem job_queue_pop_outcome:
  assumes "queue_holds q js"
  shows "snd (job_queue_pop q) =
    (if q_stopped q then Pop_null else case js of [] \<Rightarrow> Pop_wait | j # _ \<Rightarrow> Pop_job j)"
proof (cases "q_stopped q")
  case True
  then show ?thesis by (simp add: job_queue_pop_def)
next
  case False
  then show ?thesis
  proof (cases js)
    case Nil
    then show ?thesis using pop_empty assms False by simp
  next
    case (Cons j js')
    then show ?thesis using pop_holds [of q j js'] assms False by auto
  qed
qed

theorem job_queue_pop_outcome_witness: "snd (job_queue_pop (job_queue_stop queue0)) = Pop_null"
proof -
  have "queue_holds (job_queue_stop queue0) []"
    unfolding queue_holds_def queue0_def job_queue_stop_def by (intro exI [of _ "[]"]) simp
  from job_queue_pop_outcome [OF this] show ?thesis by (simp add: job_queue_stop_def)
qed

text \<open>
  C14: \<^verbatim>\<open>job_queue_destroy\<close> terminates on every well-formed queue, whatever it still holds, frees every
  node and leaves it empty.
\<close>

theorem job_queue_destroy_frees_all:
  assumes "queue_holds q js"
  shows "\<exists>q'. job_queue_destroy q = Some q' \<and> q_nodes q' = Map.empty \<and> queue_holds q' []"
  using destroy_holds [OF assms] by blast

theorem job_queue_destroy_frees_all_witness:
  "\<exists>q'. job_queue_destroy queue0 = Some q' \<and> q_nodes q' = Map.empty"
proof -
  have "queue_holds queue0 []" unfolding queue_holds_def queue0_def by (intro exI [of _ "[]"]) simp
  from job_queue_destroy_frees_all [OF this] show ?thesis by blast
qed

end
