(* ===== verification/Worker.thy ===== *)
theory Worker
  imports Png_Utils Storage Job_Queue
begin

text \<open>
  \<^verbatim>\<open>src/server/worker.c\<close>: what a worker thread does with a job. A worker runs beside the server, which
  may request the cancellation of its job at any time; the worker sees such a request only where it
  polls, so the model lets requests arrive at the polls (\<open>we_cancel\<close>). The result of writing the event
  to the pipe is ignored by the code, and log lines are left out.
\<close>

section \<open>The code\<close>

text \<open>What surrounds a run: the worker's index, libpng, memory, the storage directories, the two clock
  readings and the arrival of cancel requests at the successive polls.\<close>

record wenv =
  we_index :: nat
  we_lp :: libpng
  we_al :: allocator
  we_st :: storage
  we_start :: timespec
  we_end :: timespec
  we_cancel :: "nat \<Rightarrow> bool"

record worker_event =
  ev_job_id :: u64
  ev_state :: job_state

definition write_text_to_file :: "filesys \<Rightarrow> path \<Rightarrow> bytes \<Rightarrow> filesys \<times> bool" where
  "write_text_to_file fs p text =
     (case fopen_wb fs p of None \<Rightarrow> (fs, False) | Some fs1 \<Rightarrow>
      case (if length text > 0 then fwrite fs1 p [] text else ([], 0)) of (fp, n) \<Rightarrow>
      if length text > 0 \<and> n \<noteq> length text then (fst (fclose_w fs1 p fp), False)
      else fclose_w fs1 p fp)"

definition write_bin_to_file :: "filesys \<Rightarrow> path \<Rightarrow> bytes \<Rightarrow> filesys \<times> bool" where
  "write_bin_to_file fs p data =
     (case fopen_wb fs p of None \<Rightarrow> (fs, False) | Some fs1 \<Rightarrow>
      case (if length data > 0 then fwrite fs1 p [] data else ([], 0)) of (fp, n) \<Rightarrow>
      if length data > 0 \<and> n \<noteq> length data then (fst (fclose_w fs1 p fp), False)
      else fclose_w fs1 p fp)"

definition read_text_file :: "filesys \<Rightarrow> path \<Rightarrow> nat \<Rightarrow> bytes option" where
  "read_text_file fs p buf_size =
     (case fopen_rb fs p of None \<Rightarrow> None | Some f \<Rightarrow> Some (take (buf_size - 1) f))"

definition MAX_TEXT_BYTES :: nat where "MAX_TEXT_BYTES = 1024 * 1024"

text \<open>A request that has arrived by poll \<open>k\<close> has gone through \<^verbatim>\<open>job_request_cancel\<close>.\<close>

definition poll_job :: "wenv \<Rightarrow> nat \<Rightarrow> job \<Rightarrow> job" where
  "poll_job we k j = (if we_cancel we k then fst (job_request_cancel j) else j)"

definition finish_job :: "wenv \<Rightarrow> job_state \<Rightarrow> string \<Rightarrow> job \<Rightarrow> job" where
  "finish_job we state result j = job_set_state (we_end we) state (job_set_result result j)"

text \<open>The five steps of \<^verbatim>\<open>process_text_job\<close>: \<open>None\<close> when no cancellation was seen.\<close>

fun text_steps :: "wenv \<Rightarrow> nat \<Rightarrow> nat \<Rightarrow> job \<Rightarrow> job \<times> bool" where
  "text_steps we step 0 j = (j, False)"
| "text_steps we step (Suc n) j =
     (let j1 = poll_job we step j in
      if j_cancel_requested j1 then (finish_job we JOB_STATE_CANCELED ''job canceled'' j1, True)
      else text_steps we (Suc step) n j1)"

definition process_text_job :: "wenv \<Rightarrow> filesys \<Rightarrow> job \<Rightarrow> filesys \<times> job \<times> bool" where
  "process_text_job we fs j =
     (let payload = job_get_payload j [] MAX_JOB_PAYLOAD in
      case text_steps we 0 5 j of (j1, canceled) \<Rightarrow>
      if canceled then (fs, j1, True)
      else let final_result = snd (snprintf_fmt MAX_JOB_RESULT
                 (''processed_by_worker_'' @ udec (we_index we) @ '': '' @ payload))
           in (fs, finish_job we JOB_STATE_DONE final_result j1, True))"

definition process_validate_image_job :: "wenv \<Rightarrow> filesys \<Rightarrow> job \<Rightarrow> filesys \<times> job \<times> bool" where
  "process_validate_image_job we fs j =
     (let input_path = job_get_input_path j [] MAX_JOB_PATH in
      case png_read_metadata (we_lp we) fs (Some input_path) of
        None \<Rightarrow> (fs, finish_job we JOB_STATE_FAILED ''INVALID PNG'' j, False)
      | Some md \<Rightarrow>
          let result = snd (snprintf_fmt MAX_JOB_RESULT
                (''VALID PNG width='' @ udec (unat (md_width md)) @ '' height='' @ udec (unat (md_height md))
                  @ '' bit_depth='' @ sdec (md_bit_depth md)
                  @ '' color='' @ png_color_type_to_string (md_color_type md)
                  @ '' channels='' @ sdec (md_channels md)))
          in (fs, finish_job we JOB_STATE_DONE result j, True))"

definition process_analyze_capacity_job :: "wenv \<Rightarrow> filesys \<Rightarrow> job \<Rightarrow> filesys \<times> job \<times> bool" where
  "process_analyze_capacity_job we fs j =
     (let input_path = job_get_input_path j [] MAX_JOB_PATH in
      case stego_get_capacity (we_lp we) (we_al we) fs (Some input_path) of
        Inl rc \<Rightarrow>
          let msg = snd (snprintf_fmt MAX_JOB_RESULT (''capacity error: '' @ stego_strerror rc))
          in (fs, finish_job we JOB_STATE_FAILED msg j, False)
      | Inr cap \<Rightarrow>
          let result = snd (snprintf_fmt MAX_JOB_RESULT
                (''CAPACITY '' @ udec (cap_payload_max_bytes cap) @ '' BYTES width='' @ udec (unat (cap_width cap))
                  @ '' height='' @ udec (unat (cap_height cap)) @ '' channels='' @ sdec (cap_channels cap)))
          in (fs, finish_job we JOB_STATE_DONE result j, True))"

text \<open>The size reported for an output file: 0 when \<^verbatim>\<open>stat\<close> fails.\<close>

definition reported_size :: "filesys \<Rightarrow> path \<Rightarrow> nat" where
  "reported_size fs p = (case get_file_size_bytes fs p of None \<Rightarrow> 0 | Some n \<Rightarrow> n)"

definition process_encode_text_job :: "wenv \<Rightarrow> filesys \<Rightarrow> job \<Rightarrow> filesys \<times> job \<times> bool" where
  "process_encode_text_job we fs j =
     (let png_path = job_get_input_path j [] MAX_JOB_PATH;
          text_path = job_get_stored_path j [] MAX_JOB_PATH in
      case storage_make_result_path (we_st we) (j_id j) (Some ''png'') MAX_JOB_PATH of
        None \<Rightarrow> (fs, finish_job we JOB_STATE_FAILED ''path build failed'' j, False)
      | Some out_path \<Rightarrow>
      case read_text_file fs text_path (MAX_TEXT_BYTES + 1) of
        None \<Rightarrow> (fs, finish_job we JOB_STATE_FAILED ''cannot read text payload'' j, False)
      | Some text \<Rightarrow>
      let j1 = poll_job we 0 j in
      if j_cancel_requested j1 then (fs, finish_job we JOB_STATE_CANCELED ''job canceled'' j1, True)
      else case stego_encode_text (we_lp we) (we_al we) fs (Some png_path) (Some out_path) (Some text) (length text) of
        (rc, fs1) \<Rightarrow>
      if rc \<noteq> STEGO_OK then
        let msg = snd (snprintf_fmt MAX_JOB_RESULT (''encode_text failed: '' @ stego_strerror rc))
        in (fs1, finish_job we JOB_STATE_FAILED msg j1, False)
      else let sz = reported_size fs1 out_path;
               j2 = job_set_output_path out_path j1;
               j3 = job_set_result_meta JOB_RESULT_PNG (of_nat sz) (Some ''stego_result.png'') j2;
               msg = snd (snprintf_fmt MAX_JOB_RESULT
                 (''encoded text_bytes='' @ udec (length text) @ '' output='' @ out_path @ '' size='' @ udec sz))
           in (fs1, finish_job we JOB_STATE_DONE msg j3, True))"

definition process_encode_file_job :: "wenv \<Rightarrow> filesys \<Rightarrow> job \<Rightarrow> filesys \<times> job \<times> bool" where
  "process_encode_file_job we fs j =
     (let png_path = job_get_input_path j [] MAX_JOB_PATH;
          file_path = job_get_stored_path j [] MAX_JOB_PATH;
          filename = job_get_payload j [] MAX_JOB_FILENAME in
      case storage_make_result_path (we_st we) (j_id j) (Some ''png'') MAX_JOB_PATH of
        None \<Rightarrow> (fs, finish_job we JOB_STATE_FAILED ''path build failed'' j, False)
      | Some out_path \<Rightarrow>
      let j1 = poll_job we 0 j in
      if j_cancel_requested j1 then (fs, finish_job we JOB_STATE_CANCELED ''job canceled'' j1, True)
      else case stego_encode_file (we_lp we) (we_al we) fs (Some png_path) (Some out_path) (Some file_path)
             (if filename \<noteq> [] then Some filename else None) of (rc, fs1) \<Rightarrow>
      if rc \<noteq> STEGO_OK then
        let msg = snd (snprintf_fmt MAX_JOB_RESULT (''encode_file failed: '' @ stego_strerror rc))
        in (fs1, finish_job we JOB_STATE_FAILED msg j1, False)
      else let sz = reported_size fs1 out_path;
               j2 = job_set_output_path out_path j1;
               j3 = job_set_result_meta JOB_RESULT_PNG (of_nat sz) (Some ''stego_result.png'') j2;
               msg = snd (snprintf_fmt MAX_JOB_RESULT
                 (''encoded file='' @ filename @ '' output='' @ out_path @ '' size='' @ udec sz))
           in (fs1, finish_job we JOB_STATE_DONE msg j3, True))"

text \<open>The bytes \<^verbatim>\<open>ex.data\<close>, \<^verbatim>\<open>ex.data_len\<close> of an extraction.\<close>

definition ex_bytes :: "stego_extracted \<Rightarrow> bytes" where
  "ex_bytes ex = (case ex_data ex of None \<Rightarrow> [] | Some d \<Rightarrow> d)"

definition process_decode_job :: "wenv \<Rightarrow> filesys \<Rightarrow> job \<Rightarrow> filesys \<times> job \<times> bool" where
  "process_decode_job we fs j =
     (let png_path = job_get_input_path j [] MAX_JOB_PATH;
          j1 = poll_job we 0 j in
      if j_cancel_requested j1 then (fs, finish_job we JOB_STATE_CANCELED ''job canceled'' j1, True)
      else case stego_decode (we_lp we) (we_al we) fs (Some png_path) of
        Inl rc \<Rightarrow>
          let msg = snd (snprintf_fmt MAX_JOB_RESULT (''decode failed: '' @ stego_strerror rc))
          in (fs, finish_job we JOB_STATE_FAILED msg j1, False)
      | Inr ex \<Rightarrow>
      let suffix = (if ex_type ex = STEGO_PAYLOAD_TEXT then ''txt'' else ''bin'') in
      case storage_make_result_path (we_st we) (j_id j1) (Some suffix) MAX_JOB_PATH of
        None \<Rightarrow> (fs, finish_job we JOB_STATE_FAILED ''path build failed'' j1, False)
      | Some out_path \<Rightarrow>
      case (if ex_type ex = STEGO_PAYLOAD_TEXT then write_text_to_file fs out_path (ex_bytes ex)
            else write_bin_to_file fs out_path (ex_bytes ex)) of (fs1, ok) \<Rightarrow>
      if \<not> ok then (fs1, finish_job we JOB_STATE_FAILED ''cannot write decoded result'' j1, False)
      else let j2 = job_set_output_path out_path j1;
               kind = (if ex_type ex = STEGO_PAYLOAD_TEXT then JOB_RESULT_TEXT else JOB_RESULT_FILE);
               name = (if ex_type ex = STEGO_PAYLOAD_TEXT then ''decoded.txt'' else ex_filename ex);
               j3 = job_set_result_meta kind (of_nat (ex_data_len ex)) (Some name) j2;
               msg = snd (snprintf_fmt MAX_JOB_RESULT
                 (if ex_type ex = STEGO_PAYLOAD_TEXT then ''decoded text bytes='' @ udec (ex_data_len ex)
                  else ''decoded file='' @ ex_filename ex @ '' bytes='' @ udec (ex_data_len ex)))
           in (fs1, finish_job we JOB_STATE_DONE msg j3, True))"

text \<open>
  One round of \<^verbatim>\<open>worker_main\<close>, in two parts: from the pop to the moment the job is running (or found
  cancelled, with its event), and from there to the event at the end.
\<close>

definition worker_take :: "wenv \<Rightarrow> job \<Rightarrow> job \<times> worker_event option" where
  "worker_take we j =
     (if j_cancel_requested j then
        (finish_job we JOB_STATE_CANCELED ''job canceled'' j,
         Some \<lparr>ev_job_id = j_id j, ev_state = JOB_STATE_CANCELED\<rparr>)
      else (job_set_state (we_start we) JOB_STATE_RUNNING j, None))"

definition worker_process :: "wenv \<Rightarrow> filesys \<Rightarrow> job \<Rightarrow> filesys \<times> job \<times> bool" where
  "worker_process we fs j =
     (case j_type j of
        JOB_TYPE_TEXT \<Rightarrow> process_text_job we fs j
      | JOB_TYPE_VALIDATE_IMAGE \<Rightarrow> process_validate_image_job we fs j
      | JOB_TYPE_ANALYZE_CAPACITY \<Rightarrow> process_analyze_capacity_job we fs j
      | JOB_TYPE_ENCODE_TEXT \<Rightarrow> process_encode_text_job we fs j
      | JOB_TYPE_ENCODE_FILE \<Rightarrow> process_encode_file_job we fs j
      | JOB_TYPE_DECODE \<Rightarrow> process_decode_job we fs j
      | JOB_TYPE_UNKNOWN \<Rightarrow> (fs, finish_job we JOB_STATE_FAILED ''unknown job type'' j, False))"

definition worker_finish :: "wenv \<Rightarrow> filesys \<Rightarrow> job \<Rightarrow> filesys \<times> job \<times> worker_event" where
  "worker_finish we fs j =
     (case worker_process we fs j of (fs1, j1, ok) \<Rightarrow>
      let j2 = (if \<not> ok \<and> j_state j1 = JOB_STATE_RUNNING then finish_job we JOB_STATE_FAILED ''worker failed'' j1 else j1)
      in (fs1, j2, \<lparr>ev_job_id = j_id j2, ev_state = j_state j2\<rparr>))"

definition worker_round :: "wenv \<Rightarrow> filesys \<Rightarrow> job \<Rightarrow> filesys \<times> job \<times> worker_event" where
  "worker_round we fs j =
     (case worker_take we j of
        (j1, Some ev) \<Rightarrow> (fs, j1, ev)
      | (j1, None) \<Rightarrow> worker_finish we fs j1)"

section \<open>Every run ends\<close>

lemma finish_job_fields [frame_simps]:
  "j_state (finish_job we st r j) = st" "j_id (finish_job we st r j) = j_id j"
  "j_owner_fd (finish_job we st r j) = j_owner_fd j" "j_type (finish_job we st r j) = j_type j"
  "j_result (finish_job we st r j) = snprintf_s MAX_JOB_RESULT r"
  "j_output_path (finish_job we st r j) = j_output_path j" "j_result_kind (finish_job we st r j) = j_result_kind j"
  "j_result_size (finish_job we st r j) = j_result_size j" "j_cancel_requested (finish_job we st r j) = j_cancel_requested j"
  by (simp_all add: finish_job_def job_set_state_def job_set_result_def Let_def)

lemma finish_job_fits [inv_intros]: "job_fits j \<Longrightarrow> job_fits (finish_job we st r j)"
  by (simp add: finish_job_def job_ops_fits)

lemma poll_job_fields [frame_simps]:
  "j_id (poll_job we k j) = j_id j" "j_state (poll_job we k j) = j_state j" "j_type (poll_job we k j) = j_type j"
  "j_owner_fd (poll_job we k j) = j_owner_fd j"
  by (simp_all add: poll_job_def job_request_cancel_def)

lemma poll_job_fits [inv_intros]: "job_fits j \<Longrightarrow> job_fits (poll_job we k j)"
  by (simp add: poll_job_def job_ops_fits)

lemma job_ops_owner [frame_simps]:
  "j_owner_fd (job_set_output_path p j) = j_owner_fd j" "j_owner_fd (job_set_result_meta k n f j) = j_owner_fd j"
  by (simp_all add: job_set_output_path_def job_set_result_meta_def)

text \<open>
  The outcome of a run on \<open>j\<close>: the same job, in a final state, failed exactly when the processor
  returned an error, its strings within bounds.
\<close>

definition run_ends :: "job \<Rightarrow> filesys \<times> job \<times> bool \<Rightarrow> bool" where
  "run_ends j r \<longleftrightarrow> (case r of (fs1, j1, ok) \<Rightarrow>
     j_id j1 = j_id j \<and> j_owner_fd j1 = j_owner_fd j \<and> finished (j_state j1) \<and>
     (ok \<longleftrightarrow> j_state j1 \<noteq> JOB_STATE_FAILED) \<and> (job_fits j \<longrightarrow> job_fits j1))"

lemma text_steps_ends:
  "text_steps we k n j = (j1, c) \<Longrightarrow>
     j_id j1 = j_id j \<and> j_owner_fd j1 = j_owner_fd j \<and> (job_fits j \<longrightarrow> job_fits j1) \<and>
     (c \<longrightarrow> j_state j1 = JOB_STATE_CANCELED)"
  by (induction n arbitrary: k j) (fastforce simp: Let_def frame_simps intro: inv_intros split: if_splits)+

lemma process_text_ends: "run_ends j (process_text_job we fs j)"
  by (auto simp: run_ends_def process_text_job_def Let_def frame_simps finished_def intro: inv_intros
      dest: text_steps_ends split: prod.split)

lemma process_validate_ends: "run_ends j (process_validate_image_job we fs j)"
  by (auto simp: run_ends_def process_validate_image_job_def Let_def frame_simps finished_def intro: inv_intros
      split: option.split)

lemma process_capacity_ends: "run_ends j (process_analyze_capacity_job we fs j)"
  by (auto simp: run_ends_def process_analyze_capacity_job_def Let_def frame_simps finished_def intro: inv_intros
      split: sum.split)

lemma process_encode_text_ends: "run_ends j (process_encode_text_job we fs j)"
  by (auto simp: run_ends_def process_encode_text_job_def Let_def frame_simps finished_def
      intro!: finish_job_fits job_ops_fits poll_job_fits split: option.split prod.split)

lemma process_encode_file_ends: "run_ends j (process_encode_file_job we fs j)"
  by (auto simp: run_ends_def process_encode_file_job_def Let_def frame_simps finished_def
      intro!: finish_job_fits job_ops_fits poll_job_fits split: option.split prod.split)

lemma process_decode_ends: "run_ends j (process_decode_job we fs j)"
  by (auto simp: run_ends_def process_decode_job_def Let_def frame_simps finished_def
      intro!: finish_job_fits job_ops_fits poll_job_fits split: option.split prod.split sum.split)

lemma worker_process_ends: "run_ends j (worker_process we fs j)"
  by (cases "j_type j")
    (simp_all add: worker_process_def process_text_ends process_validate_ends process_capacity_ends
      process_encode_text_ends process_encode_file_ends process_decode_ends,
      auto simp: run_ends_def frame_simps finished_def intro: inv_intros)

text \<open>So the fallback after the switch never applies.\<close>

lemma worker_finish_ends:
  assumes "worker_finish we fs j = (fs1, j1, ev)"
  shows "finished (j_state j1)" "j_id j1 = j_id j" "j_owner_fd j1 = j_owner_fd j" "job_fits j \<Longrightarrow> job_fits j1"
    "ev = \<lparr>ev_job_id = j_id j, ev_state = j_state j1\<rparr>"
    "\<exists>ok. worker_process we fs j = (fs1, j1, ok)"
proof -
  obtain fs2 j2 ok where p: "worker_process we fs j = (fs2, j2, ok)" by (cases "worker_process we fs j") auto
  have "run_ends j (fs2, j2, ok)" using worker_process_ends [of j we fs] p by simp
  then have e: "finished (j_state j2)" "j_id j2 = j_id j" "j_owner_fd j2 = j_owner_fd j" "job_fits j \<Longrightarrow> job_fits j2"
    by (simp_all add: run_ends_def)
  then have "j_state j2 \<noteq> JOB_STATE_RUNNING" by (auto simp: finished_def)
  with assms p have "fs1 = fs2" "j1 = j2" "ev = \<lparr>ev_job_id = j_id j, ev_state = j_state j1\<rparr>"
    using e(2) by (auto simp: worker_finish_def Let_def)
  with e p show "finished (j_state j1)" "j_id j1 = j_id j" "j_owner_fd j1 = j_owner_fd j"
    "job_fits j \<Longrightarrow> job_fits j1" "ev = \<lparr>ev_job_id = j_id j, ev_state = j_state j1\<rparr>"
    "\<exists>ok. worker_process we fs j = (fs1, j1, ok)"
    by auto
qed

section \<open>Which files a run touches\<close>

lemma encode_text_files:
  "q \<noteq> out \<Longrightarrow> stego_encode_text lp al fs i (Some out) t n = (rc, fs1) \<Longrightarrow> fs_files fs1 q = fs_files fs q"
  using encode_common_only_output [of fs out lp al i STEGO_PAYLOAD_TEXT None t n]
  by (auto simp: stego_encode_text_def only_output_def split: if_splits)

lemma encode_file_files:
  "q \<noteq> out \<Longrightarrow> stego_encode_file lp al fs i (Some out) pp name = (rc, fs1) \<Longrightarrow> fs_files fs1 q = fs_files fs q"
proof -
  have "only_output fs out (stego_encode_file lp al fs i (Some out) pp name)"
    by (simp add: stego_encode_file_def Let_def only_output_refl encode_common_only_output split: option.split)
  then show "q \<noteq> out \<Longrightarrow> stego_encode_file lp al fs i (Some out) pp name = (rc, fs1) \<Longrightarrow> fs_files fs1 q = fs_files fs q"
    by (simp add: only_output_def)
qed

lemma write_file_files:
  "q \<noteq> p \<Longrightarrow> write_text_to_file fs p d = (fs1, ok) \<Longrightarrow> fs_files fs1 q = fs_files fs q"
  "q \<noteq> p \<Longrightarrow> write_bin_to_file fs p d = (fs1, ok) \<Longrightarrow> fs_files fs1 q = fs_files fs q"
  using fclose_w_other [of q p "set_file fs p []"]
  by (auto simp: write_text_to_file_def write_bin_to_file_def fopen_wb_def frame_simps
      split: option.splits prod.splits if_splits) (metis fst_conv)+

lemma write_bin_is_text: "write_bin_to_file = write_text_to_file"
  by (intro ext) (simp add: write_text_to_file_def write_bin_to_file_def)

lemma worker_process_files:
  assumes "worker_process we fs j = (fs1, j1, ok)"
    and q: "\<And>s. q \<noteq> job_path (g_results (we_st we)) (j_id j) s"
  shows "fs_files fs1 q = fs_files fs q"
proof -
  have out: "q \<noteq> p" if "storage_make_result_path (we_st we) (j_id j) s n = Some p" for s n p
    using make_result_path_Some [OF that] q by simp
  show ?thesis
  proof (cases "j_type j")
    case JOB_TYPE_TEXT
    then show ?thesis using assms(1)
      by (auto simp: worker_process_def process_text_job_def Let_def split: prod.splits if_splits)
  next
    case JOB_TYPE_VALIDATE_IMAGE
    then show ?thesis using assms(1)
      by (auto simp: worker_process_def process_validate_image_job_def Let_def split: option.splits)
  next
    case JOB_TYPE_ANALYZE_CAPACITY
    then show ?thesis using assms(1)
      by (auto simp: worker_process_def process_analyze_capacity_job_def Let_def split: sum.splits)
  next
    case JOB_TYPE_ENCODE_TEXT
    then show ?thesis using assms(1)
      by (auto simp: worker_process_def process_encode_text_job_def Let_def dest: encode_text_files [rotated, OF _ out]
          split: option.splits prod.splits if_splits)
  next
    case JOB_TYPE_ENCODE_FILE
    then show ?thesis using assms(1)
      by (auto simp: worker_process_def process_encode_file_job_def Let_def dest: encode_file_files [rotated, OF _ out]
          split: option.splits prod.splits if_splits)
  next
    case JOB_TYPE_DECODE
    then show ?thesis using assms(1)
      by (auto simp: worker_process_def process_decode_job_def Let_def write_bin_is_text frame_simps
          dest: write_file_files(1) [rotated, OF _ out]
          split: option.splits prod.splits if_splits sum.splits)
  next
    case JOB_TYPE_UNKNOWN
    then show ?thesis using assms(1) by (simp add: worker_process_def)
  qed
qed

section \<open>Properties of a worker\<close>

text \<open>
  C14: a worker never leaves a job hanging. Whatever its type, its files, the memory and the cancel
  requests are, a round of \<^verbatim>\<open>worker_main\<close> ends with the job done, failed or cancelled, reports exactly
  that state under the job's id, and has changed no file but the results of this job.
\<close>

theorem worker_round_ends:
  assumes "worker_round we fs j = (fs1, j1, ev)"
  shows "finished (j_state j1) \<and> j_id j1 = j_id j \<and> ev = \<lparr>ev_job_id = j_id j, ev_state = j_state j1\<rparr>
    \<and> ((\<forall>s. q \<noteq> job_path (g_results (we_st we)) (j_id j) s) \<longrightarrow> fs_files fs1 q = fs_files fs q)"
proof (cases "j_cancel_requested j")
  case True
  then show ?thesis using assms
    by (auto simp: worker_round_def worker_take_def frame_simps finished_def)
next
  case False
  let ?j = "job_set_state (we_start we) JOB_STATE_RUNNING j"
  have w: "worker_finish we fs ?j = (fs1, j1, ev)"
    using assms False by (simp add: worker_round_def worker_take_def)
  obtain ok where p: "worker_process we fs ?j = (fs1, j1, ok)" using worker_finish_ends(6) [OF w] by blast
  show ?thesis
    using worker_finish_ends(1,2,5) [OF w] worker_process_files [OF p, of q] by (auto simp: frame_simps)
qed

definition calm_env :: wenv where
  "calm_env = \<lparr>we_index = 0, we_lp = raw_png, we_al = all_granted, we_st = storage_default,
     we_start = zero_time, we_end = zero_time, we_cancel = (\<lambda>_. False)\<rparr>"

theorem worker_round_ends_witness:
  "\<exists>fs1 j1 ev. worker_round calm_env disk1 zero_job = (fs1, j1, ev) \<and> finished (j_state j1)"
proof -
  obtain fs1 j1 ev where r: "worker_round calm_env disk1 zero_job = (fs1, j1, ev)" by (metis prod_cases3)
  with worker_round_ends [OF r] show ?thesis by blast
qed

text \<open>
  A cancellation requested while the job waits in the queue is always honoured: the worker that
  takes the job marks it cancelled and does not touch any file.
\<close>

theorem queued_cancel_honoured:
  assumes "j_state j = JOB_STATE_QUEUED"
  shows "\<exists>j1 ev. worker_round we fs (fst (job_request_cancel j)) = (fs, j1, ev)
    \<and> j_state j1 = JOB_STATE_CANCELED \<and> j_result j1 = ''job canceled'' \<and> ev_state ev = JOB_STATE_CANCELED"
  using assms
  by (simp add: worker_round_def worker_take_def job_request_cancel_def cancellable_def frame_simps
      snprintf_s_def cstr_def MAX_JOB_RESULT_def)

theorem queued_cancel_honoured_witness:
  "\<exists>j1 ev. worker_round calm_env disk1 (fst (job_request_cancel zero_job)) = (disk1, j1, ev)
    \<and> j_state j1 = JOB_STATE_CANCELED"
proof -
  have "j_state zero_job = JOB_STATE_QUEUED" by (simp add: zero_job_def)
  from queued_cancel_honoured [OF this] show ?thesis by blast
qed

subsection \<open>From an encoding job to a decoding job\<close>

lemma result_path_clean:
  assumes "storage_make_result_path st i (Some s) MAX_JOB_PATH = Some p" "NUL \<notin> set (g_results st)" "NUL \<notin> set s"
  shows "snprintf_s MAX_JOB_PATH p = p"
proof (rule snprintf_s_id)
  show "NUL \<notin> set p"
    using make_result_path_Some [OF assms(1)] assms(2,3) udec_no_NUL [of "unat i"] by (auto simp: job_path_def)
  show "length p < MAX_JOB_PATH"
    using assms(1) by (auto simp: storage_make_result_path_def snprintf_fmt_def Let_def split: if_splits)
qed

lemma encode_text_job_done:
  assumes "process_encode_text_job we fs j = (fs1, j1, ok)" "j_state j1 = JOB_STATE_DONE"
    and "NUL \<notin> set (g_results (we_st we))"
  shows "\<exists>out f. storage_make_result_path (we_st we) (j_id j) (Some ''png'') MAX_JOB_PATH = Some out \<and> j_output_path j1 = out
    \<and> fopen_rb fs (job_get_stored_path j [] MAX_JOB_PATH) = Some f
    \<and> stego_encode_text (we_lp we) (we_al we) fs (Some (job_get_input_path j [] MAX_JOB_PATH)) (Some out)
        (Some (take MAX_TEXT_BYTES f)) (length (take MAX_TEXT_BYTES f)) = (STEGO_OK, fs1)"
  using assms result_path_clean [OF _ assms(3), of "j_id j" "''png''"]
  by (auto simp: process_encode_text_job_def read_text_file_def Let_def frame_simps job_set_output_path_def
      job_set_result_meta_def split: option.splits prod.splits if_splits)

lemma write_text_accepts:
  "accepts fs p (length d) \<Longrightarrow> write_text_to_file fs p d = (set_file fs p d, True)"
  by (simp add: write_text_to_file_def fopen_wb_def accepts_def fwrite_def fclose_w_def frame_simps)

lemma decode_job_of_text:
  assumes "stego_decode (we_lp we) (we_al we) fs (Some (job_get_input_path j [] MAX_JOB_PATH)) = Inr ex"
    and "ex = \<lparr>ex_type = STEGO_PAYLOAD_TEXT, ex_filename = [], ex_data = (if t = [] then None else Some t),
         ex_data_len = length t\<rparr>"
    and "storage_make_result_path (we_st we) (j_id j) (Some ''txt'') MAX_JOB_PATH = Some out"
    and "NUL \<notin> set (g_results (we_st we))" "accepts fs out (length t)"
    and "\<not> j_cancel_requested j" "\<not> we_cancel we 0"
  shows "\<exists>j1. process_decode_job we fs j = (set_file fs out t, j1, True) \<and> j_state j1 = JOB_STATE_DONE
    \<and> j_output_path j1 = out \<and> j_result_kind j1 = JOB_RESULT_TEXT \<and> j_result_size j1 = of_nat (length t)"
proof -
  have d: "ex_bytes ex = t" by (simp add: ex_bytes_def assms(2))
  have p: "poll_job we 0 j = j" by (simp add: poll_job_def assms(7))
  have o: "snprintf_s MAX_JOB_PATH out = out" by (rule result_path_clean [OF assms(3,4)]) simp
  show ?thesis
    using assms(1,3,6) d write_text_accepts [OF assms(5)]
    by (simp add: process_decode_job_def p Let_def assms(2) frame_simps job_set_output_path_def
        job_set_result_meta_def o)
qed

lemma running_paths [frame_simps]:
  "j_type (job_set_state now st j) = j_type j" "j_cancel_requested (job_set_state now st j) = j_cancel_requested j"
  "job_get_input_path (job_set_state now st j) = job_get_input_path j"
  "job_get_stored_path (job_set_state now st j) = job_get_stored_path j"
  by (simp_all add: job_set_state_def Let_def job_get_input_path_def job_get_stored_path_def)

lemma worker_round_process:
  assumes "\<not> j_cancel_requested j" "worker_process we fs (job_set_state (we_start we) JOB_STATE_RUNNING j) = (fs1, j1, ok)"
  shows "\<exists>ev. worker_round we fs j = (fs1, j1, ev)"
proof -
  obtain ev fs2 j2 where w: "worker_finish we fs (job_set_state (we_start we) JOB_STATE_RUNNING j) = (fs2, j2, ev)"
    by (metis prod_cases3)
  with worker_finish_ends(6) [OF w] assms show ?thesis
    by (auto simp: worker_round_def worker_take_def)
qed

lemma worker_round_done:
  assumes "worker_round we fs j = (fs1, j1, ev)" "j_state j1 = JOB_STATE_DONE"
  shows "\<exists>ok. worker_process we fs (job_set_state (we_start we) JOB_STATE_RUNNING j) = (fs1, j1, ok)"
proof (cases "j_cancel_requested j")
  case True
  then show ?thesis using assms by (auto simp: worker_round_def worker_take_def frame_simps)
next
  case False
  then have "worker_finish we fs (job_set_state (we_start we) JOB_STATE_RUNNING j) = (fs1, j1, ev)"
    using assms(1) by (simp add: worker_round_def worker_take_def)
  from worker_finish_ends(6) [OF this] show ?thesis .
qed

text \<open>
  C8: what one job hides another job recovers. If an \<^verbatim>\<open>ENCODE_TEXT\<close> job ends as done, then a later
  \<^verbatim>\<open>DECODE\<close> job on its output file, undisturbed and with memory and disk space, ends as done with a text
  result of the right size, and its output file holds exactly the text that was to be hidden.
\<close>

theorem encode_job_then_decode_job:
  assumes lib: "libpng_rows (we_lp we1)" "libpng_lossless (we_lp we1)" "png_read_struct_ok (we_lp we1)"
      "png_read_info_struct_ok (we_lp we1)"
    and env: "we_lp we2 = we_lp we1" "we_al we2 = all_granted" "we_st we2 = we_st we1" "\<not> we_cancel we2 0"
      "NUL \<notin> set (g_results (we_st we1))" "\<forall>p. fs_readable fs p \<and> fs_lost fs p = None"
    and e: "j_type e = JOB_TYPE_ENCODE_TEXT" "fs_files fs (job_get_stored_path e [] MAX_JOB_PATH) = Some t"
      "length t \<le> MAX_TEXT_BYTES"
    and run: "worker_round we1 fs e = (fs1, e1, ev1)" "j_state e1 = JOB_STATE_DONE"
    and d: "j_type d = JOB_TYPE_DECODE" "j_input_path d = j_output_path e1" "\<not> j_cancel_requested d"
    and out: "storage_make_result_path (we_st we1) (j_id d) (Some ''txt'') MAX_JOB_PATH = Some out"
      "accepts fs1 out (length t)"
  shows "\<exists>fs2 d1 ev2. worker_round we2 fs1 d = (fs2, d1, ev2) \<and> j_state d1 = JOB_STATE_DONE
    \<and> j_result_kind d1 = JOB_RESULT_TEXT \<and> j_result_size d1 = of_nat (length t)
    \<and> fs_files fs2 (j_output_path d1) = Some t"
proof -
  let ?e = "job_set_state (we_start we1) JOB_STATE_RUNNING e" and ?d = "job_set_state (we_start we2) JOB_STATE_RUNNING d"
  obtain ok where "process_encode_text_job we1 fs ?e = (fs1, e1, ok)"
    using worker_round_done [OF run] e(1) by (auto simp: worker_process_def frame_simps)
  from encode_text_job_done [OF this run(2) env(5)] obtain png f where
    png: "storage_make_result_path (we_st we1) (j_id e) (Some ''png'') MAX_JOB_PATH = Some png" "j_output_path e1 = png"
    and f: "fopen_rb fs (job_get_stored_path e [] MAX_JOB_PATH) = Some f"
    and enc: "stego_encode_text (we_lp we1) (we_al we1) fs (Some (job_get_input_path e [] MAX_JOB_PATH)) (Some png)
        (Some (take MAX_TEXT_BYTES f)) (length (take MAX_TEXT_BYTES f)) = (STEGO_OK, fs1)"
    by (auto simp: frame_simps)
  have ft: "take MAX_TEXT_BYTES f = t" using f e(2,3) env(6) by (simp add: fopen_rb_def)
  have small: "length t < 2 ^ 32" using e(3) by (simp add: MAX_TEXT_BYTES_def)
  have "encode_common (we_lp we1) (we_al we1) fs (Some (job_get_input_path e [] MAX_JOB_PATH)) (Some png)
      STEGO_PAYLOAD_TEXT None (Some t) (length t) = (STEGO_OK, fs1)"
    using enc ft by (simp add: stego_encode_text_def)
  then have "stego_decode (we_lp we1) all_granted fs1 (Some png) = Inr (extracted_of STEGO_PAYLOAD_TEXT [] t)"
    using encode_common_decode [OF lib _ _ refl small, of fs png] env(6) by (simp add: stored_name_def)
  moreover have "job_get_input_path ?d [] MAX_JOB_PATH = png"
    using result_path_clean [OF png(1) env(5)] d(2) png(2)
    by (simp add: job_get_input_path_def copy_out_def frame_simps MAX_JOB_PATH_def job_set_state_def Let_def)
  ultimately have dec: "stego_decode (we_lp we2) (we_al we2) fs1 (Some (job_get_input_path ?d [] MAX_JOB_PATH))
      = Inr (extracted_of STEGO_PAYLOAD_TEXT [] t)" by (simp add: env(1,2))
  obtain d1 where "process_decode_job we2 fs1 ?d = (set_file fs1 out t, d1, True)"
    and d1: "j_state d1 = JOB_STATE_DONE" "j_output_path d1 = out" "j_result_kind d1 = JOB_RESULT_TEXT"
      "j_result_size d1 = of_nat (length t)"
    using decode_job_of_text [OF dec _ _ _ out(2)] out(1) env(3-5) d(3) by (auto simp: frame_simps extracted_of_def)
  then have "worker_process we2 fs1 ?d = (set_file fs1 out t, d1, True)"
    using d(1) by (simp add: worker_process_def frame_simps)
  from worker_round_process [OF d(3) this] d1 show ?thesis by (auto simp: frame_simps)
qed

lemma encode_accepts: "accepts (snd (encode_common lp al fs i out type fn p n)) = accepts fs"
  by (intro ext) (auto simp: accepts_def encode_common_def Let_def frame_simps split: sum.split option.split)

definition disk3 :: filesys where
  "disk3 = set_file disk1 ''t.txt'' [104, 105]"

definition encode_job0 :: job where
  "encode_job0 = zero_job\<lparr>j_id := 1, j_type := JOB_TYPE_ENCODE_TEXT, j_input_path := ''in.png'', j_stored_path := ''t.txt''\<rparr>"

definition decode_job0 :: job where
  "decode_job0 = zero_job\<lparr>j_id := 2, j_type := JOB_TYPE_DECODE, j_input_path := ''storage/results/job_1.png''\<rparr>"

lemma job0_paths:
  "storage_make_result_path storage_default 1 (Some ''png'') MAX_JOB_PATH = Some ''storage/results/job_1.png''"
  "storage_make_result_path storage_default 2 (Some ''txt'') MAX_JOB_PATH = Some ''storage/results/job_2.txt''"
  by (simp_all add: storage_make_result_path_def storage_default_def snprintf_fmt_def job_path_def MAX_JOB_PATH_def
      udec.simps digit_char_def char_of_def bit_Suc_0_iff Let_def)

lemma job0_fields:
  "job_get_input_path encode_job0 [] MAX_JOB_PATH = ''in.png''"
  "job_get_stored_path encode_job0 [] MAX_JOB_PATH = ''t.txt''"
  "j_id encode_job0 = 1" "j_type encode_job0 = JOB_TYPE_ENCODE_TEXT" "\<not> j_cancel_requested encode_job0"
  "j_id decode_job0 = 2" "j_type decode_job0 = JOB_TYPE_DECODE" "\<not> j_cancel_requested decode_job0"
  "j_input_path decode_job0 = ''storage/results/job_1.png''"
  by (simp_all add: encode_job0_def decode_job0_def zero_job_def job_get_input_path_def job_get_stored_path_def
      copy_out_def snprintf_s_def cstr_def MAX_JOB_PATH_def)

lemma disk3_encode:
  "\<exists>fs1. stego_encode_text raw_png all_granted disk3 (Some ''in.png'') (Some p) (Some [104, 105]) (length [104, 105 :: u8])
     = (STEGO_OK, fs1) \<and> accepts fs1 = accepts disk3"
proof -
  let ?r = "encode_common raw_png all_granted disk3 (Some ''in.png'') (Some p) STEGO_PAYLOAD_TEXT None
      (Some [104, 105]) (length [104, 105 :: u8])"
  obtain img where "png_load_rgb_or_rgba raw_png all_granted disk1 (Some ''in.png'') = Inr img"
    "same_pixels img rgb_8x8" using disk1_load by blast
  then have img: "png_load_rgb_or_rgba raw_png all_granted disk3 (Some ''in.png'') = Inr img" "same_pixels img rgb_8x8"
    by (simp_all add: png_load_rgb_or_rgba_def disk3_def frame_simps)
  obtain c where c: "build_container all_granted STEGO_PAYLOAD_TEXT None (Some [104, 105]) (length [104, 105 :: u8]) = Some c"
    "length c = 15 + length [104, 105 :: u8]" using build_text_container [of all_granted "[104, 105]"] by blast
  have "fst ?r = STEGO_OK"
    by (rule disk1_encode [OF img c(1)]) (simp_all add: c(2) disk3_def frame_simps)
  then have "?r = (STEGO_OK, snd ?r)" by (cases ?r) simp
  then show ?thesis
    using encode_accepts [of raw_png all_granted disk3 "Some ''in.png''" "Some p" STEGO_PAYLOAD_TEXT None]
    by (intro exI [of _ "snd ?r"]) (simp add: stego_encode_text_def)
qed

theorem encode_job_then_decode_job_witness:
  "\<exists>fs1 e1 ev1 fs2 d1 ev2. worker_round calm_env disk3 encode_job0 = (fs1, e1, ev1) \<and> j_state e1 = JOB_STATE_DONE
     \<and> worker_round calm_env fs1 decode_job0 = (fs2, d1, ev2) \<and> fs_files fs2 (j_output_path d1) = Some [104, 105]"
proof -
  let ?e = "job_set_state zero_time JOB_STATE_RUNNING encode_job0"
  let ?p = "''storage/results/job_1.png''"
  obtain fs1 where enc: "stego_encode_text raw_png all_granted disk3 (Some ''in.png'') (Some ?p) (Some [104, 105])
      (length [104, 105 :: u8]) = (STEGO_OK, fs1)" and acc: "accepts fs1 = accepts disk3"
    using disk3_encode by blast
  have tx: "read_text_file disk3 ''t.txt'' (MAX_TEXT_BYTES + 1) = Some [104, 105]"
    by (simp add: read_text_file_def disk3_def frame_simps MAX_TEXT_BYTES_def)
  have clean: "NUL \<notin> set (g_results storage_default)" by (simp add: storage_default_def)
  have out: "snprintf_s MAX_JOB_PATH ?p = ?p"
    by (rule result_path_clean [OF job0_paths(1) clean]) simp
  obtain e1 where "worker_process calm_env disk3 ?e = (fs1, e1, True)"
    and e1: "j_state e1 = JOB_STATE_DONE" "j_output_path e1 = ?p"
    using enc tx
    by (simp add: worker_process_def process_encode_text_job_def calm_env_def frame_simps job0_fields job0_paths Let_def
        poll_job_def job_set_output_path_def job_set_result_meta_def out)
  then obtain ev1 where run: "worker_round calm_env disk3 encode_job0 = (fs1, e1, ev1)"
    using worker_round_process [OF job0_fields(5), of calm_env disk3] by (auto simp: calm_env_def)
  have ok: "accepts fs1 ''storage/results/job_2.txt'' (length [104, 105 :: u8])"
    unfolding acc by (simp add: accepts_def disk3_def frame_simps)
  have disk: "\<forall>p. fs_readable disk3 p \<and> fs_lost disk3 p = None"
    "fs_files disk3 (job_get_stored_path encode_job0 [] MAX_JOB_PATH) = Some [104, 105]"
    by (simp_all add: disk3_def frame_simps job0_fields)
  have "\<exists>fs2 d1 ev2. worker_round calm_env fs1 decode_job0 = (fs2, d1, ev2) \<and> j_state d1 = JOB_STATE_DONE
    \<and> j_result_kind d1 = JOB_RESULT_TEXT \<and> j_result_size d1 = of_nat (length [104, 105 :: u8])
    \<and> fs_files fs2 (j_output_path d1) = Some [104, 105]"
    by (rule encode_job_then_decode_job [OF _ _ _ _ _ _ _ _ _ disk(1) job0_fields(4) disk(2) _ run e1(1)])
      (use job0_paths(2) ok clean e1(2) in \<open>simp_all add: calm_env_def raw_png_rows raw_png_lossless job0_fields MAX_TEXT_BYTES_def\<close>,
       simp_all add: raw_png_def)
  with run e1(1) show ?thesis by blast
qed

end
