(* ===== verification/Protocol.thy ===== *)
theory Protocol
  imports Clib
begin

text \<open>
  \<^verbatim>\<open>src/server/protocol.c\<close> with \<^verbatim>\<open>include/protocol.h\<close>: the parser of one line of the text protocol.
  A request is the record the parser fills; \<^verbatim>\<open>argument2\<close> is never written and stays empty. The
  order of the tests is the order of the source.
\<close>

section \<open>The code\<close>

datatype protocol_command =
    PROTO_CMD_UNKNOWN | PROTO_CMD_PING | PROTO_CMD_QUIT | PROTO_CMD_SUBMIT | PROTO_CMD_STATUS
  | PROTO_CMD_RESULT | PROTO_CMD_CANCEL | PROTO_CMD_LISTJOBS | PROTO_CMD_STATS
  | PROTO_CMD_VALIDATE_IMAGE | PROTO_CMD_ANALYZE_CAPACITY | PROTO_CMD_ENCODE_TEXT
  | PROTO_CMD_ENCODE_FILE | PROTO_CMD_DECODE | PROTO_CMD_VALIDATE | PROTO_CMD_CAPACITY
  | PROTO_CMD_META | PROTO_CMD_DOWNLOAD | PROTO_CMD_LISTCLIENTS | PROTO_CMD_HISTORY
  | PROTO_CMD_KICK | PROTO_CMD_BLOCKIP | PROTO_CMD_UNBLOCKIP | PROTO_CMD_AVGDURATION
  | PROTO_CMD_HELP

record protocol_request =
  r_command :: protocol_command
  r_job_id :: u64
  r_size1 :: u64
  r_size2 :: u64
  r_size3 :: u64
  r_argument1 :: string
  r_argument2 :: string

definition BUFFER_SIZE :: nat where "BUFFER_SIZE = 4096"

definition trim_newline :: "string \<Rightarrow> string" where
  "trim_newline text = (if text \<noteq> [] \<and> last text = NL then butlast text else text)"

definition starts_with :: "string \<Rightarrow> string \<Rightarrow> nat" where
  "starts_with s prefix = (if take (length prefix) s = prefix then length prefix else 0)"

definition parse_u64 :: "string \<Rightarrow> (u64 \<times> string) option" where
  "parse_u64 s = (case strtoull s of (v, erange, tail) \<Rightarrow>
     if erange then None else case tail of None \<Rightarrow> None | Some e \<Rightarrow> Some (v, e))"

definition skip_ws :: "string \<Rightarrow> string" where
  "skip_ws p = dropWhile (\<lambda>c. c = CHR '' '' \<or> c = CHR 0x09) p"

definition empty_request :: protocol_request where
  "empty_request = \<lparr>r_command = PROTO_CMD_UNKNOWN, r_job_id = 0, r_size1 = 0, r_size2 = 0, r_size3 = 0,
     r_argument1 = [], r_argument2 = []\<rparr>"

text \<open>The three shapes of command that the parser repeats: a text argument, a job id, one size.\<close>

definition text_request :: "protocol_command \<Rightarrow> string \<Rightarrow> protocol_request" where
  "text_request cmd s = empty_request\<lparr>r_command := cmd, r_argument1 := snprintf_s BUFFER_SIZE s\<rparr>"

definition job_request :: "protocol_command \<Rightarrow> string \<Rightarrow> protocol_request" where
  "job_request cmd s = empty_request\<lparr>r_command := cmd, r_job_id := fst (strtoull s)\<rparr>"

definition size_request :: "protocol_command \<Rightarrow> string \<Rightarrow> protocol_request" where
  "size_request cmd s = empty_request\<lparr>r_command := cmd, r_size1 := fst (strtoull s)\<rparr>"

definition encode_text_request :: "string \<Rightarrow> protocol_request" where
  "encode_text_request p =
     (case parse_u64 p of None \<Rightarrow> empty_request | Some (v1, e1) \<Rightarrow>
      let r1 = empty_request\<lparr>r_size1 := v1\<rparr> in
      case parse_u64 (skip_ws e1) of None \<Rightarrow> r1 | Some (v2, _) \<Rightarrow>
      r1\<lparr>r_command := PROTO_CMD_ENCODE_TEXT, r_size2 := v2\<rparr>)"

definition encode_file_request :: "string \<Rightarrow> protocol_request" where
  "encode_file_request p =
     (case parse_u64 p of None \<Rightarrow> empty_request | Some (v1, e1) \<Rightarrow>
      let r1 = empty_request\<lparr>r_size1 := v1\<rparr> in
      case parse_u64 (skip_ws e1) of None \<Rightarrow> r1 | Some (v2, e2) \<Rightarrow>
      let r2 = r1\<lparr>r_size2 := v2\<rparr> in
      case parse_u64 (skip_ws e2) of None \<Rightarrow> r2 | Some (v3, _) \<Rightarrow>
      r2\<lparr>r_command := PROTO_CMD_ENCODE_FILE, r_size3 := v3\<rparr>)"

text \<open>The tests on the trimmed copy of the line.\<close>

definition parse_command :: "string \<Rightarrow> protocol_request" where
  "parse_command copy =
     (if copy = ''PING'' then empty_request\<lparr>r_command := PROTO_CMD_PING\<rparr>
      else if copy = ''QUIT'' then empty_request\<lparr>r_command := PROTO_CMD_QUIT\<rparr>
      else if copy = ''LISTJOBS'' then empty_request\<lparr>r_command := PROTO_CMD_LISTJOBS\<rparr>
      else if copy = ''STATS'' then empty_request\<lparr>r_command := PROTO_CMD_STATS\<rparr>
      else if copy = ''LISTCLIENTS'' then empty_request\<lparr>r_command := PROTO_CMD_LISTCLIENTS\<rparr>
      else if copy = ''HISTORY'' then empty_request\<lparr>r_command := PROTO_CMD_HISTORY\<rparr>
      else if copy = ''AVGDURATION'' then empty_request\<lparr>r_command := PROTO_CMD_AVGDURATION\<rparr>
      else if copy = ''HELP'' then empty_request\<lparr>r_command := PROTO_CMD_HELP\<rparr>
      else let n = starts_with copy ''SUBMIT '' in if n > 0 then text_request PROTO_CMD_SUBMIT (drop n copy)
      else let n = starts_with copy ''STATUS '' in if n > 0 then job_request PROTO_CMD_STATUS (drop n copy)
      else let n = starts_with copy ''RESULT '' in if n > 0 then job_request PROTO_CMD_RESULT (drop n copy)
      else let n = starts_with copy ''CANCEL '' in if n > 0 then job_request PROTO_CMD_CANCEL (drop n copy)
      else let n = starts_with copy ''VALIDATE_IMAGE '' in
        if n > 0 then text_request PROTO_CMD_VALIDATE_IMAGE (drop n copy)
      else let n = starts_with copy ''ANALYZE_CAPACITY '' in
        if n > 0 then text_request PROTO_CMD_ANALYZE_CAPACITY (drop n copy)
      else let n = starts_with copy ''ENCODE_TEXT '' in if n > 0 then encode_text_request (drop n copy)
      else let n = starts_with copy ''ENCODE_FILE '' in if n > 0 then encode_file_request (drop n copy)
      else let n = starts_with copy ''DECODE '' in if n > 0 then size_request PROTO_CMD_DECODE (drop n copy)
      else let n = starts_with copy ''VALIDATE '' in if n > 0 then size_request PROTO_CMD_VALIDATE (drop n copy)
      else let n = starts_with copy ''CAPACITY '' in if n > 0 then size_request PROTO_CMD_CAPACITY (drop n copy)
      else let n = starts_with copy ''META '' in if n > 0 then job_request PROTO_CMD_META (drop n copy)
      else let n = starts_with copy ''DOWNLOAD '' in if n > 0 then job_request PROTO_CMD_DOWNLOAD (drop n copy)
      else let n = starts_with copy ''KICK '' in if n > 0 then text_request PROTO_CMD_KICK (drop n copy)
      else let n = starts_with copy ''BLOCKIP '' in if n > 0 then text_request PROTO_CMD_BLOCKIP (drop n copy)
      else let n = starts_with copy ''UNBLOCKIP '' in if n > 0 then text_request PROTO_CMD_UNBLOCKIP (drop n copy)
      else empty_request)"

definition protocol_parse_line :: "string \<Rightarrow> protocol_request" where
  "protocol_parse_line line = parse_command (trim_newline (snprintf_s BUFFER_SIZE line))"

section \<open>Commands as the clients print them\<close>

text \<open>The abstract commands of the protocol, with their arguments.\<close>

datatype wire_command =
    W_plain protocol_command
  | W_text protocol_command string
  | W_job protocol_command u64
  | W_size protocol_command u64
  | W_encode_text u64 u64
  | W_encode_file u64 u64 u64

fun plain_word :: "protocol_command \<Rightarrow> string option" where
  "plain_word PROTO_CMD_PING = Some ''PING''"
| "plain_word PROTO_CMD_QUIT = Some ''QUIT''"
| "plain_word PROTO_CMD_LISTJOBS = Some ''LISTJOBS''"
| "plain_word PROTO_CMD_STATS = Some ''STATS''"
| "plain_word PROTO_CMD_LISTCLIENTS = Some ''LISTCLIENTS''"
| "plain_word PROTO_CMD_HISTORY = Some ''HISTORY''"
| "plain_word PROTO_CMD_AVGDURATION = Some ''AVGDURATION''"
| "plain_word PROTO_CMD_HELP = Some ''HELP''"
| "plain_word _ = None"

fun text_word :: "protocol_command \<Rightarrow> string option" where
  "text_word PROTO_CMD_SUBMIT = Some ''SUBMIT ''"
| "text_word PROTO_CMD_VALIDATE_IMAGE = Some ''VALIDATE_IMAGE ''"
| "text_word PROTO_CMD_ANALYZE_CAPACITY = Some ''ANALYZE_CAPACITY ''"
| "text_word PROTO_CMD_KICK = Some ''KICK ''"
| "text_word PROTO_CMD_BLOCKIP = Some ''BLOCKIP ''"
| "text_word PROTO_CMD_UNBLOCKIP = Some ''UNBLOCKIP ''"
| "text_word _ = None"

fun job_word :: "protocol_command \<Rightarrow> string option" where
  "job_word PROTO_CMD_STATUS = Some ''STATUS ''"
| "job_word PROTO_CMD_RESULT = Some ''RESULT ''"
| "job_word PROTO_CMD_CANCEL = Some ''CANCEL ''"
| "job_word PROTO_CMD_META = Some ''META ''"
| "job_word PROTO_CMD_DOWNLOAD = Some ''DOWNLOAD ''"
| "job_word _ = None"

fun size_word :: "protocol_command \<Rightarrow> string option" where
  "size_word PROTO_CMD_DECODE = Some ''DECODE ''"
| "size_word PROTO_CMD_VALIDATE = Some ''VALIDATE ''"
| "size_word PROTO_CMD_CAPACITY = Some ''CAPACITY ''"
| "size_word _ = None"

text \<open>The line of a command, without its newline, and the request that stands for it.\<close>

fun wire_line :: "wire_command \<Rightarrow> string option" where
  "wire_line (W_plain c) = plain_word c"
| "wire_line (W_text c s) = map_option (\<lambda>w. w @ s) (text_word c)"
| "wire_line (W_job c n) = map_option (\<lambda>w. w @ udec (unat n)) (job_word c)"
| "wire_line (W_size c n) = map_option (\<lambda>w. w @ udec (unat n)) (size_word c)"
| "wire_line (W_encode_text a b) = Some (''ENCODE_TEXT '' @ udec (unat a) @ '' '' @ udec (unat b))"
| "wire_line (W_encode_file a b c) =
     Some (''ENCODE_FILE '' @ udec (unat a) @ '' '' @ udec (unat b) @ '' '' @ udec (unat c))"

fun wire_request :: "wire_command \<Rightarrow> protocol_request" where
  "wire_request (W_plain c) = empty_request\<lparr>r_command := c\<rparr>"
| "wire_request (W_text c s) = empty_request\<lparr>r_command := c, r_argument1 := s\<rparr>"
| "wire_request (W_job c n) = empty_request\<lparr>r_command := c, r_job_id := n\<rparr>"
| "wire_request (W_size c n) = empty_request\<lparr>r_command := c, r_size1 := n\<rparr>"
| "wire_request (W_encode_text a b) = empty_request\<lparr>r_command := PROTO_CMD_ENCODE_TEXT, r_size1 := a, r_size2 := b\<rparr>"
| "wire_request (W_encode_file a b c) =
     empty_request\<lparr>r_command := PROTO_CMD_ENCODE_FILE, r_size1 := a, r_size2 := b, r_size3 := c\<rparr>"

lemma starts_with_append [simp]: "starts_with (p @ s) p = length p"
  by (simp add: starts_with_def)

lemma strtoull_print: "strtoull (udec (unat n)) = (n, False, Some [])"
  using strtoull_udec [of "unat n" "[]"] unat_u64_bound [of n] by simp

lemma parse_u64_print:
  "parse_u64 (udec (unat n)) = Some (n, [])"
  "parse_u64 (udec (unat n) @ CHR '' '' # s) = Some (n, CHR '' '' # s)"
proof -
  have sp: "\<not> isdigit (CHR '' '')" by (simp add: isdigit_def)
  show "parse_u64 (udec (unat n)) = Some (n, [])" by (simp add: parse_u64_def strtoull_print)
  show "parse_u64 (udec (unat n) @ CHR '' '' # s) = Some (n, CHR '' '' # s)"
    using strtoull_udec [of "unat n" "CHR '' '' # s"] unat_u64_bound [of n] sp by (simp add: parse_u64_def)
qed

lemma skip_ws_udec: "skip_ws (CHR '' '' # udec n @ s) = udec n @ s"
proof -
  obtain d ds where u: "udec n = d # ds" using udec_nonempty [of n] by (cases "udec n") auto
  then have "isdigit d" using udec_chars [of d n] by simp
  then have "d \<noteq> CHR '' ''" "d \<noteq> CHR 0x09" by (auto simp: isdigit_def)
  then show ?thesis by (simp add: skip_ws_def u)
qed

lemma skip_ws_udec_end: "skip_ws (CHR '' '' # udec n) = udec n"
  using skip_ws_udec [of n "[]"] by simp

lemma plain_words:
  "parse_command ''PING'' = empty_request\<lparr>r_command := PROTO_CMD_PING\<rparr>"
  "parse_command ''QUIT'' = empty_request\<lparr>r_command := PROTO_CMD_QUIT\<rparr>"
  "parse_command ''LISTJOBS'' = empty_request\<lparr>r_command := PROTO_CMD_LISTJOBS\<rparr>"
  "parse_command ''STATS'' = empty_request\<lparr>r_command := PROTO_CMD_STATS\<rparr>"
  "parse_command ''LISTCLIENTS'' = empty_request\<lparr>r_command := PROTO_CMD_LISTCLIENTS\<rparr>"
  "parse_command ''HISTORY'' = empty_request\<lparr>r_command := PROTO_CMD_HISTORY\<rparr>"
  "parse_command ''AVGDURATION'' = empty_request\<lparr>r_command := PROTO_CMD_AVGDURATION\<rparr>"
  "parse_command ''HELP'' = empty_request\<lparr>r_command := PROTO_CMD_HELP\<rparr>"
  by (simp_all add: parse_command_def)

lemma text_words:
  "parse_command (''SUBMIT '' @ s) = text_request PROTO_CMD_SUBMIT s"
  "parse_command (''VALIDATE_IMAGE '' @ s) = text_request PROTO_CMD_VALIDATE_IMAGE s"
  "parse_command (''ANALYZE_CAPACITY '' @ s) = text_request PROTO_CMD_ANALYZE_CAPACITY s"
  "parse_command (''KICK '' @ s) = text_request PROTO_CMD_KICK s"
  "parse_command (''BLOCKIP '' @ s) = text_request PROTO_CMD_BLOCKIP s"
  "parse_command (''UNBLOCKIP '' @ s) = text_request PROTO_CMD_UNBLOCKIP s"
  by (simp_all add: parse_command_def starts_with_def)

lemma job_words:
  "parse_command (''STATUS '' @ s) = job_request PROTO_CMD_STATUS s"
  "parse_command (''RESULT '' @ s) = job_request PROTO_CMD_RESULT s"
  "parse_command (''CANCEL '' @ s) = job_request PROTO_CMD_CANCEL s"
  "parse_command (''META '' @ s) = job_request PROTO_CMD_META s"
  "parse_command (''DOWNLOAD '' @ s) = job_request PROTO_CMD_DOWNLOAD s"
  by (simp_all add: parse_command_def starts_with_def)

lemma size_words:
  "parse_command (''DECODE '' @ s) = size_request PROTO_CMD_DECODE s"
  "parse_command (''VALIDATE '' @ s) = size_request PROTO_CMD_VALIDATE s"
  "parse_command (''CAPACITY '' @ s) = size_request PROTO_CMD_CAPACITY s"
  by (simp_all add: parse_command_def starts_with_def)

lemma parse_plain: "plain_word c = Some w \<Longrightarrow> parse_command w = empty_request\<lparr>r_command := c\<rparr>"
  by (cases c) (auto simp: plain_words)

lemma parse_text: "text_word c = Some w \<Longrightarrow> parse_command (w @ s) = text_request c s"
  by (cases c) (auto simp: text_words [simplified])

lemma parse_job: "job_word c = Some w \<Longrightarrow> parse_command (w @ s) = job_request c s"
  by (cases c) (auto simp: job_words [simplified])

lemma parse_size: "size_word c = Some w \<Longrightarrow> parse_command (w @ s) = size_request c s"
  by (cases c) (auto simp: size_words [simplified])

lemma parse_encode:
  "parse_command (''ENCODE_TEXT '' @ s) = encode_text_request s"
  "parse_command (''ENCODE_FILE '' @ s) = encode_file_request s"
  by (simp_all add: parse_command_def starts_with_def)

lemma parse_wire:
  assumes "wire_line c = Some l" "NUL \<notin> set l" "length l < BUFFER_SIZE"
  shows "parse_command l = wire_request c"
proof (cases c)
  case (W_text k s)
  with assms(1) obtain w where w: "text_word k = Some w" "l = w @ s" by auto
  have "snprintf_s BUFFER_SIZE s = s" by (rule snprintf_s_id) (use assms(2,3) w in auto)
  with W_text w show ?thesis by (simp add: parse_text text_request_def)
next
  case (W_encode_text a b)
  with assms(1) show ?thesis
    by (auto simp: parse_encode [simplified] encode_text_request_def parse_u64_print skip_ws_udec_end)
next
  case (W_encode_file a b d)
  with assms(1) show ?thesis
    by (auto simp: parse_encode [simplified] encode_file_request_def parse_u64_print skip_ws_udec skip_ws_udec_end)
qed (use assms(1) in \<open>auto simp: parse_plain parse_job parse_size job_request_def size_request_def strtoull_print\<close>)

lemma protocol_line: "NUL \<notin> set l \<Longrightarrow> length l + 1 < BUFFER_SIZE \<Longrightarrow> protocol_parse_line (l @ [NL]) = parse_command l"
  using snprintf_s_id [of "l @ [NL]" BUFFER_SIZE] by (simp add: protocol_parse_line_def trim_newline_def)

text \<open>
  C22: \<^verbatim>\<open>protocol_parse_line\<close> inverts printing. For each of the 24 commands and all its arguments, the
  line a client sends, ended by a newline and shorter than the line buffer, is parsed into exactly
  that command with those arguments and every other field zero.
\<close>

theorem parse_printed_command:
  assumes "wire_line c = Some l" "NUL \<notin> set l" "length l + 1 < BUFFER_SIZE"
  shows "protocol_parse_line (l @ [NL]) = wire_request c"
  using parse_wire [OF assms(1,2)] protocol_line [OF assms(2,3)] assms(3) by simp

theorem parse_printed_command_witness:
  "protocol_parse_line (''ENCODE_FILE 5 6 7'' @ [NL])
     = empty_request\<lparr>r_command := PROTO_CMD_ENCODE_FILE, r_size1 := 5, r_size2 := 6, r_size3 := 7\<rparr>"
proof -
  have "wire_line (W_encode_file 5 6 7) = Some ''ENCODE_FILE 5 6 7''"
    by (simp add: udec.simps digit_char_def char_of_def bit_Suc_0_iff)
  from parse_printed_command [OF this] show ?thesis by (simp add: BUFFER_SIZE_def)
qed

end
