(* ===== verification/Sessions.thy ===== *)
theory Sessions
  imports Job_Table Job_Queue Net_IO Filesys Protocol
begin

text \<open>
  The part of \<^verbatim>\<open>src/server/server.c\<close> that manages connections: the blocklist, the client slots, the
  poll vector, responses and the acceptance of connections. The state the server thread works on is
  the record \<open>world\<close>: the open sockets by descriptor, the array of \<^verbatim>\<open>MAX_CLIENTS\<close> sessions, the
  blocklist (its \<^verbatim>\<open>count\<close> first entries), the job table, the queue and the file system.
\<close>

section \<open>The code\<close>

datatype client_type = CLIENT_TYPE_UNKNOWN | CLIENT_TYPE_USER | CLIENT_TYPE_ADMIN

record client_session =
  c_fd :: int
  c_type :: client_type
  c_active :: bool
  c_kick_requested :: bool
  c_addr_str :: string
  c_connected_at :: timespec

record world =
  w_socks :: "int \<Rightarrow> sock option"
  w_clients :: "client_session list"
  w_blocklist :: "string list"
  w_jobs :: job_table
  w_queue :: job_queue
  w_fs :: filesys

definition MAX_CLIENTS :: nat where "MAX_CLIENTS = 128"
definition MAX_POLL_FDS :: nat where "MAX_POLL_FDS = 256"
definition MAX_BLOCKED_IPS :: nat where "MAX_BLOCKED_IPS = 32"
definition SMALL_BUFFER_SIZE :: nat where "SMALL_BUFFER_SIZE = 256"

text \<open>\<open>text\<close> is the full expansion of the format; writing to a closed descriptor fails.\<close>

definition send_responsef :: "int \<Rightarrow> string \<Rightarrow> world \<Rightarrow> world \<times> bool" where
  "send_responsef fd text w =
     (case snprintf_fmt BUFFER_SIZE text of (rc, buffer) \<Rightarrow>
      if rc \<ge> BUFFER_SIZE then (w, False)
      else case w_socks w fd of None \<Rightarrow> (w, False) | Some s \<Rightarrow>
        (case write_all (bytes_of buffer) s of (s1, r) \<Rightarrow>
           (w\<lparr>w_socks := (w_socks w)(fd \<mapsto> s1)\<rparr>, r \<noteq> None)))"

definition parse_int_arg :: "string \<Rightarrow> int option" where
  "parse_int_arg text =
     (if text = [] then None
      else case strtol text of (parsed, erange, e) \<Rightarrow>
        if erange then None else case e of None \<Rightarrow> None | Some rest \<Rightarrow>
        if rest \<noteq> [] \<or> parsed < 0 \<or> parsed > 2 ^ 31 - 1 then None else Some parsed)"

subsection \<open>Blocklist\<close>

definition blocklist_init :: "bool \<Rightarrow> string list option" where
  "blocklist_init mutex_ok = (if mutex_ok then Some [] else None)"

definition blocklist_add :: "string list \<Rightarrow> string \<Rightarrow> string list \<times> bool" where
  "blocklist_add bl ip =
     (if ip = [] then (bl, False)
      else if list_ex (\<lambda>x. x = ip) bl then (bl, True)
      else if length bl < MAX_BLOCKED_IPS then (bl @ [snprintf_s 64 ip], True)
      else (bl, False))"

text \<open>The compaction loop removes the first match.\<close>

fun remove_first :: "string list \<Rightarrow> string \<Rightarrow> string list option" where
  "remove_first [] ip = None"
| "remove_first (x # xs) ip = (if x = ip then Some xs else map_option ((#) x) (remove_first xs ip))"

definition blocklist_remove :: "string list \<Rightarrow> string \<Rightarrow> string list \<times> bool" where
  "blocklist_remove bl ip =
     (if ip = [] then (bl, False)
      else case remove_first bl ip of None \<Rightarrow> (bl, False) | Some bl' \<Rightarrow> (bl', True))"

definition blocklist_contains :: "string list \<Rightarrow> string \<Rightarrow> bool" where
  "blocklist_contains bl ip \<longleftrightarrow> list_ex (\<lambda>x. x = ip) bl"

fun blocklist_format_loop :: "nat \<Rightarrow> string list \<Rightarrow> string \<Rightarrow> string" where
  "blocklist_format_loop n [] out = out"
| "blocklist_format_loop n (ip # ips) out =
     (let used = length out; sep = (if used = 0 then 0 else 1)
      in if used + sep + length ip + 1 \<ge> n then out
         else let out1 = (if used \<noteq> 0 then out @ '','' else out)
              in blocklist_format_loop n ips (out1 @ snd (snprintf_fmt (n - length out1) ip)))"

definition blocklist_format :: "string list \<Rightarrow> nat \<Rightarrow> string option" where
  "blocklist_format bl out_size =
     (if out_size = 0 then None
      else if bl = [] then Some (snprintf_s out_size ''empty'')
      else Some (blocklist_format_loop out_size bl []))"

subsection \<open>Client slots\<close>

definition free_session :: client_session where
  "free_session = \<lparr>c_fd = - 1, c_type = CLIENT_TYPE_UNKNOWN, c_active = False, c_kick_requested = False,
     c_addr_str = [], c_connected_at = zero_time\<rparr>"

text \<open>\<^verbatim>\<open>close_client(&clients[i])\<close>: the connection time of the slot is left as it was.\<close>

definition close_client :: "nat \<Rightarrow> world \<Rightarrow> world" where
  "close_client i w =
     (let c = w_clients w ! i in
      if i \<ge> length (w_clients w) \<or> \<not> c_active c then w
      else w\<lparr>w_socks := (w_socks w)(c_fd c := None),
             w_clients := (w_clients w)[i := c\<lparr>c_fd := - 1, c_active := False, c_type := CLIENT_TYPE_UNKNOWN,
                c_kick_requested := False, c_addr_str := []\<rparr>]\<rparr>)"

text \<open>The scan for a free slot; \<open>None\<close> when all are taken.\<close>

fun add_client :: "client_session list \<Rightarrow> timespec \<Rightarrow> int \<Rightarrow> client_type \<Rightarrow> string option \<Rightarrow> client_session list option" where
  "add_client [] now fd type addr = None"
| "add_client (c # cs) now fd type addr =
     (if \<not> c_active c
      then Some (c\<lparr>c_fd := fd, c_type := type, c_active := True, c_kick_requested := False, c_connected_at := now,
                   c_addr_str := snprintf_s 64 (case addr of Some a \<Rightarrow> a | None \<Rightarrow> ''unknown'')\<rparr> # cs)
      else map_option ((#) c) (add_client cs now fd type addr))"

text \<open>The descriptors of the poll vector, in its fixed order.\<close>

record listeners =
  l_user :: int
  l_admin :: int
  l_unix :: int
  l_pipe :: int
  l_inotify :: int

definition rebuild_pollfds :: "listeners \<Rightarrow> client_session list \<Rightarrow> int list" where
  "rebuild_pollfds ls cs =
     [l_user ls, l_admin ls, l_unix ls, l_pipe ls, l_inotify ls] @ map c_fd (filter c_active cs)"

text \<open>
  An accepted connection: \<open>conn\<close> is the result of \<^verbatim>\<open>accept\<close> (a fresh descriptor and its socket) and
  \<open>ntop\<close> that of \<^verbatim>\<open>inet_ntop\<close>.
\<close>

definition accept_new_inet_connection ::
  "timespec \<Rightarrow> (int \<times> sock) option \<Rightarrow> string option \<Rightarrow> client_type \<Rightarrow> bool \<Rightarrow> world \<Rightarrow> world \<times> bool" where
  "accept_new_inet_connection now conn ntop type single_admin_only w =
     (case conn of None \<Rightarrow> (w, False) | Some (fd, s) \<Rightarrow>
      let w1 = w\<lparr>w_socks := (w_socks w)(fd \<mapsto> s)\<rparr>;
          addr_str = (case ntop of Some a \<Rightarrow> a | None \<Rightarrow> ''unknown'');
          reject = (\<lambda>msg. let w2 = fst (send_responsef fd msg w1) in w2\<lparr>w_socks := (w_socks w2)(fd := None)\<rparr>) in
      if type = CLIENT_TYPE_USER \<and> blocklist_contains (w_blocklist w1) addr_str
      then (reject (''ERR ip blocked'' @ [NL]), True)
      else if single_admin_only \<and> list_ex (\<lambda>c. c_active c \<and> c_type c = CLIENT_TYPE_ADMIN) (w_clients w1)
      then (reject (''ERR admin already connected'' @ [NL]), True)
      else case add_client (w_clients w1) now fd type (Some addr_str) of
        None \<Rightarrow> (reject (''ERR server full'' @ [NL]), True)
      | Some cs \<Rightarrow> (fst (send_responsef fd (''OK connected'' @ [NL]) (w1\<lparr>w_clients := cs\<rparr>)), True))"

definition accept_new_unix_connection :: "timespec \<Rightarrow> (int \<times> sock) option \<Rightarrow> world \<Rightarrow> world \<times> bool" where
  "accept_new_unix_connection now conn w =
     (case conn of None \<Rightarrow> (w, False) | Some (fd, s) \<Rightarrow>
      let w1 = w\<lparr>w_socks := (w_socks w)(fd \<mapsto> s)\<rparr> in
      case add_client (w_clients w1) now fd CLIENT_TYPE_USER (Some ''unix-local'') of
        None \<Rightarrow>
          (let w2 = fst (send_responsef fd (''ERR server full'' @ [NL]) w1)
           in (w2\<lparr>w_socks := (w_socks w2)(fd := None)\<rparr>, True))
      | Some cs \<Rightarrow> (fst (send_responsef fd (''OK connected'' @ [NL]) (w1\<lparr>w_clients := cs\<rparr>)), True))"

definition client_item :: "client_session \<Rightarrow> string" where
  "client_item c = snd (snprintf_fmt SMALL_BUFFER_SIZE
     (''fd='' @ sdec (c_fd c) @ '',type='' @ (if c_type c = CLIENT_TYPE_ADMIN then ''admin'' else ''user'')
       @ '',addr='' @ c_addr_str c))"

fun format_client_loop :: "nat \<Rightarrow> client_session list \<Rightarrow> string \<Rightarrow> nat \<Rightarrow> string \<times> nat" where
  "format_client_loop n [] buf active = (buf, active)"
| "format_client_loop n (c # cs) buf active =
     (if \<not> c_active c then format_client_loop n cs buf active
      else case append_item n buf (client_item c) of
        None \<Rightarrow> (buf, Suc active)
      | Some buf' \<Rightarrow> format_client_loop n cs buf' (Suc active))"

definition format_client_list :: "client_session list \<Rightarrow> nat \<Rightarrow> string option" where
  "format_client_list cs buf_size =
     (if buf_size = 0 then None
      else case format_client_loop buf_size cs [] 0 of (buf, active) \<Rightarrow>
        Some (if active = 0 then snprintf_s buf_size ''empty'' else buf))"

text \<open>The end of each round of the server loop: kicked clients are closed.\<close>

fun close_kicked :: "nat \<Rightarrow> nat \<Rightarrow> world \<Rightarrow> world" where
  "close_kicked i 0 w = w"
| "close_kicked i (Suc n) w =
     (let c = w_clients w ! i
      in close_kicked (Suc i) n (if c_active c \<and> c_kick_requested c then close_client i w else w))"

section \<open>Frames\<close>

lemma send_responsef_frame [frame_simps]:
  "w_clients (fst (send_responsef fd t w)) = w_clients w" "w_blocklist (fst (send_responsef fd t w)) = w_blocklist w"
  "w_jobs (fst (send_responsef fd t w)) = w_jobs w" "w_queue (fst (send_responsef fd t w)) = w_queue w"
  "w_fs (fst (send_responsef fd t w)) = w_fs w"
  by (simp_all add: send_responsef_def split: prod.split option.split)

lemma send_responsef_socks:
  "q \<noteq> fd \<Longrightarrow> w_socks (fst (send_responsef fd t w)) q = w_socks w q"
  "w_socks (fst (send_responsef fd t w)) fd = None \<longleftrightarrow> w_socks w fd = None"
  by (simp_all add: send_responsef_def split: prod.split option.split)

lemma close_client_frame [frame_simps]:
  "w_blocklist (close_client i w) = w_blocklist w" "w_jobs (close_client i w) = w_jobs w"
  "w_queue (close_client i w) = w_queue w" "w_fs (close_client i w) = w_fs w"
  by (simp_all add: close_client_def Let_def)

section \<open>The session invariant\<close>

definition active_admin :: "client_session \<Rightarrow> bool" where
  "active_admin c \<longleftrightarrow> c_active c \<and> c_type c = CLIENT_TYPE_ADMIN"

text \<open>
  All slots exist, active sessions have distinct open descriptors, and at most one of them is an
  administrator.
\<close>

definition sessions_ok :: "world \<Rightarrow> bool" where
  "sessions_ok w \<longleftrightarrow> length (w_clients w) = MAX_CLIENTS \<and>
     distinct (map c_fd (filter c_active (w_clients w))) \<and>
     (\<forall>c \<in> set (w_clients w). c_active c \<longrightarrow> w_socks w (c_fd c) \<noteq> None) \<and>
     length (filter active_admin (w_clients w)) \<le> 1"

lemma add_client_split:
  "add_client cs now fd type addr = Some cs' \<Longrightarrow>
     \<exists>pre c post c'. cs = pre @ c # post \<and> cs' = pre @ c' # post \<and> list_all c_active pre \<and> \<not> c_active c \<and>
       c_fd c' = fd \<and> c_type c' = type \<and> c_active c' \<and> \<not> c_kick_requested c' \<and>
       c_addr_str c' = snprintf_s 64 (case addr of Some a \<Rightarrow> a | None \<Rightarrow> ''unknown'')"
proof (induction cs arbitrary: cs')
  case (Cons c cs)
  show ?case
  proof (cases "c_active c")
    case True
    with Cons.prems obtain ds where ds: "add_client cs now fd type addr = Some ds" "cs' = c # ds" by auto
    from Cons.IH [OF ds(1)] obtain pre x post x' where "cs = pre @ x # post" "ds = pre @ x' # post" "list_all c_active pre"
      "\<not> c_active x" "c_fd x' = fd" "c_type x' = type" "c_active x'" "\<not> c_kick_requested x'"
      "c_addr_str x' = snprintf_s 64 (case addr of Some a \<Rightarrow> a | None \<Rightarrow> ''unknown'')" by blast
    with True ds(2) show ?thesis by (intro exI [of _ "c # pre"] exI [of _ x] exI [of _ post] exI [of _ x']) simp
  next
    case False
    with Cons.prems show ?thesis
      by (intro exI [of _ "[]"] exI [of _ c] exI [of _ cs] exI [of _ "hd cs'"]) auto
  qed
qed simp

lemma add_client_None: "add_client cs now fd type addr = None \<longleftrightarrow> list_all c_active cs"
  by (induction cs) auto

lemma sessions_ok_add:
  assumes ok: "sessions_ok w" and fresh: "w_socks w fd = None"
    and add: "add_client (w_clients w) now fd type addr = Some cs"
    and admin: "type = CLIENT_TYPE_ADMIN \<Longrightarrow> \<not> list_ex (\<lambda>c. c_active c \<and> c_type c = CLIENT_TYPE_ADMIN) (w_clients w)"
    and w': "w_clients w' = cs" "w_socks w' fd \<noteq> None" "\<And>q. q \<noteq> fd \<Longrightarrow> w_socks w' q = w_socks w q"
  shows "sessions_ok w'"
proof -
  obtain pre c post c' where cs: "w_clients w = pre @ c # post" "cs = pre @ c' # post" "\<not> c_active c"
    "c_fd c' = fd" "c_type c' = type" "c_active c'"
    using add_client_split [OF add] by blast
  have notin: "c_fd x \<noteq> fd" if "x \<in> set (pre @ post)" "c_active x" for x
    using ok fresh that cs(1) by (auto simp: sessions_ok_def)
  have "fd \<notin> c_fd ` set (filter c_active pre)" "fd \<notin> c_fd ` set (filter c_active post)"
    using notin by force+
  then have "distinct (map c_fd (filter c_active cs))"
    using ok cs(1-4,6) by (auto simp: sessions_ok_def image_iff)
  moreover have "length (filter active_admin cs) \<le> 1"
  proof (cases "type = CLIENT_TYPE_ADMIN")
    case True
    then have "filter active_admin pre = []" "filter active_admin post = []"
      using admin cs(1) by (auto simp: list_ex_iff filter_empty_conv active_admin_def)
    then show ?thesis using cs by simp
  next
    case False
    then show ?thesis using ok cs by (simp add: sessions_ok_def active_admin_def)
  qed
  moreover have "\<forall>x \<in> set cs. c_active x \<longrightarrow> w_socks w' (c_fd x) \<noteq> None"
    using ok cs w' notin by (auto simp: sessions_ok_def)
  ultimately show ?thesis using ok cs w'(1) by (simp add: sessions_ok_def)
qed

lemma sessions_ok_same_clients:
  assumes "sessions_ok w" "w_clients w' = w_clients w" "\<And>q. w_socks w q \<noteq> None \<Longrightarrow> w_socks w' q \<noteq> None"
  shows "sessions_ok w'"
  using assms by (auto simp: sessions_ok_def)

lemma close_client_split:
  assumes "i < length (w_clients w)" "c_active (w_clients w ! i)"
  shows "w_clients (close_client i w) = take i (w_clients w)
      @ (w_clients w ! i)\<lparr>c_fd := - 1, c_active := False, c_type := CLIENT_TYPE_UNKNOWN, c_kick_requested := False, c_addr_str := []\<rparr>
      # drop (Suc i) (w_clients w)"
    and "w_socks (close_client i w) = (w_socks w)(c_fd (w_clients w ! i) := None)"
  using assms by (simp_all add: close_client_def Let_def upd_conv_take_nth_drop)

lemma close_client_ok [inv_intros]:
  assumes ok: "sessions_ok w"
  shows "sessions_ok (close_client i w)"
proof (cases "i < length (w_clients w) \<and> c_active (w_clients w ! i)")
  case False
  then have "close_client i w = w" by (auto simp: close_client_def Let_def)
  then show ?thesis using ok by simp
next
  case True
  let ?cs = "w_clients w" and ?c = "w_clients w ! i"
  have cs: "?cs = take i ?cs @ ?c # drop (Suc i) ?cs" using True by (simp add: id_take_nth_drop)
  have d: "distinct (map c_fd (filter c_active (take i ?cs @ ?c # drop (Suc i) ?cs)))"
    and a: "length (filter active_admin (take i ?cs @ ?c # drop (Suc i) ?cs)) \<le> 1"
    using ok cs unfolding sessions_ok_def by metis+
  have other: "c_fd x \<noteq> c_fd ?c" if "x \<in> set (take i ?cs @ drop (Suc i) ?cs)" "c_active x" for x
    using d that True by (auto simp: image_iff)
  have live: "w_socks w (c_fd x) \<noteq> None" if "x \<in> set (take i ?cs @ drop (Suc i) ?cs)" "c_active x" for x
    using ok that by (auto simp: sessions_ok_def dest: in_set_takeD in_set_dropD)
  note split = close_client_split [OF conjunct1 [OF True] conjunct2 [OF True]]
  show ?thesis
    unfolding sessions_ok_def split
    using d a other live True ok by (auto simp: sessions_ok_def active_admin_def split: if_splits)
qed

section \<open>Accepting connections\<close>

text \<open>
  Accepting connections keeps the session invariant, whoever connects, whether the slots are full, the
  address is blocked or the reply cannot be sent.
\<close>

lemma accept_inet_ok:
  assumes ok: "sessions_ok w"
    and fresh: "\<And>fd s. conn = Some (fd, s) \<Longrightarrow> w_socks w fd = None"
    and admin: "type = CLIENT_TYPE_ADMIN \<longrightarrow> single_admin_only"
  shows "sessions_ok (fst (accept_new_inet_connection now conn ntop type single_admin_only w))"
proof (cases conn)
  case None
  then show ?thesis using ok by (simp add: accept_new_inet_connection_def)
next
  case (Some p)
  obtain fd s where conn: "conn = Some (fd, s)" using Some by (cases p) auto
  let ?w1 = "w\<lparr>w_socks := (w_socks w)(fd \<mapsto> s)\<rparr>"
  let ?reject = "\<lambda>msg. let w2 = fst (send_responsef fd msg ?w1) in w2\<lparr>w_socks := (w_socks w2)(fd := None)\<rparr>"
  let ?addr = "case ntop of Some a \<Rightarrow> a | None \<Rightarrow> ''unknown''"
  have fd: "w_socks w fd = None" by (rule fresh [OF conn])
  have rej: "sessions_ok (?reject msg)" for msg
    by (rule sessions_ok_same_clients [OF ok])
      (use fd in \<open>auto simp: Let_def frame_simps send_responsef_socks(1)\<close>)
  have add: "sessions_ok (fst (send_responsef fd msg (?w1\<lparr>w_clients := cs\<rparr>)))"
    if "add_client (w_clients w) now fd type (Some ?addr) = Some cs"
      "\<not> (single_admin_only \<and> list_ex (\<lambda>c. c_active c \<and> c_type c = CLIENT_TYPE_ADMIN) (w_clients w))" for cs msg
    by (rule sessions_ok_add [OF ok fd that(1)])
      (use that(2) admin in \<open>auto simp: frame_simps send_responsef_socks\<close>)
  show ?thesis
    using rej add by (auto simp: accept_new_inet_connection_def conn Let_def split: option.split)
qed

lemma accept_unix_ok:
  assumes ok: "sessions_ok w" and fresh: "\<And>fd s. conn = Some (fd, s) \<Longrightarrow> w_socks w fd = None"
  shows "sessions_ok (fst (accept_new_unix_connection now conn w))"
proof (cases conn)
  case None
  then show ?thesis using ok by (simp add: accept_new_unix_connection_def)
next
  case (Some p)
  obtain fd s where conn: "conn = Some (fd, s)" using Some by (cases p) auto
  have fd: "w_socks w fd = None" by (rule fresh [OF conn])
  let ?w2 = "fst (send_responsef fd (''ERR server full'' @ [NL]) (w\<lparr>w_socks := (w_socks w)(fd \<mapsto> s)\<rparr>))"
  have "sessions_ok (?w2\<lparr>w_socks := (w_socks ?w2)(fd := None)\<rparr>)"
    by (rule sessions_ok_same_clients [OF ok]) (use fd in \<open>auto simp: frame_simps send_responsef_socks(1)\<close>)
  moreover have "sessions_ok (fst (send_responsef fd msg (w\<lparr>w_socks := (w_socks w)(fd \<mapsto> s), w_clients := cs\<rparr>)))"
    if "add_client (w_clients w) now fd CLIENT_TYPE_USER (Some ''unix-local'') = Some cs" for cs msg
    by (rule sessions_ok_add [OF ok fd that]) (auto simp: frame_simps send_responsef_socks)
  ultimately show ?thesis by (auto simp: accept_new_unix_connection_def conn Let_def split: option.split)
qed

lemma accept_frame [frame_simps]:
  "w_jobs (fst (accept_new_inet_connection now conn ntop type single w)) = w_jobs w"
  "w_queue (fst (accept_new_inet_connection now conn ntop type single w)) = w_queue w"
  "w_jobs (fst (accept_new_unix_connection now conn w)) = w_jobs w"
  "w_queue (fst (accept_new_unix_connection now conn w)) = w_queue w"
  by (simp_all add: accept_new_inet_connection_def accept_new_unix_connection_def Let_def frame_simps
      split: option.split prod.split)

section \<open>Properties of connections\<close>

definition idle_sock :: sock where
  "idle_sock = \<lparr>s_in = [], s_out = [], s_sched = []\<rparr>"

definition world0 :: world where
  "world0 = \<lparr>w_socks = Map.empty, w_clients = replicate 128 free_session, w_blocklist = [''10.9.8.7''],
     w_jobs = \<lparr>tbl_jobs = [], tbl_next_id = 1\<rparr>, w_queue = queue0,
     w_fs = \<lparr>fs_files = Map.empty, fs_dirs = (\<lambda>_. False), fs_readable = (\<lambda>_. True), fs_writable = (\<lambda>_. True),
       fs_seekable = (\<lambda>_. True), fs_room = (\<lambda>_. 1000000), fs_lost = (\<lambda>_. None)\<rparr>\<rparr>"

lemma world0_ok: "sessions_ok world0"
  by (simp add: sessions_ok_def world0_def free_session_def active_admin_def MAX_CLIENTS_def)

text \<open>
  A blocked address gets no session: a user connection from an address on the blocklist is
  closed again and the client slots are untouched; an unblocked one is admitted as long as a slot is
  free.
\<close>

theorem blocklist_gates_users:
  assumes "conn = Some (fd, s)"
  shows "(blocklist_contains (w_blocklist w) addr \<longrightarrow>
      w_clients (fst (accept_new_inet_connection now conn (Some addr) CLIENT_TYPE_USER False w)) = w_clients w \<and>
      w_socks (fst (accept_new_inet_connection now conn (Some addr) CLIENT_TYPE_USER False w)) fd = None) \<and>
    (\<not> blocklist_contains (w_blocklist w) addr \<and> \<not> list_all c_active (w_clients w) \<longrightarrow>
      (\<exists>c \<in> set (w_clients (fst (accept_new_inet_connection now conn (Some addr) CLIENT_TYPE_USER False w))).
         c_active c \<and> c_fd c = fd \<and> c_type c = CLIENT_TYPE_USER \<and> c_addr_str c = snprintf_s 64 addr))"
proof (intro conjI impI)
  assume "blocklist_contains (w_blocklist w) addr"
  then show "w_clients (fst (accept_new_inet_connection now conn (Some addr) CLIENT_TYPE_USER False w)) = w_clients w"
    "w_socks (fst (accept_new_inet_connection now conn (Some addr) CLIENT_TYPE_USER False w)) fd = None"
    by (simp_all add: accept_new_inet_connection_def assms Let_def frame_simps)
next
  assume free: "\<not> blocklist_contains (w_blocklist w) addr \<and> \<not> list_all c_active (w_clients w)"
  then obtain cs where cs: "add_client (w_clients w) now fd CLIENT_TYPE_USER (Some addr) = Some cs"
    using add_client_None [of "w_clients w" now fd CLIENT_TYPE_USER "Some addr"] by auto
  then have "w_clients (fst (accept_new_inet_connection now conn (Some addr) CLIENT_TYPE_USER False w)) = cs"
    using free by (simp add: accept_new_inet_connection_def assms Let_def frame_simps)
  then show "\<exists>c \<in> set (w_clients (fst (accept_new_inet_connection now conn (Some addr) CLIENT_TYPE_USER False w))).
         c_active c \<and> c_fd c = fd \<and> c_type c = CLIENT_TYPE_USER \<and> c_addr_str c = snprintf_s 64 addr"
    using add_client_split [OF cs] by auto
qed

theorem blocklist_gates_users_witness:
  "w_clients (fst (accept_new_inet_connection zero_time (Some (7, idle_sock)) (Some ''10.9.8.7'') CLIENT_TYPE_USER False world0))
     = w_clients world0"
  using blocklist_gates_users [of "Some (7, idle_sock)" 7 idle_sock world0 "''10.9.8.7''" zero_time]
  by (simp add: blocklist_contains_def world0_def)

lemma remove_first_spec:
  "remove_first xs ip = (if ip \<in> set xs then Some (remove1 ip xs) else None)"
  by (induction xs) auto

text \<open>
  C34: the blocklist behaves as a set of at most 32 addresses. For addresses that fit an entry,
  blocking succeeds unless 32 others are blocked, makes exactly that address blocked and creates no
  duplicate; unblocking succeeds exactly for blocked addresses and makes exactly that one unblocked.
\<close>

theorem blocklist_is_set:
  assumes "distinct bl" "length bl \<le> MAX_BLOCKED_IPS" "ip \<noteq> []" "length ip < 64" "NUL \<notin> set ip"
  shows "(snd (blocklist_add bl ip) \<longleftrightarrow> blocklist_contains bl ip \<or> length bl < MAX_BLOCKED_IPS) \<and>
    (blocklist_contains (fst (blocklist_add bl ip)) q \<longleftrightarrow>
       blocklist_contains bl q \<or> (snd (blocklist_add bl ip) \<and> q = ip)) \<and>
    distinct (fst (blocklist_add bl ip)) \<and> length (fst (blocklist_add bl ip)) \<le> MAX_BLOCKED_IPS \<and>
    (snd (blocklist_remove bl ip) \<longleftrightarrow> blocklist_contains bl ip) \<and>
    (blocklist_contains (fst (blocklist_remove bl ip)) q \<longleftrightarrow> blocklist_contains bl q \<and> q \<noteq> ip)"
proof -
  have "snprintf_s 64 ip = ip" by (rule snprintf_s_id [OF assms(5,4)])
  then show ?thesis
    using assms(1-3)
    by (auto simp: blocklist_add_def blocklist_remove_def blocklist_contains_def list_ex_iff remove_first_spec
        set_remove1_eq)
qed

theorem blocklist_is_set_witness:
  "\<not> blocklist_contains (fst (blocklist_remove [''10.0.0.1'', ''10.0.0.2''] ''10.0.0.2'')) ''10.0.0.2''"
  using blocklist_is_set [of "[''10.0.0.1'', ''10.0.0.2'']" "''10.0.0.2''" "''10.0.0.2''"]
  by (simp add: MAX_BLOCKED_IPS_def)

text \<open>
  An address longer than an entry is accepted by \<^verbatim>\<open>BLOCKIP\<close> and reported as blocked, but what is
  stored is its first 63 characters, so the address itself is not on the list afterwards.
\<close>

theorem long_ip_is_not_blocked:
  assumes "64 \<le> length ip" "NUL \<notin> set ip" "\<not> blocklist_contains bl ip" "length bl < MAX_BLOCKED_IPS"
  shows "snd (blocklist_add bl ip) \<and> \<not> blocklist_contains (fst (blocklist_add bl ip)) ip"
proof -
  have "length (snprintf_s 64 ip) < length ip" using snprintf_s_length [of 64 ip] assms(1) by simp
  then have "snprintf_s 64 ip \<noteq> ip" by auto
  then show ?thesis
    using assms by (auto simp: blocklist_add_def blocklist_contains_def list_ex_iff)
qed

theorem long_ip_is_not_blocked_witness:
  "\<not> blocklist_contains (fst (blocklist_add [] (replicate 70 CHR ''1''))) (replicate 70 CHR ''1'')"
  using long_ip_is_not_blocked [of "replicate 70 CHR ''1''" "[]"]
  by (simp add: blocklist_contains_def MAX_BLOCKED_IPS_def)

lemma pollfds_bound: "sessions_ok w \<Longrightarrow> length (rebuild_pollfds ls (w_clients w)) \<le> MAX_POLL_FDS"
  using length_filter_le [of c_active "w_clients w"]
  by (simp add: rebuild_pollfds_def sessions_ok_def MAX_CLIENTS_def MAX_POLL_FDS_def)

end
