(* ===== verification/Server.thy ===== *)
theory Server
  imports Worker Sessions
begin

text \<open>
  The request handlers of \<^verbatim>\<open>src/server/server.c\<close>: creating and queueing jobs, receiving uploads, and the
  user and administrator commands. They run in the server thread, one at a time. A handler returns
  the new world and whether the C function returned a non-negative value. Log lines are left out.
\<close>

section \<open>The code\<close>

text \<open>The environment of a request: memory and mutexes for a job, the address of a queue node (if
  \<^verbatim>\<open>calloc\<close> gives one), the clock, the storage directories and the configured upload limit.\<close>

record senv =
  se_calloc :: bool
  se_mutex :: bool
  se_node :: "nat option"
  se_now :: timespec
  se_st :: storage
  se_max_upload :: u64

definition MAX_FILENAME_BYTES :: u64 where "MAX_FILENAME_BYTES = 255"

abbreviation line :: "string \<Rightarrow> string" where
  "line s \<equiv> s @ [NL]"

definition enqueue_job ::
  "senv \<Rightarrow> nat \<Rightarrow> job_type \<Rightarrow> string option \<Rightarrow> string option \<Rightarrow> string option \<Rightarrow> world \<Rightarrow> world \<times> bool" where
  "enqueue_job se i type payload input_path stored_path w =
     (let c = w_clients w ! i in
      case job_table_create_job (se_calloc se) (se_mutex se) (se_now se) (w_jobs w) (c_fd c) (Some (c_addr_str c))
             type payload input_path of
        (t, None) \<Rightarrow> send_responsef (c_fd c) (line ''ERR cannot create job'') (w\<lparr>w_jobs := t\<rparr>)
      | (t, Some p) \<Rightarrow>
          let t1 = (case stored_path of None \<Rightarrow> t | Some sp \<Rightarrow> upd_job t p (job_set_stored_path sp)) in
          case job_queue_push (se_node se) (w_queue w) p of (q, ok) \<Rightarrow>
          if \<not> ok then
            let t2 = upd_job t1 p (\<lambda>j. job_set_state (se_now se) JOB_STATE_FAILED (job_set_result ''enqueue failed'' j))
            in send_responsef (c_fd c) (line ''ERR cannot enqueue job'') (w\<lparr>w_jobs := t2, w_queue := q\<rparr>)
          else send_responsef (c_fd c) (line (''JOB '' @ udec (unat (j_id (tbl_jobs t1 ! p)))))
                 (w\<lparr>w_jobs := t1, w_queue := q\<rparr>))"

text \<open>\<^verbatim>\<open>storage_receive_to_file\<close> on a client's descriptor; a session's descriptor is open.\<close>

definition receive_file :: "int \<Rightarrow> nat \<Rightarrow> path \<Rightarrow> world \<Rightarrow> world \<times> bool" where
  "receive_file fd sz p w =
     (case w_socks w fd of None \<Rightarrow> (w, False) | Some s \<Rightarrow>
      case storage_receive_to_file (w_fs w) s sz p of (fs, s1, ok) \<Rightarrow>
        (w\<lparr>w_fs := fs, w_socks := (w_socks w)(fd \<mapsto> s1)\<rparr>, ok))"

definition receive_png_to_upload :: "senv \<Rightarrow> nat \<Rightarrow> u64 \<Rightarrow> nat \<Rightarrow> world \<Rightarrow> world \<times> path option" where
  "receive_png_to_upload se i png_size out_path_size w =
     (let fd = c_fd (w_clients w ! i) in
      if png_size = 0 \<or> png_size > se_max_upload se
      then (fst (send_responsef fd (line ''ERR invalid png size'') w), None)
      else let next_id = tbl_next_id (w_jobs w) in
      case storage_make_upload_path (se_st se) next_id (Some ''png'') out_path_size of
        None \<Rightarrow> (fst (send_responsef fd (line ''ERR path build failed'') w), None)
      | Some out_path \<Rightarrow>
          case receive_file fd (unat png_size) out_path w of (w1, ok) \<Rightarrow>
          if \<not> ok then (fst (send_responsef fd (line ''ERR upload failed'') w1), None)
          else (w1, Some out_path))"

definition receive_extra_to_file ::
  "senv \<Rightarrow> int \<Rightarrow> u64 \<Rightarrow> u64 \<Rightarrow> string \<Rightarrow> nat \<Rightarrow> u64 \<Rightarrow> string \<Rightarrow> world \<Rightarrow> world \<times> path option" where
  "receive_extra_to_file se fd sz max_size label out_path_size job_seq suffix w =
     (if sz > max_size then (fst (send_responsef fd (line (''ERR '' @ label @ '' too large'')) w), None)
      else case storage_make_upload_path (se_st se) job_seq (Some suffix) out_path_size of
        None \<Rightarrow> (fst (send_responsef fd (line ''ERR path build failed'') w), None)
      | Some out_path \<Rightarrow>
          if sz = 0 then
            (case fopen_wb (w_fs w) out_path of
               None \<Rightarrow> (fst (send_responsef fd (line ''ERR cannot create file'') w), None)
             | Some fs1 \<Rightarrow>
                 (case fclose_w fs1 out_path [] of (fs2, ok) \<Rightarrow>
                    let w1 = w\<lparr>w_fs := fs2\<rparr> in
                    if \<not> ok then (fst (send_responsef fd (line ''ERR cannot close file'') w1), None)
                    else (w1, Some out_path)))
          else case receive_file fd (unat sz) out_path w of (w1, ok) \<Rightarrow>
            if \<not> ok then (fst (send_responsef fd (line (''ERR '' @ label @ '' receive failed'')) w1), None)
            else (w1, Some out_path))"

definition send_help :: "int \<Rightarrow> world \<Rightarrow> world \<times> bool" where
  "send_help fd = send_responsef fd (line
     (''OK help user: PING QUIT | ENCODE_TEXT <png_len> <text_len> | ''
      @ ''ENCODE_FILE <png_len> <name_len> <file_len> | DECODE <png_len> | ''
      @ ''VALIDATE <png_len> | CAPACITY <png_len> | STATUS <id> | RESULT <id> | ''
      @ ''META <id> | DOWNLOAD <id> | CANCEL <id>''))"

definition send_admin_help :: "int \<Rightarrow> world \<Rightarrow> world \<times> bool" where
  "send_admin_help fd = send_responsef fd (line
     (''OK help admin: PING QUIT STATS LISTJOBS HISTORY AVGDURATION LISTCLIENTS | ''
      @ ''CANCEL <id> | KICK <fd> | BLOCKIP <ip> | UNBLOCKIP <ip>''))"

text \<open>The three commands that upload one image and queue a job on it.\<close>

definition upload_and_enqueue :: "senv \<Rightarrow> nat \<Rightarrow> job_type \<Rightarrow> protocol_request \<Rightarrow> world \<Rightarrow> world \<times> bool" where
  "upload_and_enqueue se i type r w =
     (case receive_png_to_upload se i (r_size1 r) MAX_JOB_PATH w of
        (w1, None) \<Rightarrow> (w1, True)
      | (w1, Some png_path) \<Rightarrow> enqueue_job se i type None (Some png_path) None w1)"

definition handle_encode_text :: "senv \<Rightarrow> nat \<Rightarrow> protocol_request \<Rightarrow> world \<Rightarrow> world \<times> bool" where
  "handle_encode_text se i r w =
     (case receive_png_to_upload se i (r_size1 r) MAX_JOB_PATH w of
        (w1, None) \<Rightarrow> (w1, True)
      | (w1, Some png_path) \<Rightarrow>
          let next_id = tbl_next_id (w_jobs w1) in
          case receive_extra_to_file se (c_fd (w_clients w1 ! i)) (r_size2 r) (of_nat MAX_TEXT_BYTES) ''text''
                 MAX_JOB_PATH next_id ''txt'' w1 of
            (w2, None) \<Rightarrow> (w2, True)
          | (w2, Some text_path) \<Rightarrow> enqueue_job se i JOB_TYPE_ENCODE_TEXT None (Some png_path) (Some text_path) w2)"

text \<open>The sizes are added with 64-bit wrap-around before they are discarded.\<close>

definition handle_encode_file :: "senv \<Rightarrow> nat \<Rightarrow> protocol_request \<Rightarrow> world \<Rightarrow> world \<times> bool" where
  "handle_encode_file se i r w =
     (let fd = c_fd (w_clients w ! i) in
      if r_size2 r > MAX_FILENAME_BYTES then
        (case w_socks w fd of None \<Rightarrow> (w, False) | Some s \<Rightarrow>
           let s1 = fst (discard_exact (unat (r_size1 r + r_size2 r + r_size3 r)) s)
           in send_responsef fd (line ''ERR filename too long'') (w\<lparr>w_socks := (w_socks w)(fd \<mapsto> s1)\<rparr>))
      else case receive_png_to_upload se i (r_size1 r) MAX_JOB_PATH w of
        (w1, None) \<Rightarrow> (w1, True)
      | (w1, Some png_path) \<Rightarrow>
          case (if r_size2 r > 0 then
                  (case w_socks w1 fd of None \<Rightarrow> (w1, None) | Some s \<Rightarrow>
                   case read_exact (unat (r_size2 r)) s of (s1, d) \<Rightarrow>
                     (w1\<lparr>w_socks := (w_socks w1)(fd \<mapsto> s1)\<rparr>,
                      case d of None \<Rightarrow> None
                      | Some b \<Rightarrow> if length b \<noteq> unat (r_size2 r) then None else Some (cstr (chars_of b))))
                else (w1, Some [])) of
            (w2, None) \<Rightarrow> send_responsef fd (line ''ERR filename read failed'') w2
          | (w2, Some filename) \<Rightarrow>
              let next_id = tbl_next_id (w_jobs w2) in
              case receive_extra_to_file se fd (r_size3 r) (se_max_upload se) ''file''
                     MAX_JOB_PATH next_id ''data'' w2 of
                (w3, None) \<Rightarrow> (w3, True)
              | (w3, Some file_path) \<Rightarrow>
                  enqueue_job se i JOB_TYPE_ENCODE_FILE (Some filename) (Some png_path) (Some file_path) w3)"

definition handle_result :: "int \<Rightarrow> u64 \<Rightarrow> world \<Rightarrow> world \<times> bool" where
  "handle_result fd job_id w =
     (case job_table_find (w_jobs w) job_id of
        None \<Rightarrow> send_responsef fd (line ''ERR job not found'') w
      | Some p \<Rightarrow>
          let job = tbl_jobs (w_jobs w) ! p; st = j_state job in
          if \<not> finished st
          then send_responsef fd (line (''ERR job not finished state='' @ job_state_to_string st)) w
          else send_responsef fd (line (''RESULT '' @ udec (unat job_id) @ '' state='' @ job_state_to_string st
                 @ '' msg='' @ job_get_result job [] MAX_JOB_RESULT)) w)"

definition handle_meta :: "int \<Rightarrow> u64 \<Rightarrow> world \<Rightarrow> world \<times> bool" where
  "handle_meta fd job_id w =
     (case job_table_find (w_jobs w) job_id of
        None \<Rightarrow> send_responsef fd (line ''ERR job not found'') w
      | Some p \<Rightarrow>
          let job = tbl_jobs (w_jobs w) ! p in
          if j_state job \<noteq> JOB_STATE_DONE then send_responsef fd (line ''ERR job not done'') w
          else case job_get_result_meta job [] MAX_JOB_FILENAME of (kind, sz, filename) \<Rightarrow>
            send_responsef fd (line (''META '' @ udec (unat job_id) @ '' type='' @ job_result_kind_to_string kind
              @ '' size='' @ udec (unat sz) @ '' name='' @ filename)) w)"

definition handle_download :: "int \<Rightarrow> u64 \<Rightarrow> world \<Rightarrow> world \<times> bool" where
  "handle_download fd job_id w =
     (case job_table_find (w_jobs w) job_id of
        None \<Rightarrow> send_responsef fd (line ''ERR job not found'') w
      | Some p \<Rightarrow>
          let job = tbl_jobs (w_jobs w) ! p in
          if j_state job \<noteq> JOB_STATE_DONE then send_responsef fd (line ''ERR job not done'') w
          else let path = job_get_output_path job [] MAX_JOB_PATH in
          if path = [] then send_responsef fd (line ''ERR no output'') w
          else case get_file_size_bytes (w_fs w) path of
            None \<Rightarrow> send_responsef fd (line ''ERR stat failed'') w
          | Some sz \<Rightarrow>
              (case send_responsef fd (line (''DATA '' @ udec sz)) w of (w1, ok) \<Rightarrow>
               if \<not> ok then (w1, False)
               else case w_socks w1 fd of None \<Rightarrow> (w1, False) | Some s \<Rightarrow>
                 case storage_send_file (w_fs w1) s path of (s1, ok1) \<Rightarrow>
                   (w1\<lparr>w_socks := (w_socks w1)(fd \<mapsto> s1)\<rparr>, ok1)))"

definition handle_cancel :: "int \<Rightarrow> u64 \<Rightarrow> string \<Rightarrow> world \<Rightarrow> world \<times> bool" where
  "handle_cancel fd job_id refusal w =
     (case job_table_find (w_jobs w) job_id of
        None \<Rightarrow> send_responsef fd (line ''ERR job not found'') w
      | Some p \<Rightarrow>
          (case job_request_cancel (tbl_jobs (w_jobs w) ! p) of (j1, ok) \<Rightarrow>
           let w1 = w\<lparr>w_jobs := upd_job (w_jobs w) p (\<lambda>_. j1)\<rparr> in
           if \<not> ok then send_responsef fd (line refusal) w1
           else send_responsef fd (line (''OK cancel requested '' @ udec (unat job_id))) w1))"

definition handle_status :: "int \<Rightarrow> u64 \<Rightarrow> world \<Rightarrow> world \<times> bool" where
  "handle_status fd job_id w =
     (case job_table_find (w_jobs w) job_id of
        None \<Rightarrow> send_responsef fd (line ''ERR job not found'') w
      | Some p \<Rightarrow> send_responsef fd (line (''STATUS '' @ udec (unat job_id) @ '' ''
                    @ job_state_to_string (j_state (tbl_jobs (w_jobs w) ! p)))) w)"

text \<open>\<^verbatim>\<open>handle_user_command\<close> for the session in slot \<open>i\<close>.\<close>

definition handle_user_command :: "senv \<Rightarrow> nat \<Rightarrow> protocol_request \<Rightarrow> world \<Rightarrow> world \<times> bool" where
  "handle_user_command se i r w =
     (let fd = c_fd (w_clients w ! i) in
      case r_command r of
        PROTO_CMD_PING \<Rightarrow> send_responsef fd (line ''PONG'') w
      | PROTO_CMD_HELP \<Rightarrow> send_help fd w
      | PROTO_CMD_SUBMIT \<Rightarrow>
          if r_argument1 r = [] then send_responsef fd (line ''ERR empty payload'') w
          else enqueue_job se i JOB_TYPE_TEXT (Some (r_argument1 r)) None None w
      | PROTO_CMD_ENCODE_TEXT \<Rightarrow> handle_encode_text se i r w
      | PROTO_CMD_ENCODE_FILE \<Rightarrow> handle_encode_file se i r w
      | PROTO_CMD_DECODE \<Rightarrow> upload_and_enqueue se i JOB_TYPE_DECODE r w
      | PROTO_CMD_VALIDATE \<Rightarrow> upload_and_enqueue se i JOB_TYPE_VALIDATE_IMAGE r w
      | PROTO_CMD_CAPACITY \<Rightarrow> upload_and_enqueue se i JOB_TYPE_ANALYZE_CAPACITY r w
      | PROTO_CMD_VALIDATE_IMAGE \<Rightarrow>
          if r_argument1 r = [] then send_responsef fd (line ''ERR empty path'') w
          else enqueue_job se i JOB_TYPE_VALIDATE_IMAGE None (Some (r_argument1 r)) None w
      | PROTO_CMD_ANALYZE_CAPACITY \<Rightarrow>
          if r_argument1 r = [] then send_responsef fd (line ''ERR empty path'') w
          else enqueue_job se i JOB_TYPE_ANALYZE_CAPACITY None (Some (r_argument1 r)) None w
      | PROTO_CMD_STATUS \<Rightarrow> handle_status fd (r_job_id r) w
      | PROTO_CMD_RESULT \<Rightarrow> handle_result fd (r_job_id r) w
      | PROTO_CMD_META \<Rightarrow> handle_meta fd (r_job_id r) w
      | PROTO_CMD_DOWNLOAD \<Rightarrow> handle_download fd (r_job_id r) w
      | PROTO_CMD_CANCEL \<Rightarrow> handle_cancel fd (r_job_id r) ''ERR cannot cancel job'' w
      | PROTO_CMD_QUIT \<Rightarrow> (close_client i (fst (send_responsef fd (line ''BYE'') w)), True)
      | PROTO_CMD_LISTJOBS \<Rightarrow> send_responsef fd (line ''ERR admin command'') w
      | PROTO_CMD_STATS \<Rightarrow> send_responsef fd (line ''ERR admin command'') w
      | PROTO_CMD_LISTCLIENTS \<Rightarrow> send_responsef fd (line ''ERR admin command'') w
      | PROTO_CMD_HISTORY \<Rightarrow> send_responsef fd (line ''ERR admin command'') w
      | PROTO_CMD_AVGDURATION \<Rightarrow> send_responsef fd (line ''ERR admin command'') w
      | PROTO_CMD_KICK \<Rightarrow> send_responsef fd (line ''ERR admin command'') w
      | PROTO_CMD_BLOCKIP \<Rightarrow> send_responsef fd (line ''ERR admin command'') w
      | PROTO_CMD_UNBLOCKIP \<Rightarrow> send_responsef fd (line ''ERR admin command'') w
      | PROTO_CMD_UNKNOWN \<Rightarrow> send_responsef fd (line ''ERR unknown command'') w)"

subsection \<open>Administrator commands\<close>

definition count_active :: "client_session list \<Rightarrow> nat" where
  "count_active cs = length (filter c_active cs)"

text \<open>The scan of \<^verbatim>\<open>KICK\<close>: the first active user session on the descriptor.\<close>

fun kick_slot :: "client_session list \<Rightarrow> int \<Rightarrow> nat \<Rightarrow> nat option" where
  "kick_slot [] target_fd i = None"
| "kick_slot (c # cs) target_fd i =
     (if c_active c \<and> c_fd c = target_fd \<and> c_type c = CLIENT_TYPE_USER then Some i
      else kick_slot cs target_fd (Suc i))"

definition handle_kick :: "int \<Rightarrow> string \<Rightarrow> world \<Rightarrow> world \<times> bool" where
  "handle_kick fd arg w =
     (case parse_int_arg arg of
        None \<Rightarrow> send_responsef fd (line ''ERR invalid fd'') w
      | Some target_fd \<Rightarrow>
          (case kick_slot (w_clients w) target_fd 0 of
             None \<Rightarrow> send_responsef fd (line ''ERR client not found'') w
           | Some k \<Rightarrow>
               let w1 = w\<lparr>w_clients := (w_clients w)[k := (w_clients w ! k)\<lparr>c_kick_requested := True\<rparr>]\<rparr>;
                   w2 = fst (send_responsef target_fd (line ''ERR kicked by admin'') w1)
               in send_responsef fd (line (''OK kicked fd='' @ sdec target_fd)) w2))"

definition mark_blocked :: "string \<Rightarrow> client_session \<Rightarrow> client_session" where
  "mark_blocked ip c =
     (if c_active c \<and> c_type c = CLIENT_TYPE_USER \<and> c_addr_str c = ip then c\<lparr>c_kick_requested := True\<rparr> else c)"

definition handle_blockip :: "int \<Rightarrow> string \<Rightarrow> world \<Rightarrow> world \<times> bool" where
  "handle_blockip fd ip w =
     (if ip = [] then send_responsef fd (line ''ERR empty ip'') w
      else case blocklist_add (w_blocklist w) ip of (bl, ok) \<Rightarrow>
      if \<not> ok then send_responsef fd (line ''ERR blocklist full'') (w\<lparr>w_blocklist := bl\<rparr>)
      else let kicked = length (filter (\<lambda>c. c_active c \<and> c_type c = CLIENT_TYPE_USER \<and> c_addr_str c = ip) (w_clients w))
           in send_responsef fd (line (''OK blocked ip='' @ ip @ '' kicked='' @ udec kicked))
                (w\<lparr>w_blocklist := bl, w_clients := map (mark_blocked ip) (w_clients w)\<rparr>))"

definition handle_unblockip :: "int \<Rightarrow> string \<Rightarrow> world \<Rightarrow> world \<times> bool" where
  "handle_unblockip fd ip w =
     (if ip = [] then send_responsef fd (line ''ERR empty ip'') w
      else case blocklist_remove (w_blocklist w) ip of (bl, ok) \<Rightarrow>
      let w1 = w\<lparr>w_blocklist := bl\<rparr> in
      if \<not> ok then send_responsef fd (line ''ERR not in blocklist'') w1
      else let out = (case blocklist_format bl BUFFER_SIZE of None \<Rightarrow> [] | Some x \<Rightarrow> x)
           in send_responsef fd (line (''OK unblocked ip='' @ ip @ '' blocklist='' @ out)) w1)"

text \<open>\<^verbatim>\<open>handle_admin_command\<close> for the session in slot \<open>i\<close>.\<close>

definition handle_admin_command :: "nat \<Rightarrow> protocol_request \<Rightarrow> world \<Rightarrow> world \<times> bool" where
  "handle_admin_command i r w =
     (let fd = c_fd (w_clients w ! i) in
      case r_command r of
        PROTO_CMD_PING \<Rightarrow> send_responsef fd (line ''PONG'') w
      | PROTO_CMD_HELP \<Rightarrow> send_admin_help fd w
      | PROTO_CMD_STATS \<Rightarrow>
          (let st = job_table_collect_stats (w_jobs w) in
           send_responsef fd (line (''STATS total='' @ udec (st_total st) @ '' queued='' @ udec (st_queued st)
             @ '' running='' @ udec (st_running st) @ '' done='' @ udec (st_done st) @ '' failed='' @ udec (st_failed st)
             @ '' canceled='' @ udec (st_canceled st) @ '' avg_ms='' @ fmt_fixed 1 (st_avg_duration_ms st)
             @ '' clients='' @ udec (count_active (w_clients w)))) w)
      | PROTO_CMD_AVGDURATION \<Rightarrow>
          (let st = job_table_collect_stats (w_jobs w) in
           send_responsef fd (line (''AVGDURATION ms='' @ fmt_fixed 2 (st_avg_duration_ms st)
             @ '' samples='' @ udec (st_done st + st_failed st))) w)
      | PROTO_CMD_LISTJOBS \<Rightarrow>
          (case job_table_format_list (w_jobs w) (BUFFER_SIZE * 2) of
             None \<Rightarrow> send_responsef fd (line ''ERR list failed'') w
           | Some l \<Rightarrow> send_responsef fd (line (''JOBS '' @ l)) w)
      | PROTO_CMD_HISTORY \<Rightarrow>
          (case job_table_format_history (w_jobs w) (BUFFER_SIZE * 2) 50 of
             None \<Rightarrow> send_responsef fd (line ''ERR history failed'') w
           | Some h \<Rightarrow> send_responsef fd (line (''HISTORY '' @ h)) w)
      | PROTO_CMD_LISTCLIENTS \<Rightarrow>
          (case format_client_list (w_clients w) (BUFFER_SIZE * 2) of
             None \<Rightarrow> send_responsef fd (line ''CLIENTS '') w
           | Some l \<Rightarrow> send_responsef fd (line (''CLIENTS '' @ l)) w)
      | PROTO_CMD_CANCEL \<Rightarrow> handle_cancel fd (r_job_id r) ''ERR cannot cancel'' w
      | PROTO_CMD_KICK \<Rightarrow> handle_kick fd (r_argument1 r) w
      | PROTO_CMD_BLOCKIP \<Rightarrow> handle_blockip fd (r_argument1 r) w
      | PROTO_CMD_UNBLOCKIP \<Rightarrow> handle_unblockip fd (r_argument1 r) w
      | PROTO_CMD_QUIT \<Rightarrow> (close_client i (fst (send_responsef fd (line ''BYE'') w)), True)
      | _ \<Rightarrow> send_responsef fd (line ''ERR unknown admin command'') w)"

text \<open>One command of the client in slot \<open>i\<close>; parsing never fails on a line that was read.\<close>

definition handle_client_command :: "senv \<Rightarrow> nat \<Rightarrow> world \<Rightarrow> world" where
  "handle_client_command se i w =
     (let c = w_clients w ! i in
      case w_socks w (c_fd c) of None \<Rightarrow> close_client i w | Some s \<Rightarrow>
      case read_line BUFFER_SIZE s of (s1, r) \<Rightarrow>
      let w1 = w\<lparr>w_socks := (w_socks w)(c_fd c \<mapsto> s1)\<rparr> in
      case r of None \<Rightarrow> close_client i w1 | Some buffer \<Rightarrow>
      if buffer = [] then close_client i w1
      else let request = protocol_parse_line buffer in
        if c_type c = CLIENT_TYPE_ADMIN then fst (handle_admin_command i request w1)
        else fst (handle_user_command se i request w1))"

section \<open>Frames\<close>

text \<open>
  Steps that only move data: jobs, queue, clients and blocklist are as before and no descriptor is
  closed. Files may have been written.
\<close>

definition io_only :: "world \<Rightarrow> world \<Rightarrow> bool" where
  "io_only w w' \<longleftrightarrow> w_clients w' = w_clients w \<and> w_blocklist w' = w_blocklist w \<and> w_jobs w' = w_jobs w \<and>
     w_queue w' = w_queue w \<and> (\<forall>q. w_socks w q \<noteq> None \<longrightarrow> w_socks w' q \<noteq> None)"

lemma io_only_refl: "io_only w w"
  by (simp add: io_only_def)

lemma io_only_trans: "io_only u v \<Longrightarrow> io_only v w \<Longrightarrow> io_only u w"
  by (auto simp: io_only_def)

lemma io_only_send: "io_only w (fst (send_responsef fd t w))"
proof -
  have "w_socks w q \<noteq> None \<longrightarrow> w_socks (fst (send_responsef fd t w)) q \<noteq> None" for q
    using send_responsef_socks(1) [of q fd t w] send_responsef_socks(2) [of fd t w] by (cases "q = fd") auto
  then show ?thesis by (simp add: io_only_def frame_simps)
qed

lemma io_only_receive: "receive_file fd n p w = (w1, ok) \<Longrightarrow> io_only w w1"
  by (auto simp: receive_file_def io_only_def split: option.splits prod.splits)

lemma io_only_then_send: "io_only w w1 \<Longrightarrow> io_only w (fst (send_responsef fd t w1))"
  by (rule io_only_trans [OF _ io_only_send])

lemma io_only_png: "receive_png_to_upload se i n m w = (w1, r) \<Longrightarrow> io_only w w1"
proof -
  have "io_only w (fst (receive_png_to_upload se i n m w))"
    by (auto simp: receive_png_to_upload_def Let_def io_only_send io_only_receive io_only_then_send
        split: option.split prod.split)
  then show "receive_png_to_upload se i n m w = (w1, r) \<Longrightarrow> io_only w w1" by simp
qed

lemma io_only_fs: "io_only w (w\<lparr>w_fs := fs\<rparr>)"
  by (simp add: io_only_def)

lemma io_only_extra: "receive_extra_to_file se fd n m l k q sfx w = (w1, r) \<Longrightarrow> io_only w w1"
proof -
  have "io_only w (fst (receive_extra_to_file se fd n m l k q sfx w))"
    by (auto simp: receive_extra_to_file_def Let_def io_only_send io_only_receive io_only_then_send io_only_fs
        split: option.split prod.split)
  then show "receive_extra_to_file se fd n m l k q sfx w = (w1, r) \<Longrightarrow> io_only w w1" by simp
qed

lemma io_only_sock: "io_only w (w\<lparr>w_socks := (w_socks w)(fd \<mapsto> s)\<rparr>)"
  by (simp add: io_only_def)

lemma io_only_send_eq: "send_responsef fd t w = (w1, ok) \<Longrightarrow> io_only w w1"
  using io_only_send [of w fd t] by simp

lemma io_only_then_sock: "io_only w v \<Longrightarrow> io_only w (v\<lparr>w_socks := (w_socks v)(fd \<mapsto> s)\<rparr>)"
  by (rule io_only_trans [OF _ io_only_sock])

lemma io_only_download: "io_only w (fst (handle_download fd job_id w))"
  by (auto simp: handle_download_def Let_def io_only_send intro: io_only_then_sock io_only_send_eq
      split: option.split prod.split)

lemma io_only_queries:
  "io_only w (fst (handle_status fd job_id w))" "io_only w (fst (handle_result fd job_id w))"
  "io_only w (fst (handle_meta fd job_id w))" "io_only w (fst (send_help fd w))" "io_only w (fst (send_admin_help fd w))"
  by (simp_all add: handle_status_def handle_result_def handle_meta_def send_help_def send_admin_help_def Let_def
      io_only_send split: option.split prod.split)

section \<open>What a command does to the jobs\<close>

text \<open>A job is added to the table; the queue is not mentioned.\<close>

definition adds_job :: "job_table \<Rightarrow> job \<Rightarrow> job_table \<Rightarrow> bool" where
  "adds_job t j t' \<longleftrightarrow> length (tbl_jobs t) < MAX_JOBS \<and> job_fits j \<and> j_id j = tbl_next_id t \<and>
     t' = t\<lparr>tbl_jobs := tbl_jobs t @ [j], tbl_next_id := tbl_next_id t + 1\<rparr>"

text \<open>
  The four things a command can do to jobs and queue: nothing; request a cancellation; add a queued
  job and push it; add a job that could not be pushed and has failed.
\<close>

inductive jobs_step :: "job_table \<Rightarrow> job_queue \<Rightarrow> job_table \<Rightarrow> job_queue \<Rightarrow> bool" where
  js_none: "jobs_step t q t q"
| js_cancel: "p < length (tbl_jobs t) \<Longrightarrow> jobs_step t q (upd_job t p (\<lambda>j. fst (job_request_cancel j))) q"
| js_push: "adds_job t j t' \<Longrightarrow> j_state j = JOB_STATE_QUEUED \<Longrightarrow> push_step q (length (tbl_jobs t)) q' \<Longrightarrow> jobs_step t q t' q'"
| js_fail: "adds_job t j t' \<Longrightarrow> j_state j = JOB_STATE_FAILED \<Longrightarrow> jobs_step t q t' q"

inductive_cases jobs_stepE: "jobs_step t q t' q'"

text \<open>\<^verbatim>\<open>calloc\<close> never returns the address of a node that is in use.\<close>

definition fresh_node :: "senv \<Rightarrow> job_queue \<Rightarrow> bool" where
  "fresh_node se q \<longleftrightarrow> (case se_node se of None \<Rightarrow> True | Some a \<Rightarrow> q_nodes q a = None)"

lemma push_cases:
  assumes "case node of None \<Rightarrow> True | Some a \<Rightarrow> q_nodes q a = None" "job_queue_push node q p = (q', ok)"
  shows "if ok then push_step q p q' else q' = q"
proof (cases node)
  case None
  then show ?thesis using assms(2) by (auto simp: job_queue_push_def)
next
  case (Some a)
  then have a: "q_nodes q a = None" using assms(1) by simp
  show ?thesis
  proof (cases "q_stopped q")
    case True
    then show ?thesis using push_refused [of q a p] a assms(2) Some by auto
  next
    case False
    then have "ok" using assms(2) Some by (auto simp: job_queue_push_def Let_def split: option.splits)
    then show ?thesis using a assms(2) Some by (auto simp: push_step_def)
  qed
qed

lemma upd_last: "upd_job (t\<lparr>tbl_jobs := js @ [j], tbl_next_id := n\<rparr>) (length js) f = t\<lparr>tbl_jobs := js @ [f j], tbl_next_id := n\<rparr>"
  by (simp add: upd_job_def)

lemma create_job_cases:
  "job_table_create_job a b now t fd ip type payload input = (t, None) \<or>
   (length (tbl_jobs t) < MAX_JOBS \<and> job_table_create_job a b now t fd ip type payload input =
      (t\<lparr>tbl_jobs := tbl_jobs t @ [new_job now (tbl_next_id t) fd ip type payload input],
         tbl_next_id := tbl_next_id t + 1\<rparr>, Some (length (tbl_jobs t))))"
  by (simp add: job_table_create_job_def)

text \<open>The job \<^verbatim>\<open>enqueue_job\<close> makes, before it is pushed.\<close>

definition submitted ::
  "senv \<Rightarrow> nat \<Rightarrow> job_type \<Rightarrow> string option \<Rightarrow> string option \<Rightarrow> string option \<Rightarrow> world \<Rightarrow> job" where
  "submitted se i type payload input stored w =
     (let c = w_clients w ! i;
          j = new_job (se_now se) (tbl_next_id (w_jobs w)) (c_fd c) (Some (c_addr_str c)) type payload input
      in case stored of None \<Rightarrow> j | Some sp \<Rightarrow> job_set_stored_path sp j)"

lemma submitted_fields:
  "j_id (submitted se i type payload input stored w) = tbl_next_id (w_jobs w)"
  "j_state (submitted se i type payload input stored w) = JOB_STATE_QUEUED"
  "j_type (submitted se i type payload input stored w) = type"
  "job_fits (submitted se i type payload input stored w)"
  using new_job_fits
  by (auto simp: submitted_def Let_def frame_simps intro!: job_ops_fits split: option.split)
    (simp_all add: new_job_def job_set_stored_path_def)

definition with_job :: "job_table \<Rightarrow> job \<Rightarrow> job_table" where
  "with_job t j = t\<lparr>tbl_jobs := tbl_jobs t @ [j], tbl_next_id := tbl_next_id t + 1\<rparr>"

lemma enqueue_job_cases:
  fixes w se i type payload input stored
  defines "c \<equiv> w_clients w ! i" and "j \<equiv> submitted se i type payload input stored w"
  shows "enqueue_job se i type payload input stored w = send_responsef (c_fd c) (line ''ERR cannot create job'') w \<or>
    (length (tbl_jobs (w_jobs w)) < MAX_JOBS \<and>
     (case job_queue_push (se_node se) (w_queue w) (length (tbl_jobs (w_jobs w))) of (q, ok) \<Rightarrow>
        enqueue_job se i type payload input stored w =
          (if ok then send_responsef (c_fd c) (line (''JOB '' @ udec (unat (j_id j))))
               (w\<lparr>w_jobs := with_job (w_jobs w) j, w_queue := q\<rparr>)
           else send_responsef (c_fd c) (line ''ERR cannot enqueue job'')
               (w\<lparr>w_jobs := with_job (w_jobs w)
                   (job_set_state (se_now se) JOB_STATE_FAILED (job_set_result ''enqueue failed'' j)), w_queue := q\<rparr>))))"
proof -
  let ?t = "w_jobs w"
  let ?new = "new_job (se_now se) (tbl_next_id ?t) (c_fd c) (Some (c_addr_str c)) type payload input"
  obtain q ok where q: "job_queue_push (se_node se) (w_queue w) (length (tbl_jobs ?t)) = (q, ok)"
    by (cases "job_queue_push (se_node se) (w_queue w) (length (tbl_jobs ?t))")
  from create_job_cases [of "se_calloc se" "se_mutex se" "se_now se" ?t "c_fd c" "Some (c_addr_str c)" type payload input]
  show ?thesis
  proof (elim disjE conjE)
    assume "job_table_create_job (se_calloc se) (se_mutex se) (se_now se) ?t (c_fd c) (Some (c_addr_str c)) type payload input = (?t, None)"
    then show ?thesis by (simp add: enqueue_job_def c_def)
  next
    assume n: "length (tbl_jobs ?t) < MAX_JOBS"
      and cr: "job_table_create_job (se_calloc se) (se_mutex se) (se_now se) ?t (c_fd c) (Some (c_addr_str c)) type payload input
        = (?t\<lparr>tbl_jobs := tbl_jobs ?t @ [?new], tbl_next_id := tbl_next_id ?t + 1\<rparr>, Some (length (tbl_jobs ?t)))"
    show ?thesis
      using n q cr
      by (cases stored)
        (simp_all add: enqueue_job_def c_def j_def submitted_def with_job_def upd_last Let_def)
  qed
qed

text \<open>\<^verbatim>\<open>enqueue_job\<close>: what it leaves of the world, and its effect on jobs and queue.\<close>

lemma adds_with_job: "length (tbl_jobs t) < MAX_JOBS \<Longrightarrow> job_fits j \<Longrightarrow> j_id j = tbl_next_id t \<Longrightarrow> adds_job t j (with_job t j)"
  by (simp add: adds_job_def with_job_def)

definition job_effect :: "world \<Rightarrow> world \<Rightarrow> bool" where
  "job_effect w w' \<longleftrightarrow> jobs_step (w_jobs w) (w_queue w) (w_jobs w') (w_queue w') \<and> w_clients w' = w_clients w \<and>
     w_blocklist w' = w_blocklist w \<and> (\<forall>q. w_socks w q \<noteq> None \<longrightarrow> w_socks w' q \<noteq> None)"

lemma job_effect_io: "io_only w w' \<Longrightarrow> job_effect w w'"
  by (auto simp: io_only_def job_effect_def intro: js_none)

lemma job_effect_after_io: "io_only w v \<Longrightarrow> job_effect v w' \<Longrightarrow> job_effect w w'"
  by (auto simp: io_only_def job_effect_def)

lemma job_effect_then_io: "job_effect w v \<Longrightarrow> io_only v w' \<Longrightarrow> job_effect w w'"
  by (auto simp: io_only_def job_effect_def)

lemma enqueue_job_effect:
  assumes "fresh_node se (w_queue w)"
  shows "job_effect w (fst (enqueue_job se i type payload input stored w))"
proof -
  let ?j = "submitted se i type payload input stored w" and ?n = "length (tbl_jobs (w_jobs w))"
  obtain q ok where q: "job_queue_push (se_node se) (w_queue w) ?n = (q, ok)"
    by (cases "job_queue_push (se_node se) (w_queue w) ?n")
  note sf = submitted_fields [of se i type payload input stored w]
  have pushed: "if ok then push_step (w_queue w) ?n q else q = w_queue w"
    using push_cases [OF _ q] assms by (simp add: fresh_node_def)
  let ?j2 = "job_set_state (se_now se) JOB_STATE_FAILED (job_set_result ''enqueue failed'' ?j)"
  have j2: "j_id ?j2 = tbl_next_id (w_jobs w)" "job_fits ?j2" "j_state ?j2 = JOB_STATE_FAILED"
    by (simp_all add: frame_simps sf job_ops_fits) (simp add: job_set_state_def Let_def)
  have queued: "job_effect w (w\<lparr>w_jobs := with_job (w_jobs w) ?j, w_queue := q\<rparr>)" if "?n < MAX_JOBS" ok
    using pushed that js_push [OF adds_with_job [OF that(1) sf(4,1)] sf(2)]
    by (simp add: job_effect_def)
  have failed: "job_effect w (w\<lparr>w_jobs := with_job (w_jobs w) ?j2, w_queue := q\<rparr>)" if "?n < MAX_JOBS" "\<not> ok"
    using pushed that js_fail [OF adds_with_job [OF that(1) j2(2,1)] j2(3)] by (simp add: job_effect_def)
  from enqueue_job_cases [of se i type payload input stored w, unfolded q prod.case] show ?thesis
    using queued failed job_effect_then_io [OF _ io_only_send] job_effect_io [OF io_only_send]
    by (auto split: if_splits)
qed


lemma fresh_node_io: "io_only w v \<Longrightarrow> fresh_node se (w_queue v) \<longleftrightarrow> fresh_node se (w_queue w)"
  by (simp add: io_only_def)

lemma enqueue_after_io:
  "io_only w v \<Longrightarrow> fresh_node se (w_queue w) \<Longrightarrow> job_effect w (fst (enqueue_job se i type payload input stored v))"
  by (rule job_effect_after_io [OF _ enqueue_job_effect]) (simp_all add: fresh_node_io)

lemma upload_and_enqueue_effect: "fresh_node se (w_queue w) \<Longrightarrow> job_effect w (fst (upload_and_enqueue se i type r w))"
  by (auto simp: upload_and_enqueue_def split: prod.split option.split
      intro: enqueue_after_io job_effect_io io_only_png)

lemma handle_encode_text_effect: "fresh_node se (w_queue w) \<Longrightarrow> job_effect w (fst (handle_encode_text se i r w))"
  by (auto simp: handle_encode_text_def Let_def split: prod.split option.split
      intro: enqueue_after_io job_effect_io io_only_png io_only_extra io_only_trans)

lemma handle_encode_file_effect:
  assumes fresh: "fresh_node se (w_queue w)"
  shows "job_effect w (fst (handle_encode_file se i r w))"
proof -
  let ?name = "\<lambda>w1 fd. (if r_size2 r > 0 then
                  (case w_socks w1 fd of None \<Rightarrow> (w1, None) | Some s \<Rightarrow>
                   case read_exact (unat (r_size2 r)) s of (s1, d) \<Rightarrow>
                     (w1\<lparr>w_socks := (w_socks w1)(fd \<mapsto> s1)\<rparr>,
                      case d of None \<Rightarrow> None
                      | Some b \<Rightarrow> if length b \<noteq> unat (r_size2 r) then None else Some (cstr (chars_of b))))
                else (w1, Some []))"
  have name: "io_only w1 w2" if "?name w1 fd = (w2, x)" for w1 w2 fd x
    using that by (auto simp: io_only_sock io_only_refl split: if_splits option.splits prod.splits)
  show ?thesis
    unfolding handle_encode_file_def Let_def
    using fresh
    by (auto split: prod.split option.split simp del: split_paired_All
        intro: enqueue_after_io job_effect_io io_only_png io_only_extra io_only_trans io_only_then_send
          io_only_sock io_only_refl io_only_trans [OF io_only_png name] io_only_trans [OF name io_only_extra])
qed

lemma handle_cancel_effect: "job_effect w (fst (handle_cancel fd n refusal w))"
proof -
  have "job_effect w (w\<lparr>w_jobs := upd_job (w_jobs w) p (\<lambda>_. j1)\<rparr>)"
    if "job_table_find (w_jobs w) n = Some p" "job_request_cancel (tbl_jobs (w_jobs w) ! p) = (j1, ok)" for p j1 ok
    using js_cancel [OF conjunct1 [OF table_find_sound [OF that(1)]], of "w_queue w"] that(2)
    by (simp add: job_effect_def upd_job_def)
  then show ?thesis
    by (auto simp: handle_cancel_def Let_def split: prod.split option.split
        intro: job_effect_io io_only_send job_effect_then_io)
qed

text \<open>A command, seen from the jobs and from the sessions.\<close>

definition cmd_effect :: "world \<Rightarrow> world \<Rightarrow> bool" where
  "cmd_effect w w' \<longleftrightarrow> jobs_step (w_jobs w) (w_queue w) (w_jobs w') (w_queue w') \<and> (sessions_ok w \<longrightarrow> sessions_ok w')"

lemma cmd_effect_job: "job_effect w w' \<Longrightarrow> cmd_effect w w'"
  by (auto simp: cmd_effect_def job_effect_def intro: sessions_ok_same_clients)

lemma cmd_effect_io: "io_only w w' \<Longrightarrow> cmd_effect w w'"
  by (rule cmd_effect_job [OF job_effect_io])

lemma cmd_effect_close: "cmd_effect w w' \<Longrightarrow> cmd_effect w (close_client i w')"
  by (simp add: cmd_effect_def frame_simps close_client_ok)

lemma cmd_effect_after_io: "io_only w v \<Longrightarrow> cmd_effect v w' \<Longrightarrow> cmd_effect w w'"
  using cmd_effect_io [of w v] by (auto simp: io_only_def cmd_effect_def)

lemma cmd_effect_then_io: "cmd_effect w v \<Longrightarrow> io_only v w' \<Longrightarrow> cmd_effect w w'"
  using cmd_effect_io [of v w'] by (auto simp: io_only_def cmd_effect_def)

lemma handle_user_command_effect:
  assumes "fresh_node se (w_queue w)"
  shows "cmd_effect w (fst (handle_user_command se i r w))"
  using assms
  by (cases "r_command r")
    (simp_all add: handle_user_command_def Let_def cmd_effect_io io_only_send io_only_queries io_only_download
      cmd_effect_job enqueue_job_effect handle_encode_text_effect handle_encode_file_effect
      upload_and_enqueue_effect handle_cancel_effect cmd_effect_close)

subsection \<open>Administrator commands\<close>

lemma same_fields_filter:
  assumes "list_all2 (\<lambda>c c'. c_fd c' = c_fd c \<and> c_type c' = c_type c \<and> c_active c' = c_active c) cs cs'"
  shows "map c_fd (filter c_active cs') = map c_fd (filter c_active cs)"
    "length (filter active_admin cs') = length (filter active_admin cs)"
  using assms by (induction rule: list_all2_induct) (auto simp: active_admin_def)

lemma cmd_effect_flags:
  assumes "list_all2 (\<lambda>c c'. c_fd c' = c_fd c \<and> c_type c' = c_type c \<and> c_active c' = c_active c) (w_clients w) cs"
    "w_clients w' = cs" "w_jobs w' = w_jobs w" "w_queue w' = w_queue w" "w_socks w' = w_socks w"
  shows "cmd_effect w w'"
proof -
  have "\<forall>c \<in> set cs. c_active c \<longrightarrow> w_socks w (c_fd c) \<noteq> None"
    if "\<forall>c \<in> set (w_clients w). c_active c \<longrightarrow> w_socks w (c_fd c) \<noteq> None"
    using assms(1) that by (induction rule: list_all2_induct) auto
  then show ?thesis
    using same_fields_filter [OF assms(1)] assms(2-5) list_all2_lengthD [OF assms(1)]
    by (auto simp: cmd_effect_def sessions_ok_def js_none)
qed

lemma kick_slot_Some: "kick_slot cs q i = Some k \<Longrightarrow> i \<le> k \<and> k < i + length cs"
  by (induction cs q i rule: kick_slot.induct) (auto split: if_splits)

lemma handle_kick_effect: "cmd_effect w (fst (handle_kick fd arg w))"
proof -
  have "cmd_effect w (w\<lparr>w_clients := (w_clients w)[k := (w_clients w ! k)\<lparr>c_kick_requested := True\<rparr>]\<rparr>)" for k
    by (rule cmd_effect_flags, cases "k < length (w_clients w)")
      (auto simp: list_all2_conv_all_nth nth_list_update)
  then show ?thesis
    by (auto simp: handle_kick_def Let_def split: option.split
        intro: cmd_effect_io io_only_send cmd_effect_then_io io_only_then_send)
qed

lemma handle_block_effects:
  "cmd_effect w (fst (handle_blockip fd ip w))" "cmd_effect w (fst (handle_unblockip fd ip w))"
proof -
  have b: "cmd_effect w (w\<lparr>w_blocklist := bl, w_clients := map (mark_blocked ip) (w_clients w)\<rparr>)"
    "cmd_effect w (w\<lparr>w_blocklist := bl\<rparr>)" for bl
    by (rule cmd_effect_flags; auto simp: list_all2_conv_all_nth mark_blocked_def)+
  show "cmd_effect w (fst (handle_blockip fd ip w))"
    by (auto simp: handle_blockip_def Let_def split: prod.split
        intro: cmd_effect_io io_only_send cmd_effect_then_io [OF b(1)] cmd_effect_then_io [OF b(2)])
  show "cmd_effect w (fst (handle_unblockip fd ip w))"
    by (auto simp: handle_unblockip_def Let_def split: prod.split
        intro: cmd_effect_io io_only_send cmd_effect_then_io [OF b(1)] cmd_effect_then_io [OF b(2)])
qed

lemma handle_admin_command_effect: "cmd_effect w (fst (handle_admin_command i r w))"
  by (cases "r_command r")
    (simp_all add: handle_admin_command_def Let_def cmd_effect_io io_only_send io_only_queries
      cmd_effect_job handle_cancel_effect cmd_effect_close handle_kick_effect handle_block_effects split: option.split)

lemma handle_client_command_effect:
  assumes "fresh_node se (w_queue w)"
  shows "cmd_effect w (handle_client_command se i w)"
proof (cases "w_socks w (c_fd (w_clients w ! i))")
  case None
  then show ?thesis by (simp add: handle_client_command_def Let_def cmd_effect_close cmd_effect_io io_only_refl)
next
  case (Some s)
  obtain s1 x where rd: "read_line BUFFER_SIZE s = (s1, x)" by (cases "read_line BUFFER_SIZE s")
  let ?w1 = "w\<lparr>w_socks := (w_socks w)(c_fd (w_clients w ! i) \<mapsto> s1)\<rparr>"
  have io: "io_only w ?w1" by (rule io_only_sock)
  have close: "cmd_effect w (close_client i ?w1)" by (intro cmd_effect_close cmd_effect_io io)
  have user: "cmd_effect w (fst (handle_user_command se i r ?w1))" for r
    using assms by (intro cmd_effect_after_io [OF io] handle_user_command_effect) simp
  have admin: "cmd_effect w (fst (handle_admin_command i r ?w1))" for r
    by (intro cmd_effect_after_io [OF io] handle_admin_command_effect)
  show ?thesis
    using close user admin by (cases x) (simp_all add: handle_client_command_def Some rd Let_def)
qed

end
