(* ===== verification/Requests.thy ===== *)
theory Requests
  imports Server
begin

text \<open>
  What a single request achieves: an upload ends in the right files and the right job, users cannot
  reach the administration, and which replies are lost or leave the stream out of step.
\<close>

section \<open>Replies and uploads on a working connection\<close>

lemma write_all_loop_input: "s_in (fst (write_all_loop buf k s)) = s_in s"
proof (induction buf k s rule: write_all_loop.induct)
  case (1 buf k s)
  obtain s1 r where wr: "sock_write (drop k buf) s = (s1, r)" by (metis surj_pair)
  have "s_in s1 = s_in s"
    using wr by (auto simp: sock_write_def Let_def split: list.splits io_step.splits)
  then show ?case
    using "1.IH"(1) [OF _ wr [symmetric]] "1.IH"(2) [OF _ wr [symmetric]] wr
    by (subst write_all_loop.simps) (cases r; simp)
qed

text \<open>A reply shorter than its buffer arrives; a longer one is not sent at all.\<close>

lemma send_responsef_arrives:
  assumes "w_socks w fd = Some s" "calm_writes s" "length t < BUFFER_SIZE"
  shows "\<exists>s1. send_responsef fd t w = (w\<lparr>w_socks := (w_socks w)(fd \<mapsto> s1)\<rparr>, True) \<and>
    s_out s1 = s_out s @ bytes_of t \<and> s_in s1 = s_in s \<and> calm_writes s1"
proof -
  have "take (BUFFER_SIZE - 1) t = t" using assms(3) by simp
  then show ?thesis
    using write_all_loop_calm [OF assms(2), of 0 "bytes_of t"] assms(1,3)
    by (auto simp: send_responsef_def snprintf_fmt_def write_all_def)
qed

lemma send_responsef_too_long: "BUFFER_SIZE \<le> length t \<Longrightarrow> send_responsef fd t w = (w, False)"
  by (simp add: send_responsef_def snprintf_fmt_def)

lemma calm_writes_calm: "calm_writes s \<Longrightarrow> calm s"
  by (simp add: calm_def calm_writes_def)

lemma calm_writes_mono: "set (s_sched s1) \<subseteq> set (s_sched s) \<Longrightarrow> calm_writes s \<Longrightarrow> calm_writes s1"
  by (auto simp: calm_writes_def)

lemma receive_file_calm:
  assumes "w_socks w fd = Some s" "calm_writes s" "s_in s = d @ rest" "accepts (w_fs w) p (length d)"
  shows "\<exists>s1. receive_file fd (length d) p w =
      (w\<lparr>w_fs := set_file (w_fs w) p d, w_socks := (w_socks w)(fd \<mapsto> s1)\<rparr>, True) \<and>
    s_in s1 = rest \<and> s_out s1 = s_out s \<and> calm_writes s1"
  using receive_to_file_outcome [OF calm_writes_calm [OF assms(2)] assms(4)] assms(1,3)
    calm_writes_mono [OF _ assms(2)]
  by (auto simp: receive_file_def)

lemma receive_png_calm:
  assumes "w_socks w (c_fd (w_clients w ! i)) = Some s" "calm_writes s" "s_in s = d @ rest"
    and "0 < length d" "length d \<le> unat (se_max_upload se)"
    and "storage_make_upload_path (se_st se) (tbl_next_id (w_jobs w)) (Some ''png'') n = Some p"
    and "accepts (w_fs w) p (length d)"
  shows "\<exists>s1. receive_png_to_upload se i (of_nat (length d)) n w =
      (w\<lparr>w_fs := set_file (w_fs w) p d, w_socks := (w_socks w)(c_fd (w_clients w ! i) \<mapsto> s1)\<rparr>, Some p) \<and>
    s_in s1 = rest \<and> s_out s1 = s_out s \<and> calm_writes s1"
proof -
  have u: "unat (of_nat (length d) :: u64) = length d"
    using assms(5) unat_u64_bound [of "se_max_upload se"] by (intro unat_of_nat_u64) simp
  then have "(of_nat (length d) :: u64) \<noteq> 0" "\<not> (of_nat (length d) :: u64) > se_max_upload se"
    using assms(4,5) by (metis less_numeral_extra(3) unat_0, simp add: word_less_nat_alt)
  then show ?thesis
    using receive_file_calm [OF assms(1,2,3,7)] u assms(6) by (auto simp: receive_png_to_upload_def Let_def)
qed

lemma receive_extra_calm:
  assumes "w_socks w fd = Some s" "calm_writes s" "s_in s = d @ rest" "length d \<le> unat max_size"
    and "storage_make_upload_path (se_st se) k (Some sfx) n = Some p" "accepts (w_fs w) p (length d)"
  shows "\<exists>s1. receive_extra_to_file se fd (of_nat (length d)) max_size l n k sfx w =
      (w\<lparr>w_fs := set_file (w_fs w) p d, w_socks := (w_socks w)(fd \<mapsto> s1)\<rparr>, Some p) \<and>
    s_in s1 = rest \<and> s_out s1 = s_out s \<and> calm_writes s1"
proof -
  have u: "unat (of_nat (length d) :: u64) = length d"
    using assms(4) unat_u64_bound [of max_size] by (intro unat_of_nat_u64) simp
  then have le: "\<not> (of_nat (length d) :: u64) > max_size" using assms(4) by (simp add: word_less_nat_alt)
  show ?thesis
  proof (cases "d = []")
    case True
    moreover from this have "w\<lparr>w_fs := f\<rparr> = w\<lparr>w_fs := f, w_socks := (w_socks w)(fd \<mapsto> s)\<rparr>" for f
      using assms(1) by (simp add: fun_upd_idem)
    ultimately show ?thesis
      using assms le by (auto simp: receive_extra_to_file_def fopen_wb_def fclose_w_def accepts_def frame_simps Let_def)
  next
    case False
    then have "(of_nat (length d) :: u64) \<noteq> 0" using u by (metis length_0_conv unat_0)
    then show ?thesis
      using receive_file_calm [OF assms(1,2,3,6)] u le assms(5) by (auto simp: receive_extra_to_file_def Let_def)
  qed
qed

text \<open>\<^verbatim>\<open>enqueue_job\<close> when nothing stands in its way.\<close>

lemma enqueue_job_accepts:
  assumes "length (tbl_jobs (w_jobs w)) < MAX_JOBS" "se_calloc se" "se_mutex se" "se_node se = Some a"
    and "q_nodes (w_queue w) a = None" "\<not> q_stopped (w_queue w)" "queue_holds (w_queue w) waiting"
    and "w_socks w (c_fd (w_clients w ! i)) = Some s" "calm_writes s"
  shows "\<exists>w' s1. enqueue_job se i type payload input stored w = (w', True) \<and>
    w_jobs w' = with_job (w_jobs w) (submitted se i type payload input stored w) \<and>
    queue_holds (w_queue w') (waiting @ [length (tbl_jobs (w_jobs w))]) \<and> w_fs w' = w_fs w \<and>
    w_socks w' (c_fd (w_clients w ! i)) = Some s1 \<and> s_in s1 = s_in s \<and> calm_writes s1 \<and>
    s_out s1 = s_out s @ bytes_of (line (''JOB '' @ udec (unat (tbl_next_id (w_jobs w)))))"
proof -
  let ?n = "length (tbl_jobs (w_jobs w))" and ?j = "submitted se i type payload input stored w"
  let ?t = "line (''JOB '' @ udec (unat (tbl_next_id (w_jobs w))))"
  obtain q where q: "job_queue_push (se_node se) (w_queue w) ?n = (q, True)" "queue_holds q (waiting @ [?n])"
    using push_holds [OF assms(7,5,6)] assms(4) by auto
  have e: "enqueue_job se i type payload input stored w
      = send_responsef (c_fd (w_clients w ! i)) ?t (w\<lparr>w_jobs := with_job (w_jobs w) ?j, w_queue := q\<rparr>)"
    using assms(1-3) q(1)
    by (cases stored) (simp_all add: enqueue_job_def job_table_create_job_def submitted_def with_job_def upd_last Let_def
        new_job_def frame_simps)
  have "length ?t < BUFFER_SIZE"
    using udec_length_u64 [of "tbl_next_id (w_jobs w)"] by (simp add: BUFFER_SIZE_def)
  then obtain s1 where "send_responsef (c_fd (w_clients w ! i)) ?t (w\<lparr>w_jobs := with_job (w_jobs w) ?j, w_queue := q\<rparr>)
      = (w\<lparr>w_jobs := with_job (w_jobs w) ?j, w_queue := q, w_socks := (w_socks w)(c_fd (w_clients w ! i) \<mapsto> s1)\<rparr>, True)"
    "s_out s1 = s_out s @ bytes_of ?t" "s_in s1 = s_in s" "calm_writes s1"
    using send_responsef_arrives [of "w\<lparr>w_jobs := with_job (w_jobs w) ?j, w_queue := q\<rparr>" _ s ?t] assms(8,9) by auto
  with e q(2) show ?thesis
    by (intro exI [of _ "w\<lparr>w_jobs := with_job (w_jobs w) ?j, w_queue := q,
        w_socks := (w_socks w)(c_fd (w_clients w ! i) \<mapsto> s1)\<rparr>"] exI [of _ s1]) simp
qed

lemma upload_path_clean:
  assumes "storage_make_upload_path st k (Some x) MAX_JOB_PATH = Some p" "NUL \<notin> set (g_uploads st)" "NUL \<notin> set x"
  shows "snprintf_s MAX_JOB_PATH p = p"
proof (rule snprintf_s_id)
  show "NUL \<notin> set p"
    using make_upload_path_Some [OF assms(1)] assms(2,3) udec_no_NUL [of "unat k"] by (auto simp: job_path_def)
  show "length p < MAX_JOB_PATH"
    using assms(1) by (auto simp: storage_make_upload_path_def snprintf_fmt_def Let_def split: if_splits)
qed

section \<open>What a command can reach\<close>

text \<open>Only the connection \<open>fd\<close>, the jobs and the files are touched.\<close>

definition confined :: "int \<Rightarrow> world \<Rightarrow> world \<Rightarrow> bool" where
  "confined fd w w' \<longleftrightarrow> w_clients w' = w_clients w \<and> w_blocklist w' = w_blocklist w \<and>
     (\<forall>q. q \<noteq> fd \<longrightarrow> w_socks w' q = w_socks w q)"

lemma confined_refl: "confined fd w w"
  by (simp add: confined_def)

lemma confined_trans: "confined fd u v \<Longrightarrow> confined fd v w \<Longrightarrow> confined fd u w"
  by (simp add: confined_def)

lemma confined_parts [simp]:
  "confined fd w (w\<lparr>w_socks := (w_socks w)(fd \<mapsto> s)\<rparr>)" "confined fd w (w\<lparr>w_fs := fs\<rparr>)"
  "confined fd w (w\<lparr>w_jobs := t\<rparr>)" "confined fd w (w\<lparr>w_jobs := t, w_queue := q\<rparr>)"
  by (simp_all add: confined_def)

lemma confined_send: "confined fd w (fst (send_responsef fd t w))"
  by (simp add: confined_def frame_simps send_responsef_socks(1))

lemma confined_then_send: "confined fd w v \<Longrightarrow> confined fd w (fst (send_responsef fd t v))"
  by (rule confined_trans [OF _ confined_send])

lemma confined_then_sock: "confined fd w v \<Longrightarrow> confined fd w (v\<lparr>w_socks := (w_socks v)(fd \<mapsto> s)\<rparr>)"
  by (rule confined_trans [OF _ confined_parts(1)])

lemma confined_send_eq: "send_responsef fd t w = (v, ok) \<Longrightarrow> confined fd w v"
  using confined_send [of fd w t] by simp

lemma confined_receive: "receive_file fd n p w = (v, ok) \<Longrightarrow> confined fd w v"
  by (auto simp: receive_file_def confined_def split: option.splits prod.splits)

lemma confined_png:
  assumes "receive_png_to_upload se i n m w = (v, r)" "fd = c_fd (w_clients w ! i)"
  shows "confined fd w v"
proof -
  have "confined fd w (fst (receive_png_to_upload se i n m w))"
    unfolding assms(2)
    by (auto simp: receive_png_to_upload_def Let_def confined_send confined_receive confined_then_send
        split: option.split prod.split)
  then show ?thesis by (simp add: assms(1))
qed

lemma confined_extra:
  assumes "receive_extra_to_file se fd n m l k q sfx w = (v, r)"
  shows "confined fd w v"
proof -
  have "confined fd w (fst (receive_extra_to_file se fd n m l k q sfx w))"
    by (auto simp: receive_extra_to_file_def Let_def confined_send confined_receive confined_then_send
        split: option.split prod.split)
  then show ?thesis by (simp add: assms)
qed

lemma confined_enqueue:
  assumes "confined fd u w" "fd = c_fd (w_clients w ! i)"
  shows "confined fd u (fst (enqueue_job se i type payload input stored w))"
  unfolding assms(2)
  by (rule confined_trans [OF assms(1) [unfolded assms(2)]])
    (auto simp: enqueue_job_def Let_def confined_then_send split: option.split prod.split)

lemma confined_clients: "confined fd w v \<Longrightarrow> w_clients v = w_clients w"
  by (simp add: confined_def)

lemma confined_upload:
  assumes "fd = c_fd (w_clients w ! i)"
  shows "confined fd w (fst (upload_and_enqueue se i type r w))"
  using assms by (auto simp: upload_and_enqueue_def split: prod.split option.split
      intro!: confined_enqueue dest: confined_png [OF _ assms] simp: confined_clients)

lemma confined_encode_text:
  assumes "fd = c_fd (w_clients w ! i)"
  shows "confined fd w (fst (handle_encode_text se i r w))"
proof (cases "receive_png_to_upload se i (r_size1 r) MAX_JOB_PATH w")
  case (Pair v p)
  have v: "confined fd w v" by (rule confined_png [OF Pair assms])
  have x: "confined fd w u" "w_clients u = w_clients w"
    if "receive_extra_to_file se fd n m l k q sfx v = (u, y)" for n m l k q sfx u y
    using confined_trans [OF v confined_extra [OF that]] confined_clients by auto
  have e: "fst (handle_encode_text se i r w) = (case p of None \<Rightarrow> v | Some png \<Rightarrow>
      case receive_extra_to_file se fd (r_size2 r) (of_nat MAX_TEXT_BYTES) ''text'' MAX_JOB_PATH (tbl_next_id (w_jobs v)) ''txt'' v of
        (u, None) \<Rightarrow> u
      | (u, Some text) \<Rightarrow> fst (enqueue_job se i JOB_TYPE_ENCODE_TEXT None (Some png) (Some text) u))"
    using assms confined_clients [OF v] by (simp add: handle_encode_text_def Pair Let_def split: option.split prod.split)
  show ?thesis
    using v x assms unfolding e by (auto split: prod.split option.split intro!: confined_enqueue)
qed

lemma confined_encode_file:
  assumes "fd = c_fd (w_clients w ! i)"
  shows "confined fd w (fst (handle_encode_file se i r w))"
proof -
  let ?name = "\<lambda>w1. (if r_size2 r > 0 then
                  (case w_socks w1 fd of None \<Rightarrow> (w1, None) | Some s \<Rightarrow>
                   case read_exact (unat (r_size2 r)) s of (s1, d) \<Rightarrow>
                     (w1\<lparr>w_socks := (w_socks w1)(fd \<mapsto> s1)\<rparr>,
                      case d of None \<Rightarrow> None
                      | Some b \<Rightarrow> if length b \<noteq> unat (r_size2 r) then None else Some (cstr (chars_of b))))
                else (w1, Some []))"
  have name: "confined fd w1 w2" if "?name w1 = (w2, x)" for w1 w2 x
    using that by (auto simp: confined_refl split: if_splits option.splits prod.splits)
  obtain v p where p: "receive_png_to_upload se i (r_size1 r) MAX_JOB_PATH w = (v, p)" by (rule prod.exhaust)
  have v: "confined fd w v" by (rule confined_png [OF p assms])
  obtain u nm where u: "?name v = (u, nm)" by (rule prod.exhaust)
  have uw: "confined fd w u" by (rule confined_trans [OF v name [OF u]])
  have x: "confined fd w t" "w_clients t = w_clients w"
    if "receive_extra_to_file se fd n m l k q sfx u = (t, y)" for n m l k q sfx t y
    using confined_trans [OF uw confined_extra [OF that]] confined_clients by auto
  have final: "confined fd w (fst (case (u, nm) of
          (w2, None) \<Rightarrow> send_responsef fd (line ''ERR filename read failed'') w2
        | (w2, Some filename) \<Rightarrow>
            (case receive_extra_to_file se fd (r_size3 r) (se_max_upload se) ''file'' MAX_JOB_PATH
                (tbl_next_id (w_jobs w2)) ''data'' w2 of
              (w3, None) \<Rightarrow> (w3, True)
            | (w3, Some file_path) \<Rightarrow>
                enqueue_job se i JOB_TYPE_ENCODE_FILE (Some filename) (Some png_path) (Some file_path) w3)))" for png_path
    using uw x assms by (auto simp: confined_then_send split: prod.split option.split intro!: confined_enqueue)
  have skip: "confined fd w (fst (case w_socks w fd of None \<Rightarrow> (w, False) | Some s \<Rightarrow>
      send_responsef fd t (w\<lparr>w_socks := (w_socks w)(fd \<mapsto> f s)\<rparr>)))" for t f
    by (simp add: confined_refl confined_then_send split: option.split)
  show ?thesis
    using v final skip
    unfolding handle_encode_file_def Let_def assms [symmetric] p prod.case
    by (cases "MAX_FILENAME_BYTES < r_size2 r"; cases p) (simp_all only: u if_True if_False option.case prod.case fst_conv)
qed

lemma confined_download: "confined fd w (fst (handle_download fd k w))"
  by (auto simp: handle_download_def Let_def confined_send intro: confined_then_sock confined_send_eq
      split: option.split prod.split)

lemma confined_queries:
  "confined fd w (fst (handle_status fd k w))" "confined fd w (fst (handle_result fd k w))"
  "confined fd w (fst (handle_meta fd k w))" "confined fd w (fst (send_help fd w))"
  "confined fd w (fst (handle_cancel fd k msg w))"
  by (simp_all add: handle_status_def handle_result_def handle_meta_def send_help_def handle_cancel_def Let_def
      confined_send confined_then_send split: option.split prod.split)

lemma user_command_confined:
  assumes "r_command r \<noteq> PROTO_CMD_QUIT" "fd = c_fd (w_clients w ! i)"
  shows "confined fd w (fst (handle_user_command se i r w))"
  using assms
  by (cases "r_command r")
    (simp_all add: handle_user_command_def Let_def confined_send confined_queries confined_download confined_upload
      confined_encode_text confined_encode_file confined_enqueue confined_refl)

section \<open>Long lists\<close>

lemma list_item_length: "29 \<le> length (list_item j) \<and> length (list_item j) < 256"
proof -
  have "udec n \<noteq> []" for n by (subst udec.simps) (simp add: Let_def)
  then have "1 \<le> length (udec n)" for n by (simp add: Suc_le_eq)
  then have u: "1 \<le> length (udec (unat (j_id j)))" by blast
  have t: "4 \<le> length (job_type_to_string (j_type j))" "4 \<le> length (job_state_to_string (j_state j))"
    by (cases "j_type j"; simp add: job_type_to_string_def) (cases "j_state j"; simp add: job_state_to_string_def)
  show ?thesis using u t udec_length_u64 [of "j_id j"] by (auto simp: list_item_def snprintf_fmt_def min_def)
qed

lemma joined_length:
  "\<forall>x \<in> set xs. 29 \<le> length x \<Longrightarrow> length b + 30 * length xs \<le> length (foldl join_item b xs) + (if b = [] then 1 else 0)"
proof (induction xs arbitrary: b)
  case (Cons x xs)
  have "join_item b x \<noteq> []" "length b + 30 \<le> length (join_item b x) + (if b = [] then 1 else 0)"
    using Cons.prems by (auto simp: join_item_def)
  with Cons.IH [of "join_item b x"] Cons.prems show ?case by simp
qed simp

lemma long_job_list:
  assumes "137 \<le> length (tbl_jobs t)"
  shows "\<exists>l. job_table_format_list t (BUFFER_SIZE * 2) = Some l \<and> BUFFER_SIZE \<le> length (line (''JOBS '' @ l))"
proof -
  let ?n = "BUFFER_SIZE * 2" and ?js = "tbl_jobs t"
  let ?l = "format_list_loop ?n ?js []"
  have l: "job_table_format_list t ?n = Some ?l"
    using assms by (auto simp: job_table_format_list_def BUFFER_SIZE_def)
  obtain k where k: "k \<le> length ?js" "?l = foldl join_item [] (map list_item (take k ?js))"
    "k < length ?js \<longrightarrow> ?n \<le> length (join_item ?l (list_item (?js ! k))) + 1"
    using format_list_loop_prefix by blast
  have "4090 \<le> length ?l"
  proof (cases "k < length ?js")
    case True
    then show ?thesis using k(3) list_item_length [of "?js ! k"] by (simp add: join_item_def BUFFER_SIZE_def split: if_splits)
  next
    case False
    then show ?thesis
      using joined_length [of "map list_item ?js" "[]"] k(1,2) assms list_item_length by simp
  qed
  with l show ?thesis by (simp add: BUFFER_SIZE_def)
qed

lemma handle_cancel_requests:
  "w_clients (fst (handle_cancel fd k msg w)) = w_clients w \<and> w_queue (fst (handle_cancel fd k msg w)) = w_queue w \<and>
   w_fs (fst (handle_cancel fd k msg w)) = w_fs w \<and>
   w_jobs (fst (handle_cancel fd k msg w)) = (case job_table_find (w_jobs w) k of None \<Rightarrow> w_jobs w
     | Some p \<Rightarrow> upd_job (w_jobs w) p (\<lambda>j. if cancellable (j_state j) then j\<lparr>j_cancel_requested := True\<rparr> else j))"
  by (simp add: handle_cancel_def job_request_cancel_def Let_def frame_simps upd_job_def split: option.split)

section \<open>Properties of requests\<close>

text \<open>
  An \<^verbatim>\<open>ENCODE_TEXT\<close> request does what it says. When the peer sends the announced bytes of an image
  and a text, under any split and interruption of the transfers, with room in the table, on the disk
  and in memory, the two upload files of the new id hold exactly these bytes, a queued job of the right
  type refers to exactly these files and is last in the queue, the peer is told its id, and what it
  sent after the text is still unread.
\<close>

theorem encode_text_request_exact:
  fixes i w se
  defines "fd \<equiv> c_fd (w_clients w ! i)" and "k \<equiv> tbl_next_id (w_jobs w)" and "n \<equiv> length (tbl_jobs (w_jobs w))"
  assumes sock: "w_socks w fd = Some s" "calm_writes s" "s_in s = png @ txt_bytes @ rest"
    and req: "r_size1 r = of_nat (length png)" "r_size2 r = of_nat (length txt_bytes)" "0 < length png"
      "length png \<le> unat (se_max_upload se)" "length txt_bytes \<le> MAX_TEXT_BYTES"
    and paths: "storage_make_upload_path (se_st se) k (Some ''png'') MAX_JOB_PATH = Some pp"
      "storage_make_upload_path (se_st se) k (Some ''txt'') MAX_JOB_PATH = Some tp" "NUL \<notin> set (g_uploads (se_st se))"
    and disk: "accepts (w_fs w) pp (length png)" "accepts (w_fs w) tp (length txt_bytes)"
    and room: "n < MAX_JOBS" "se_calloc se" "se_mutex se" "se_node se = Some a" "q_nodes (w_queue w) a = None"
      "\<not> q_stopped (w_queue w)" "queue_holds (w_queue w) waiting"
  shows "\<exists>w' s'. handle_encode_text se i r w = (w', True) \<and> w_socks w' fd = Some s' \<and> s_in s' = rest \<and>
    s_out s' = s_out s @ bytes_of (line (''JOB '' @ udec (unat k))) \<and>
    fs_files (w_fs w') pp = Some png \<and> fs_files (w_fs w') tp = Some txt_bytes \<and>
    queue_holds (w_queue w') (waiting @ [n]) \<and> length (tbl_jobs (w_jobs w')) = Suc n \<and>
    (let j = tbl_jobs (w_jobs w') ! n in j_id j = k \<and> j_type j = JOB_TYPE_ENCODE_TEXT \<and> j_state j = JOB_STATE_QUEUED \<and>
       j_input_path j = pp \<and> j_stored_path j = tp)"
proof -
  obtain s1 where s1: "receive_png_to_upload se i (r_size1 r) MAX_JOB_PATH w =
      (w\<lparr>w_fs := set_file (w_fs w) pp png, w_socks := (w_socks w)(fd \<mapsto> s1)\<rparr>, Some pp)"
    "s_in s1 = txt_bytes @ rest" "s_out s1 = s_out s" "calm_writes s1"
    using receive_png_calm [of w i s png "txt_bytes @ rest" se MAX_JOB_PATH pp] sock req paths(1) disk(1)
    by (auto simp: fd_def k_def)
  let ?w1 = "w\<lparr>w_fs := set_file (w_fs w) pp png, w_socks := (w_socks w)(fd \<mapsto> s1)\<rparr>"
  have acc: "accepts (w_fs ?w1) tp (length txt_bytes)" using disk(2) by (simp add: accepts_def frame_simps)
  have max: "length txt_bytes \<le> unat (of_nat MAX_TEXT_BYTES :: u64)" using req(5) by (simp add: MAX_TEXT_BYTES_def)
  obtain s2 where s2: "receive_extra_to_file se fd (r_size2 r) (of_nat MAX_TEXT_BYTES) ''text'' MAX_JOB_PATH k ''txt'' ?w1 =
      (?w1\<lparr>w_fs := set_file (w_fs ?w1) tp txt_bytes, w_socks := (w_socks ?w1)(fd \<mapsto> s2)\<rparr>, Some tp)"
    "s_in s2 = rest" "s_out s2 = s_out s1" "calm_writes s2"
    using receive_extra_calm [OF _ s1(4,2) max paths(2) acc, of fd "''text''"] req(2) by auto
  let ?w2 = "?w1\<lparr>w_fs := set_file (w_fs ?w1) tp txt_bytes, w_socks := (w_socks ?w1)(fd \<mapsto> s2)\<rparr>"
  have e: "handle_encode_text se i r w = enqueue_job se i JOB_TYPE_ENCODE_TEXT None (Some pp) (Some tp) ?w2"
    using s1(1) s2(1) by (simp add: handle_encode_text_def Let_def fd_def k_def)
  obtain w' s' where w': "handle_encode_text se i r w = (w', True)"
    "w_jobs w' = with_job (w_jobs w) (submitted se i JOB_TYPE_ENCODE_TEXT None (Some pp) (Some tp) ?w2)"
    "queue_holds (w_queue w') (waiting @ [n])" "w_fs w' = w_fs ?w2" "w_socks w' fd = Some s'" "s_in s' = rest"
    "s_out s' = s_out s @ bytes_of (line (''JOB '' @ udec (unat k)))"
    using enqueue_job_accepts [of ?w2 se a waiting i s2 JOB_TYPE_ENCODE_TEXT None "Some pp" "Some tp"]
      room s1(3) s2(2-4) by (auto simp: e fd_def k_def n_def)
  have "pp \<noteq> tp"
    using job_path_inj make_upload_path_Some [OF paths(1)] make_upload_path_Some [OF paths(2)] by fastforce
  then have files: "fs_files (w_fs w') pp = Some png" "fs_files (w_fs w') tp = Some txt_bytes"
    by (simp_all add: w'(4) frame_simps)
  have "j_input_path (submitted se i JOB_TYPE_ENCODE_TEXT None (Some pp) (Some tp) ?w2) = pp"
    "j_stored_path (submitted se i JOB_TYPE_ENCODE_TEXT None (Some pp) (Some tp) ?w2) = tp"
    using upload_path_clean [OF paths(1,3)] upload_path_clean [OF paths(2,3)]
    by (simp_all add: submitted_def new_job_def job_set_stored_path_def Let_def)
  then show ?thesis
    using w' files by (auto simp: with_job_def n_def k_def submitted_fields Let_def)
qed

definition upload_world :: world where
  "upload_world = world0\<lparr>w_socks := [7 \<mapsto> \<lparr>s_in = [1, 2, 3, 104, 105, 80], s_out = [], s_sched = [Io_some 1, Io_eintr]\<rparr>],
     w_clients := [\<lparr>c_fd = 7, c_type = CLIENT_TYPE_USER, c_active = True, c_kick_requested = False,
       c_addr_str = ''10.0.0.1'', c_connected_at = zero_time\<rparr>]\<rparr>"

definition upload_env :: senv where
  "upload_env = \<lparr>se_calloc = True, se_mutex = True, se_node = Some 1, se_now = zero_time, se_st = storage_default,
     se_max_upload = 1000\<rparr>"

theorem encode_text_request_exact_witness:
  "\<exists>w' s'. handle_encode_text upload_env 0 (empty_request\<lparr>r_size1 := 3, r_size2 := 2\<rparr>) upload_world = (w', True) \<and>
     w_socks w' 7 = Some s' \<and> s_in s' = [80] \<and> fs_files (w_fs w') ''storage/uploads/job_1.txt'' = Some [104, 105]"
proof -
  let ?s = "\<lparr>s_in = [1, 2, 3, 104, 105, 80], s_out = [], s_sched = [Io_some 1, Io_eintr]\<rparr>"
  have paths: "storage_make_upload_path storage_default 1 (Some ''png'') MAX_JOB_PATH = Some ''storage/uploads/job_1.png''"
    "storage_make_upload_path storage_default 1 (Some ''txt'') MAX_JOB_PATH = Some ''storage/uploads/job_1.txt''"
    by (simp_all add: storage_make_upload_path_def storage_default_def snprintf_fmt_def job_path_def MAX_JOB_PATH_def
        udec.simps digit_char_def char_of_def bit_Suc_0_iff Let_def)
  have holds: "queue_holds queue0 []" unfolding queue_holds_def queue0_def by (intro exI [of _ "[]"]) simp
  have "\<exists>w' s'. handle_encode_text upload_env 0 (empty_request\<lparr>r_size1 := 3, r_size2 := 2\<rparr>) upload_world = (w', True) \<and>
    w_socks w' (c_fd (w_clients upload_world ! 0)) = Some s' \<and> s_in s' = [80] \<and>
    s_out s' = s_out ?s @ bytes_of (line (''JOB '' @ udec (unat (tbl_next_id (w_jobs upload_world))))) \<and>
    fs_files (w_fs w') ''storage/uploads/job_1.png'' = Some [1, 2, 3] \<and>
    fs_files (w_fs w') ''storage/uploads/job_1.txt'' = Some [104, 105] \<and>
    queue_holds (w_queue w') ([] @ [length (tbl_jobs (w_jobs upload_world))]) \<and>
    length (tbl_jobs (w_jobs w')) = Suc (length (tbl_jobs (w_jobs upload_world))) \<and>
    (let j = tbl_jobs (w_jobs w') ! length (tbl_jobs (w_jobs upload_world)) in
       j_id j = tbl_next_id (w_jobs upload_world) \<and> j_type j = JOB_TYPE_ENCODE_TEXT \<and> j_state j = JOB_STATE_QUEUED \<and>
       j_input_path j = ''storage/uploads/job_1.png'' \<and> j_stored_path j = ''storage/uploads/job_1.txt'')"
    by (rule encode_text_request_exact [where s = ?s and a = 1])
      (use paths holds in \<open>simp_all add: upload_world_def upload_env_def world0_def empty_request_def calm_writes_def
         accepts_def job_sizes MAX_TEXT_BYTES_def queue0_def storage_default_def\<close>)
  then show ?thesis by (auto simp: upload_world_def)
qed

text \<open>
  C13: a user's commands are confined. Whatever a user sends, the blocklist, the other sessions and the
  other connections are as before. The administrator's commands, sent by a user, change neither jobs
  nor queue, sessions or files, with one exception: \<^verbatim>\<open>CANCEL\<close>, which SRS and SDD list for the
  administrator only, is carried out for every user on every job, whoever owns it. It requests the
  cancellation of the job named, if that still waits or runs, and changes nothing else.
\<close>

theorem user_commands_are_confined:
  fixes se i r w
  defines "w' \<equiv> fst (handle_user_command se i r w)" and "fd \<equiv> c_fd (w_clients w ! i)"
  shows "w_blocklist w' = w_blocklist w \<and> (\<forall>k. k \<noteq> i \<longrightarrow> w_clients w' ! k = w_clients w ! k) \<and>
    (\<forall>q. q \<noteq> fd \<longrightarrow> w_socks w' q = w_socks w q) \<and>
    (r_command r \<in> {PROTO_CMD_LISTJOBS, PROTO_CMD_STATS, PROTO_CMD_LISTCLIENTS, PROTO_CMD_HISTORY, PROTO_CMD_AVGDURATION,
        PROTO_CMD_KICK, PROTO_CMD_BLOCKIP, PROTO_CMD_UNBLOCKIP} \<longrightarrow>
     w_clients w' = w_clients w \<and> w_jobs w' = w_jobs w \<and> w_queue w' = w_queue w \<and> w_fs w' = w_fs w) \<and>
    (r_command r = PROTO_CMD_CANCEL \<longrightarrow>
     w_clients w' = w_clients w \<and> w_queue w' = w_queue w \<and> w_fs w' = w_fs w \<and>
     w_jobs w' = (case job_table_find (w_jobs w) (r_job_id r) of None \<Rightarrow> w_jobs w
       | Some p \<Rightarrow> upd_job (w_jobs w) p (\<lambda>j. if cancellable (j_state j) then j\<lparr>j_cancel_requested := True\<rparr> else j)))"
proof (intro conjI)
  show "r_command r \<in> {PROTO_CMD_LISTJOBS, PROTO_CMD_STATS, PROTO_CMD_LISTCLIENTS, PROTO_CMD_HISTORY, PROTO_CMD_AVGDURATION,
        PROTO_CMD_KICK, PROTO_CMD_BLOCKIP, PROTO_CMD_UNBLOCKIP} \<longrightarrow>
     w_clients w' = w_clients w \<and> w_jobs w' = w_jobs w \<and> w_queue w' = w_queue w \<and> w_fs w' = w_fs w"
    by (auto simp: w'_def handle_user_command_def Let_def frame_simps)
  have "r_command r = PROTO_CMD_CANCEL \<Longrightarrow> w' = fst (handle_cancel fd (r_job_id r) ''ERR cannot cancel job'' w)"
    by (simp add: w'_def fd_def handle_user_command_def Let_def)
  then show "r_command r = PROTO_CMD_CANCEL \<longrightarrow>
     w_clients w' = w_clients w \<and> w_queue w' = w_queue w \<and> w_fs w' = w_fs w \<and>
     w_jobs w' = (case job_table_find (w_jobs w) (r_job_id r) of None \<Rightarrow> w_jobs w
       | Some p \<Rightarrow> upd_job (w_jobs w) p (\<lambda>j. if cancellable (j_state j) then j\<lparr>j_cancel_requested := True\<rparr> else j))"
    by (simp add: handle_cancel_requests)
  have "w_blocklist w' = w_blocklist w \<and> (\<forall>k. k \<noteq> i \<longrightarrow> w_clients w' ! k = w_clients w ! k) \<and> (\<forall>q. q \<noteq> fd \<longrightarrow> w_socks w' q = w_socks w q)"
  proof (cases "r_command r = PROTO_CMD_QUIT")
    case False
    then show ?thesis using user_command_confined [OF False meta_eq_to_obj_eq [OF fd_def]] by (simp add: confined_def w'_def)
  next
    case True
    let ?v = "fst (send_responsef fd (line ''BYE'') w)"
    have v: "confined fd w ?v" by (rule confined_send)
    have "w' = close_client i ?v" using True by (simp add: w'_def fd_def handle_user_command_def Let_def)
    then show ?thesis
      using v by (auto simp: confined_def close_client_def Let_def fd_def)
  qed
  then show "w_blocklist w' = w_blocklist w" "\<forall>k. k \<noteq> i \<longrightarrow> w_clients w' ! k = w_clients w ! k"
    "\<forall>q. q \<noteq> fd \<longrightarrow> w_socks w' q = w_socks w q" by auto
qed

theorem user_commands_are_confined_witness:
  "w_jobs (fst (handle_user_command upload_env 0 (empty_request\<lparr>r_command := PROTO_CMD_CANCEL, r_job_id := 5\<rparr>)
     (upload_world\<lparr>w_jobs := \<lparr>tbl_jobs = [zero_job\<lparr>j_id := 5, j_owner_fd := 99\<rparr>], tbl_next_id = 6\<rparr>\<rparr>))) =
   \<lparr>tbl_jobs = [zero_job\<lparr>j_id := 5, j_owner_fd := 99, j_cancel_requested := True\<rparr>], tbl_next_id = 6\<rparr>"
  using user_commands_are_confined [of upload_env 0 "empty_request\<lparr>r_command := PROTO_CMD_CANCEL, r_job_id := 5\<rparr>"
      "upload_world\<lparr>w_jobs := \<lparr>tbl_jobs = [zero_job\<lparr>j_id := 5, j_owner_fd := 99\<rparr>], tbl_next_id = 6\<rparr>\<rparr>"]
  by (simp add: job_table_find_def upd_job_def zero_job_def cancellable_def)

text \<open>
  C37: \<^verbatim>\<open>LISTJOBS\<close> goes silent. The list is built in a buffer of twice the size of the reply buffer, and a
  reply that does not fit is not sent: as soon as the table holds 137 jobs, the administrator's
  \<^verbatim>\<open>LISTJOBS\<close> gets no answer at all, not even an error.
\<close>

theorem listjobs_goes_silent:
  assumes "137 \<le> length (tbl_jobs (w_jobs w))" "r_command r = PROTO_CMD_LISTJOBS"
  shows "handle_admin_command i r w = (w, False)"
proof -
  obtain l where "job_table_format_list (w_jobs w) (BUFFER_SIZE * 2) = Some l" "BUFFER_SIZE \<le> length (line (''JOBS '' @ l))"
    using long_job_list [OF assms(1)] by blast
  then show ?thesis
    using assms(2) by (simp add: handle_admin_command_def send_responsef_too_long)
qed

theorem listjobs_goes_silent_witness:
  "handle_admin_command 0 (empty_request\<lparr>r_command := PROTO_CMD_LISTJOBS\<rparr>)
     (upload_world\<lparr>w_jobs := \<lparr>tbl_jobs = replicate 137 zero_job, tbl_next_id = 138\<rparr>\<rparr>)
   = (upload_world\<lparr>w_jobs := \<lparr>tbl_jobs = replicate 137 zero_job, tbl_next_id = 138\<rparr>\<rparr>, False)"
  by (rule listjobs_goes_silent) simp_all

text \<open>
  A text that is too large is refused but not skipped: the reply is an error and no job is made, but the
  bytes of the text stay in the stream; an overlong file name, by contrast, is discarded with its data.
\<close>

lemma oversized_text_stays:
  fixes i w se
  defines "fd \<equiv> c_fd (w_clients w ! i)"
  assumes sock: "w_socks w fd = Some s" "calm_writes s" "s_in s = png @ body"
    and req: "r_size1 r = of_nat (length png)" "0 < length png" "length png \<le> unat (se_max_upload se)"
      "of_nat MAX_TEXT_BYTES < r_size2 r"
    and path: "storage_make_upload_path (se_st se) (tbl_next_id (w_jobs w)) (Some ''png'') MAX_JOB_PATH = Some pp"
      "accepts (w_fs w) pp (length png)"
  obtains s2 where "handle_encode_text se i r w =
      (w\<lparr>w_fs := set_file (w_fs w) pp png, w_socks := (w_socks w)(fd \<mapsto> s2)\<rparr>, True)"
    "s_in s2 = body" "s_out s2 = s_out s @ bytes_of (line ''ERR text too large'')" "calm_writes s2"
proof -
  obtain s1 where s1: "receive_png_to_upload se i (r_size1 r) MAX_JOB_PATH w =
      (w\<lparr>w_fs := set_file (w_fs w) pp png, w_socks := (w_socks w)(fd \<mapsto> s1)\<rparr>, Some pp)"
    "s_in s1 = body" "s_out s1 = s_out s" "calm_writes s1"
    using receive_png_calm [of w i s png body se MAX_JOB_PATH pp] sock req path by (auto simp: fd_def)
  let ?w1 = "w\<lparr>w_fs := set_file (w_fs w) pp png, w_socks := (w_socks w)(fd \<mapsto> s1)\<rparr>"
  obtain s2 where s2: "send_responsef fd (line ''ERR text too large'') ?w1 = (?w1\<lparr>w_socks := (w_socks ?w1)(fd \<mapsto> s2)\<rparr>, True)"
    "s_out s2 = s_out s1 @ bytes_of (line ''ERR text too large'')" "s_in s2 = s_in s1" "calm_writes s2"
    using send_responsef_arrives [of ?w1 fd s1 "line ''ERR text too large''"] s1(4) by (auto simp: BUFFER_SIZE_def)
  have "handle_encode_text se i r w = (?w1\<lparr>w_socks := (w_socks ?w1)(fd \<mapsto> s2)\<rparr>, True)"
    using s1(1) s2(1) req(4) by (simp add: handle_encode_text_def receive_extra_to_file_def fd_def Let_def)
  then show thesis using s1(2,3) s2(2-4) by (intro that [of s2]) simp_all
qed

end
