(* ===== verification/Client.thy ===== *)
theory Client
  imports Requests
begin

text \<open>
  \<^verbatim>\<open>src/client/main.c\<close>, the command line client, and what it and the server make of each other. The
  state is the connected socket, the file system and what was printed on standard output; \<^verbatim>\<open>stderr\<close> and
  the pauses between polls are left out. A line buffer is the C string it holds. \<^verbatim>\<open>off_t\<close> and \<^verbatim>\<open>long\<close>
  have 64 bits; file sizes are below \<open>2 ^ 63\<close>.
\<close>

section \<open>The code\<close>

record client =
  cl_sock :: sock
  cl_fs :: filesys
  cl_stdout :: string

text \<open>\<^verbatim>\<open>strstr\<close>: the text from the first occurrence on.\<close>

fun strstr :: "string \<Rightarrow> string \<Rightarrow> string option" where
  "strstr [] needle = (if needle = [] then Some [] else None)"
| "strstr (c # s) needle = (if take (length needle) (c # s) = needle then Some (c # s) else strstr s needle)"

definition expect_line :: "nat \<Rightarrow> client \<Rightarrow> client \<times> string option" where
  "expect_line buf_size c =
     (case read_line buf_size (cl_sock c) of (s1, r) \<Rightarrow>
      let c1 = c\<lparr>cl_sock := s1\<rparr> in
      case r of None \<Rightarrow> (c1, None)
      | Some d \<Rightarrow> if d = [] then (c1, None)
          else (c1\<lparr>cl_stdout := cl_stdout c1 @ ''<< '' @ cstr d\<rparr>, Some (cstr d)))"

definition read_banner :: "client \<Rightarrow> client \<times> bool" where
  "read_banner c = (case expect_line BUFFER_SIZE c of (c1, r) \<Rightarrow> (c1, r \<noteq> None))"

definition send_line :: "string \<Rightarrow> client \<Rightarrow> client \<times> bool" where
  "send_line l c =
     (let c1 = c\<lparr>cl_stdout := cl_stdout c @ ''>> '' @ l\<rparr> in
      case write_all (bytes_of l) (cl_sock c1) of (s1, r) \<Rightarrow> (c1\<lparr>cl_sock := s1\<rparr>, r \<noteq> None))"

text \<open>The copy loop: \<open>rest\<close> is the unread part of the file.\<close>

function send_bytes_loop :: "bytes \<Rightarrow> sock \<Rightarrow> sock \<times> bool" where
  "send_bytes_loop rest s =
     (let buf = take CHUNK_SIZE rest; r = length buf in
      case (if r > 0 then (case write_all buf s of (s1, w) \<Rightarrow> (s1, w \<noteq> None)) else (s, True)) of (s1, ok) \<Rightarrow>
        if \<not> ok then (s1, False)
        else if r < CHUNK_SIZE then (s1, True)
        else send_bytes_loop (drop CHUNK_SIZE rest) s1)"
  by pat_completeness auto
termination
  by (relation "measure (\<lambda>(rest, s). length rest)") (auto simp: CHUNK_SIZE_def min_def split: if_splits)

declare send_bytes_loop.simps [simp del]

definition send_file_bytes :: "path \<Rightarrow> client \<Rightarrow> client \<times> bool" where
  "send_file_bytes path c =
     (case fopen_rb (cl_fs c) path of None \<Rightarrow> (c, False)
      | Some f \<Rightarrow>
          if \<not> fs_seekable (cl_fs c) path then (c, False)
          else case send_bytes_loop f (cl_sock c) of (s1, ok) \<Rightarrow> (c\<lparr>cl_sock := s1\<rparr>, ok))"

text \<open>\<open>n\<close> polls are left.\<close>

fun wait_loop :: "nat \<Rightarrow> u64 \<Rightarrow> client \<Rightarrow> client \<times> bool" where
  "wait_loop 0 job_id c = (c, False)"
| "wait_loop (Suc n) job_id c =
     (case send_line (snprintf_s 64 (''STATUS '' @ udec (unat job_id) @ [NL])) c of (c1, ok) \<Rightarrow>
      if \<not> ok then (c1, False)
      else case expect_line BUFFER_SIZE c1 of (c2, r) \<Rightarrow>
      case r of None \<Rightarrow> (c2, False)
      | Some buf \<Rightarrow>
          if strstr buf ''DONE'' \<noteq> None then (c2, True)
          else if strstr buf ''FAILED'' \<noteq> None then (c2, False)
          else if strstr buf ''CANCELED'' \<noteq> None then (c2, False)
          else wait_loop n job_id c2)"

definition wait_for_done :: "u64 \<Rightarrow> client \<Rightarrow> client \<times> bool" where
  "wait_for_done job_id c = wait_loop 120 job_id c"

definition parse_job_id :: "string \<Rightarrow> u64" where
  "parse_job_id l = (case strstr l ''JOB '' of None \<Rightarrow> 0 | Some p \<Rightarrow> fst (strtoull (drop 4 p)))"

definition parse_data_size :: "string \<Rightarrow> int" where
  "parse_data_size l = (if take 5 l \<noteq> ''DATA '' then -1 else fst (strtol (drop 5 l)))"

text \<open>The receive loop of \<^verbatim>\<open>download_result\<close>: \<open>fp\<close> is what the output stream has taken.\<close>

function download_loop :: "filesys \<Rightarrow> path \<Rightarrow> nat \<Rightarrow> bytes \<Rightarrow> sock \<Rightarrow> sock \<times> bytes \<times> bool" where
  "download_loop fs p remaining fp s =
     (if remaining > 0 then
        (let want = (if remaining < CHUNK_SIZE then remaining else CHUNK_SIZE) in
         case read_exact want s of (s1, r) \<Rightarrow>
         case r of None \<Rightarrow> (s1, fp, False)
         | Some d \<Rightarrow>
             if d = [] then (s1, fp, False)
             else case fwrite fs p fp d of (fp1, n) \<Rightarrow>
               if n \<noteq> length d then (s1, fp1, False)
               else download_loop fs p (remaining - length d) fp1 s1)
      else (s, fp, True))"
  by pat_completeness auto
termination
  by (relation "measure (\<lambda>(fs, p, remaining, fp, s). remaining)") auto

declare download_loop.simps [simp del]

definition download_result :: "u64 \<Rightarrow> path \<Rightarrow> client \<Rightarrow> client \<times> bool" where
  "download_result job_id out_path c =
     (case send_line (snprintf_s 64 (''DOWNLOAD '' @ udec (unat job_id) @ [NL])) c of (c1, ok) \<Rightarrow>
      if \<not> ok then (c1, False)
      else case expect_line BUFFER_SIZE c1 of (c2, r) \<Rightarrow>
      case r of None \<Rightarrow> (c2, False)
      | Some buf \<Rightarrow>
          let sz = parse_data_size buf in
          if sz < 0 then (c2, False)
          else case fopen_wb (cl_fs c2) out_path of None \<Rightarrow> (c2, False)
          | Some fs1 \<Rightarrow>
              (case download_loop fs1 out_path (nat sz) [] (cl_sock c2) of (s1, fp, ok1) \<Rightarrow>
               let c3 = c2\<lparr>cl_sock := s1, cl_fs := fst (fclose_w fs1 out_path fp)\<rparr> in
               if \<not> ok1 then (c3, False)
               else (c3\<lparr>cl_stdout := cl_stdout c3 @ ''   saved '' @ sdec sz @ '' bytes to '' @ out_path @ [NL]\<rparr>, True)))"

text \<open>Sending a command and showing its reply, whatever becomes of it.\<close>

definition ask :: "string \<Rightarrow> u64 \<Rightarrow> client \<Rightarrow> client" where
  "ask verb job_id c =
     fst (expect_line BUFFER_SIZE (fst (send_line (snprintf_s 64 (verb @ '' '' @ udec (unat job_id) @ [NL])) c)))"

text \<open>The reply to a request: the id of the new job, or nothing.\<close>

definition expect_job :: "client \<Rightarrow> client \<times> u64 option" where
  "expect_job c =
     (case expect_line BUFFER_SIZE c of (c1, r) \<Rightarrow>
      case r of None \<Rightarrow> (c1, None)
      | Some buf \<Rightarrow> let job_id = parse_job_id buf in if job_id = 0 then (c1, None) else (c1, Some job_id))"

definition upload_text_request :: "path \<Rightarrow> string \<Rightarrow> client \<Rightarrow> client \<times> bool" where
  "upload_text_request png_in text c =
     (case file_size (cl_fs c) png_in of None \<Rightarrow> (c, False)
      | Some png_size \<Rightarrow>
      case send_line (snprintf_s 256 (''ENCODE_TEXT '' @ sdec (int png_size) @ '' '' @ udec (length text) @ [NL])) c of (c1, ok1) \<Rightarrow>
      if \<not> ok1 then (c1, False)
      else case send_file_bytes png_in c1 of (c2, ok2) \<Rightarrow>
      if \<not> ok2 then (c2, False)
      else case write_all (bytes_of text) (cl_sock c2) of (s3, r) \<Rightarrow> (c2\<lparr>cl_sock := s3\<rparr>, r \<noteq> None))"

text \<open>What \<^verbatim>\<open>cmd_encode_text\<close> does when the job has not succeeded.\<close>

definition report_failure :: "u64 \<Rightarrow> client \<Rightarrow> client" where
  "report_failure job_id c =
     (let c1 = fst (send_line (''RESULT 0'' @ [NL]) c);
          c2 = fst (send_line (snprintf_s 64 (''RESULT '' @ udec (unat job_id) @ [NL])) c1)
      in fst (expect_line BUFFER_SIZE c2))"

definition cmd_encode_text :: "path \<Rightarrow> string \<Rightarrow> path \<Rightarrow> client \<Rightarrow> client \<times> bool" where
  "cmd_encode_text png_in text out_png c =
     (case upload_text_request png_in text c of (c1, ok) \<Rightarrow>
      if \<not> ok then (c1, False)
      else case expect_job c1 of (c2, j) \<Rightarrow>
      case j of None \<Rightarrow> (c2, False)
      | Some job_id \<Rightarrow>
          (case wait_for_done job_id c2 of (c3, done) \<Rightarrow>
           if \<not> done
           then (report_failure job_id c3, False)
           else download_result job_id out_png (ask ''META'' job_id c3)))"

definition upload_file_request :: "path \<Rightarrow> path \<Rightarrow> client \<Rightarrow> client \<times> bool" where
  "upload_file_request png_in file_in c =
     (case file_size (cl_fs c) png_in of None \<Rightarrow> (c, False)
      | Some s1 \<Rightarrow>
      case file_size (cl_fs c) file_in of None \<Rightarrow> (c, False)
      | Some s2 \<Rightarrow>
      let base = basename_of file_in in
      case send_line (snprintf_s 256 (''ENCODE_FILE '' @ sdec (int s1) @ '' '' @ udec (length base) @ '' '' @ sdec (int s2) @ [NL])) c
        of (c1, ok1) \<Rightarrow>
      if \<not> ok1 then (c1, False)
      else case send_file_bytes png_in c1 of (c2, ok2) \<Rightarrow>
      if \<not> ok2 then (c2, False)
      else case write_all (bytes_of base) (cl_sock c2) of (s3, r) \<Rightarrow>
      if r = None then (c2\<lparr>cl_sock := s3\<rparr>, False)
      else send_file_bytes file_in (c2\<lparr>cl_sock := s3\<rparr>))"

definition cmd_encode_file :: "path \<Rightarrow> path \<Rightarrow> path \<Rightarrow> client \<Rightarrow> client \<times> bool" where
  "cmd_encode_file png_in file_in out_png c =
     (case upload_file_request png_in file_in c of (c1, ok) \<Rightarrow>
      if \<not> ok then (c1, False)
      else case expect_job c1 of (c2, j) \<Rightarrow>
      case j of None \<Rightarrow> (c2, False)
      | Some job_id \<Rightarrow>
          (case wait_for_done job_id c2 of (c3, done) \<Rightarrow>
           if \<not> done then (c3, False) else download_result job_id out_png c3))"

text \<open>The common first part of \<^verbatim>\<open>DECODE\<close>, \<^verbatim>\<open>CAPACITY\<close> and \<^verbatim>\<open>VALIDATE\<close>.\<close>

definition upload_png_request :: "string \<Rightarrow> path \<Rightarrow> client \<Rightarrow> client \<times> bool" where
  "upload_png_request verb png_in c =
     (case file_size (cl_fs c) png_in of None \<Rightarrow> (c, False)
      | Some sz \<Rightarrow>
      case send_line (snprintf_s 128 (verb @ '' '' @ sdec (int sz) @ [NL])) c of (c1, ok1) \<Rightarrow>
      if \<not> ok1 then (c1, False) else send_file_bytes png_in c1)"

definition run_png_job :: "string \<Rightarrow> path \<Rightarrow> client \<Rightarrow> client \<times> u64 option" where
  "run_png_job verb png_in c =
     (case upload_png_request verb png_in c of (c1, ok) \<Rightarrow>
      if \<not> ok then (c1, None)
      else case expect_job c1 of (c2, j) \<Rightarrow>
      case j of None \<Rightarrow> (c2, None)
      | Some job_id \<Rightarrow>
          (case wait_for_done job_id c2 of (c3, done) \<Rightarrow> (c3, if done then Some job_id else None)))"

definition cmd_decode :: "path \<Rightarrow> path \<Rightarrow> client \<Rightarrow> client \<times> bool" where
  "cmd_decode png_in out_path c =
     (case run_png_job ''DECODE'' png_in c of (c1, j) \<Rightarrow>
      case j of None \<Rightarrow> (c1, False)
      | Some job_id \<Rightarrow> download_result job_id out_path (ask ''META'' job_id c1))"

definition cmd_capacity :: "path \<Rightarrow> client \<Rightarrow> client \<times> bool" where
  "cmd_capacity png_in c =
     (case run_png_job ''CAPACITY'' png_in c of (c1, j) \<Rightarrow>
      case j of None \<Rightarrow> (c1, False) | Some job_id \<Rightarrow> (ask ''RESULT'' job_id c1, True))"

definition cmd_validate :: "path \<Rightarrow> client \<Rightarrow> client \<times> bool" where
  "cmd_validate png_in c =
     (case run_png_job ''VALIDATE'' png_in c of (c1, j) \<Rightarrow>
      case j of None \<Rightarrow> (c1, False) | Some job_id \<Rightarrow> (ask ''RESULT'' job_id c1, True))"

text \<open>
  The choice \<^verbatim>\<open>main\<close> makes: \<open>args\<close> are the arguments after the program name, \<open>None\<close> is a usage error.
\<close>

definition run_command :: "string list \<Rightarrow> client \<Rightarrow> client \<times> bool option" where
  "run_command args c =
     (case args of
        a # rest \<Rightarrow>
          if a = ''ping'' then
            (case expect_line BUFFER_SIZE (fst (send_line (''PING'' @ [NL]) c)) of (c1, r) \<Rightarrow> (c1, Some (r \<noteq> None)))
          else (case rest of
              [x, y, z] \<Rightarrow>
                (if a = ''encode-text'' then apsnd Some (cmd_encode_text x y z c)
                 else if a = ''encode-file'' then apsnd Some (cmd_encode_file x y z c) else (c, None))
            | [x, y] \<Rightarrow> (if a = ''decode'' then apsnd Some (cmd_decode x y c) else (c, None))
            | [x] \<Rightarrow>
                (if a = ''capacity'' then apsnd Some (cmd_capacity x c)
                 else if a = ''validate'' then apsnd Some (cmd_validate x c) else (c, None))
            | _ \<Rightarrow> (c, None))
      | [] \<Rightarrow> (c, None))"

section \<open>Transfers on a working connection\<close>

lemma write_all_calm:
  assumes "calm_writes s"
  obtains s1 where "write_all buf s = (s1, Some (length buf))" "s_out s1 = s_out s @ buf" "s_in s1 = s_in s" "calm_writes s1"
  using write_all_loop_calm [OF assms, of 0 buf] by (auto simp: write_all_def)

lemma send_bytes_calm:
  "calm_writes s \<Longrightarrow>
     \<exists>s1. send_bytes_loop rest s = (s1, True) \<and> s_out s1 = s_out s @ rest \<and> s_in s1 = s_in s \<and> calm_writes s1"
proof (induction "length rest" arbitrary: rest s rule: less_induct)
  case less
  let ?buf = "take CHUNK_SIZE rest"
  obtain s1 where w: "write_all ?buf s = (s1, Some (length ?buf))" "s_out s1 = s_out s @ ?buf" "s_in s1 = s_in s" "calm_writes s1"
    by (rule write_all_calm [OF less.prems])
  show ?case
  proof (cases "length rest < CHUNK_SIZE")
    case True
    then show ?thesis using w less.prems by (subst send_bytes_loop.simps) (simp add: Let_def)
  next
    case False
    then have b: "length ?buf = CHUNK_SIZE" "0 < CHUNK_SIZE" "length (drop CHUNK_SIZE rest) < length rest" "rest \<noteq> []"
      by (auto simp: CHUNK_SIZE_def)
    from less.hyps [OF b(3) w(4)] obtain s2 where s2: "send_bytes_loop (drop CHUNK_SIZE rest) s1 = (s2, True)"
      "s_out s2 = s_out s1 @ drop CHUNK_SIZE rest" "s_in s2 = s_in s1" "calm_writes s2" by auto
    have "send_bytes_loop rest s = send_bytes_loop (drop CHUNK_SIZE rest) s1"
      using w(1) b by (subst send_bytes_loop.simps) (simp add: Let_def)
    then show ?thesis using s2 w by simp
  qed
qed

lemma read_line_loop_sched: "set (s_sched (fst (read_line_loop n acc s))) \<subseteq> set (s_sched s)"
proof (induction n acc s rule: read_line_loop.induct)
  case (1 n acc s)
  obtain s1 r d where rd: "sock_read 1 s = (s1, r, d)" by (rule prod_cases3)
  have m: "set (s_sched s1) \<subseteq> set (s_sched s)" by (rule sock_read_sched_set [OF rd])
  note unfold = read_line_loop.simps [of n acc s]
  show ?case
  proof (cases "length acc + 1 < n")
    case False
    then show ?thesis by (simp add: unfold)
  next
    case True
    show ?thesis
    proof (cases r)
      case Res_eintr
      from "1.IH"(1) [OF True rd [symmetric] refl Res_eintr] show ?thesis using m True rd Res_eintr by (simp add: unfold)
    next
      case Res_error
      then show ?thesis using m True rd by (simp add: unfold)
    next
      case (Res_ok k)
      show ?thesis
      proof (cases "k = 0 \<or> d = [of_nat (of_char NL)]")
        case stop: True
        then show ?thesis using m True rd Res_ok by (auto simp: unfold)
      next
        case go: False
        then have "set (s_sched (fst (read_line_loop n (acc @ d) s1))) \<subseteq> set (s_sched s1)"
          using "1.IH"(2) [OF True rd [symmetric] refl Res_ok _ refl] by simp
        then show ?thesis using m True rd Res_ok go by (simp add: unfold)
      qed
    qed
  qed
qed

lemma byte_is_NL: "(of_nat (of_char c) :: u8) = 10 \<longleftrightarrow> c = NL"
proof
  assume "(of_nat (of_char c) :: u8) = 10"
  then have "chars_of (bytes_of [c]) = chars_of [10]" by (simp only: bytes_of_def list.map)
  then have "[c] = chars_of [10]" by (simp only: chars_of_bytes_of)
  then show "c = NL" by (simp add: chars_of_def char_of_def bit_Suc_0_iff)
qed simp

lemma take_line_printed:
  "NL \<notin> set l \<Longrightarrow> length l < n \<Longrightarrow> take_line n (bytes_of (l @ [NL]) @ rest) = bytes_of (l @ [NL])"
proof (induction l arbitrary: n)
  case Nil
  then show ?case by (cases n) (simp_all add: bytes_of_def)
next
  case (Cons c l)
  then show ?case using byte_is_NL [of c] by (cases n) (auto simp: bytes_of_def)
qed

lemma read_line_printed:
  assumes "calm_writes s" "s_in s = bytes_of (l @ [NL]) @ rest" "NL \<notin> set l" "length l + 1 < n"
  obtains s1 where "read_line n s = (s1, Some (l @ [NL]))" "s_in s1 = rest" "s_out s1 = s_out s" "calm_writes s1"
proof -
  obtain s1 where s1: "read_line_loop n [] s = (s1, Some (take_line (n - 1) (s_in s)))"
    "s_in s = take_line (n - 1) (s_in s) @ s_in s1" "s_out s1 = s_out s"
    using read_line_loop_calm [OF calm_writes_calm [OF assms(1)], of n "[]"] by auto
  have l: "take_line (n - 1) (s_in s) = bytes_of (l @ [NL])"
    unfolding assms(2) by (rule take_line_printed) (use assms(3,4) in auto)
  show thesis
  proof (rule that [of s1])
    show "calm_writes s1" using read_line_loop_sched [of n "[]" s] s1(1) calm_writes_mono [OF _ assms(1)] by simp
    show "read_line n s = (s1, Some (l @ [NL]))" using s1(1) l assms(4) by (simp add: read_line_def)
    have "s_in s = bytes_of (l @ [NL]) @ s_in s1" using s1(2) by (simp only: l)
    then show "s_in s1 = rest" unfolding assms(2) by (simp only: same_append_eq)
  qed (rule s1(3))
qed

lemma send_line_calm:
  assumes "calm_writes (cl_sock c)"
  obtains s1 where "send_line l c = (c\<lparr>cl_stdout := cl_stdout c @ ''>> '' @ l, cl_sock := s1\<rparr>, True)"
    "s_out s1 = s_out (cl_sock c) @ bytes_of l" "s_in s1 = s_in (cl_sock c)" "calm_writes s1"
proof -
  obtain s1 where s1: "write_all (bytes_of l) (cl_sock c) = (s1, Some (length (bytes_of l)))"
    "s_out s1 = s_out (cl_sock c) @ bytes_of l" "s_in s1 = s_in (cl_sock c)" "calm_writes s1"
    by (rule write_all_calm [OF assms])
  show thesis by (rule that [of s1]) (use s1 in \<open>simp_all add: send_line_def Let_def\<close>)
qed

lemma expect_line_calm:
  assumes "calm_writes (cl_sock c)" "s_in (cl_sock c) = bytes_of (l @ [NL]) @ rest" "NL \<notin> set l" "NUL \<notin> set l" "length l + 1 < n"
  obtains s1 where "expect_line n c = (c\<lparr>cl_sock := s1, cl_stdout := cl_stdout c @ ''<< '' @ l @ [NL]\<rparr>, Some (l @ [NL]))"
    "s_in s1 = rest" "s_out s1 = s_out (cl_sock c)" "calm_writes s1"
proof -
  have "cstr (l @ [NL]) = l @ [NL]" by (rule cstr_id) (use assms(4) in simp)
  moreover obtain s1 where s1: "read_line n (cl_sock c) = (s1, Some (l @ [NL]))" "s_in s1 = rest"
    "s_out s1 = s_out (cl_sock c)" "calm_writes s1"
    by (rule read_line_printed [OF assms(1,2,3,5)])
  ultimately show thesis by (intro that [of s1]) (simp_all add: expect_line_def Let_def)
qed

lemma send_file_calm:
  assumes "calm_writes (cl_sock c)" "fopen_rb (cl_fs c) p = Some f" "fs_seekable (cl_fs c) p"
  obtains s1 where "send_file_bytes p c = (c\<lparr>cl_sock := s1\<rparr>, True)" "s_out s1 = s_out (cl_sock c) @ f"
    "s_in s1 = s_in (cl_sock c)" "calm_writes s1"
proof -
  obtain s1 where s1: "send_bytes_loop f (cl_sock c) = (s1, True)" "s_out s1 = s_out (cl_sock c) @ f"
    "s_in s1 = s_in (cl_sock c)" "calm_writes s1"
    using send_bytes_calm [OF assms(1)] by blast
  show thesis by (rule that [of s1]) (use s1 assms(2,3) in \<open>simp_all add: send_file_bytes_def\<close>)
qed

lemma printed_clean:
  "NUL \<notin> set (udec n)" "NL \<notin> set (udec n)" "sdec (int n) = udec n"
  by (simp_all add: udec_no_NUL udec_no_NL sdec_def)

lemma udec_short: "n < 2 ^ 64 \<Longrightarrow> length (udec n) \<le> 20"
  by (rule udec_length) simp_all

text \<open>What the client sends for \<^verbatim>\<open>ENCODE_TEXT\<close>.\<close>

definition text_request_line :: "nat \<Rightarrow> nat \<Rightarrow> string" where
  "text_request_line n m = ''ENCODE_TEXT '' @ udec n @ '' '' @ udec m"

lemma text_line_clean:
  assumes "n < 2 ^ 64" "m < 2 ^ 64"
  shows "NUL \<notin> set (text_request_line n m)" "NL \<notin> set (text_request_line n m)" "length (text_request_line n m) + 1 < 256"
  using udec_short [OF assms(1)] udec_short [OF assms(2)] by (simp_all add: text_request_line_def printed_clean)

lemma text_line_parsed:
  assumes "n < 2 ^ 64" "m < 2 ^ 64"
  shows "protocol_parse_line (text_request_line n m @ [NL]) =
    empty_request\<lparr>r_command := PROTO_CMD_ENCODE_TEXT, r_size1 := of_nat n, r_size2 := of_nat m\<rparr>"
proof -
  have "wire_line (W_encode_text (of_nat n) (of_nat m)) = Some (text_request_line n m)"
    using assms by (simp add: text_request_line_def unat_of_nat_u64)
  moreover have "length (text_request_line n m) + 1 < BUFFER_SIZE"
    using text_line_clean(3) [OF assms] by (simp add: BUFFER_SIZE_def)
  ultimately show ?thesis
    using protocol_line parse_wire text_line_clean(1) [OF assms] by fastforce
qed

lemma text_uploaded:
  assumes "calm_writes (cl_sock c)" "fs_files (cl_fs c) p = Some png" "fs_readable (cl_fs c) p" "fs_seekable (cl_fs c) p"
    and "length png < 2 ^ 64" "length text < 2 ^ 64"
  obtains s1 where "snd (upload_text_request p text c)" "cl_sock (fst (upload_text_request p text c)) = s1"
    "s_out s1 = s_out (cl_sock c) @ bytes_of (text_request_line (length png) (length text) @ [NL]) @ png @ bytes_of text"
    "s_in s1 = s_in (cl_sock c)" "calm_writes s1" "cl_fs (fst (upload_text_request p text c)) = cl_fs c"
proof -
  let ?l = "text_request_line (length png) (length text) @ [NL]"
  have l: "snprintf_s 256 (''ENCODE_TEXT '' @ sdec (int (length png)) @ '' '' @ udec (length text) @ [NL]) = ?l"
    using snprintf_s_id [of ?l 256] text_line_clean [OF assms(5,6)] by (simp add: text_request_line_def printed_clean)
  obtain s1 where s1: "send_line ?l c = (c\<lparr>cl_stdout := cl_stdout c @ ''>> '' @ ?l, cl_sock := s1\<rparr>, True)"
    "s_out s1 = s_out (cl_sock c) @ bytes_of ?l" "s_in s1 = s_in (cl_sock c)" "calm_writes s1"
    by (rule send_line_calm [OF assms(1)])
  let ?c1 = "c\<lparr>cl_stdout := cl_stdout c @ ''>> '' @ ?l, cl_sock := s1\<rparr>"
  obtain s2 where s2: "send_file_bytes p ?c1 = (?c1\<lparr>cl_sock := s2\<rparr>, True)" "s_out s2 = s_out s1 @ png"
    "s_in s2 = s_in s1" "calm_writes s2"
    by (rule send_file_calm [of ?c1 p png]) (use assms(2-4) s1(4) in \<open>simp_all add: fopen_rb_def\<close>)
  obtain s3 where s3: "write_all (bytes_of text) s2 = (s3, Some (length (bytes_of text)))" "s_out s3 = s_out s2 @ bytes_of text"
    "s_in s3 = s_in s2" "calm_writes s3"
    by (rule write_all_calm [OF s2(4)])
  have "upload_text_request p text c = (?c1\<lparr>cl_sock := s3\<rparr>, True)"
    using s1(1) s2(1) s3(1) assms(2) by (simp add: upload_text_request_def file_size_def l [simplified])
  then show thesis using s1 s2 s3 by (intro that [of s3]) simp_all
qed

lemma parse_job_reply: "n < 2 ^ 64 \<Longrightarrow> parse_job_id (''JOB '' @ udec n @ [NL]) = of_nat n"
  using strtoull_udec [of n "[NL]"] by (simp add: parse_job_id_def isdigit_def)

lemma job_reply_read:
  assumes "calm_writes (cl_sock c)" "s_in (cl_sock c) = bytes_of (''JOB '' @ udec (unat k) @ [NL]) @ rest" "(k :: u64) \<noteq> 0"
  shows "\<exists>c'. expect_job c = (c', Some k) \<and> s_in (cl_sock c') = rest"
proof -
  let ?l = "''JOB '' @ udec (unat k)"
  have "NL \<notin> set ?l" "NUL \<notin> set ?l" "length ?l + 1 < BUFFER_SIZE"
    using udec_length_u64 [of k] by (simp_all add: printed_clean BUFFER_SIZE_def)
  from expect_line_calm [OF assms(1) _ this] assms(2) obtain s1 where
    "expect_line BUFFER_SIZE c = (c\<lparr>cl_sock := s1, cl_stdout := cl_stdout c @ ''<< '' @ ?l @ [NL]\<rparr>, Some (?l @ [NL]))"
    "s_in s1 = rest" by auto
  moreover have "parse_job_id (?l @ [NL]) = k" using parse_job_reply [of "unat k"] unat_u64_bound [of k] by simp
  ultimately show ?thesis using assms(3) by (simp add: expect_job_def Let_def)
qed

text \<open>The server reads a printed line of a user session and handles it.\<close>

lemma command_read:
  assumes "c_type (w_clients w ! i) = CLIENT_TYPE_USER" "w_socks w (c_fd (w_clients w ! i)) = Some s" "calm_writes s"
    "s_in s = bytes_of (l @ [NL]) @ rest" "NL \<notin> set l" "length l + 1 < BUFFER_SIZE"
  obtains s1 where "handle_client_command se i w =
      fst (handle_user_command se i (protocol_parse_line (l @ [NL])) (w\<lparr>w_socks := (w_socks w)(c_fd (w_clients w ! i) \<mapsto> s1)\<rparr>))"
    "s_in s1 = rest" "s_out s1 = s_out s" "calm_writes s1"
proof -
  obtain s1 where s1: "read_line BUFFER_SIZE s = (s1, Some (l @ [NL]))" "s_in s1 = rest" "s_out s1 = s_out s" "calm_writes s1"
    by (rule read_line_printed [OF assms(3-6)])
  show thesis by (rule that [of s1]) (use s1 assms(1,2) in \<open>simp_all add: handle_client_command_def Let_def\<close>)
qed

section \<open>Waiting\<close>

lemma strstr_skip: "needle \<noteq> [] \<Longrightarrow> hd needle \<notin> set pre \<Longrightarrow> strstr (pre @ t) needle = strstr t needle"
  by (induction pre) (cases needle; auto)+

definition status_line :: "u64 \<Rightarrow> job_state \<Rightarrow> string" where
  "status_line job_id st = ''STATUS '' @ udec (unat job_id) @ '' '' @ job_state_to_string st"

lemma status_clean: "NL \<notin> set (status_line k st)" "NUL \<notin> set (status_line k st)" "length (status_line k st) + 1 < BUFFER_SIZE"
  using udec_length_u64 [of k] by (cases st; simp add: status_line_def job_state_to_string_def printed_clean BUFFER_SIZE_def)+

lemma no_letter_in_udec: "c \<notin> set (udec n)" if "\<not> isdigit c"
  using that udec_chars by blast

lemma strstr_status:
  assumes "needle \<noteq> []" "hd needle \<notin> {CHR ''S'', CHR ''T'', CHR ''A'', CHR ''U'', CHR '' ''}" "\<not> isdigit (hd needle)"
  shows "strstr (status_line k st @ [NL]) needle = strstr (job_state_to_string st @ [NL]) needle"
  using strstr_skip [OF assms(1), of "''STATUS '' @ udec (unat k) @ '' ''" "job_state_to_string st @ [NL]"]
    no_letter_in_udec [OF assms(3)] assms(2) by (simp add: status_line_def)

lemma states_seen:
  "strstr (status_line k st @ [NL]) ''DONE'' \<noteq> None \<longleftrightarrow> st = JOB_STATE_DONE"
  "strstr (status_line k st @ [NL]) ''FAILED'' \<noteq> None \<longleftrightarrow> st = JOB_STATE_FAILED"
  "strstr (status_line k st @ [NL]) ''CANCELED'' \<noteq> None \<longleftrightarrow> st = JOB_STATE_CANCELED"
  by (subst strstr_status; cases st; simp add: job_state_to_string_def isdigit_def)+

definition status_request :: "u64 \<Rightarrow> bytes" where
  "status_request job_id = bytes_of (''STATUS '' @ udec (unat job_id) @ [NL])"

lemma one_poll:
  assumes "calm_writes (cl_sock c)" "s_in (cl_sock c) = bytes_of (status_line k st @ [NL]) @ rest"
  shows "\<exists>c2. wait_loop (Suc n) k c = (if finished st then (c2, st = JOB_STATE_DONE) else wait_loop n k c2) \<and>
    calm_writes (cl_sock c2) \<and> s_in (cl_sock c2) = rest \<and> s_out (cl_sock c2) = s_out (cl_sock c) @ status_request k"
proof -
  let ?l = "''STATUS '' @ udec (unat k) @ [NL]"
  have l: "snprintf_s 64 ?l = ?l"
    using udec_length_u64 [of k] by (intro snprintf_s_id) (simp_all add: printed_clean)
  obtain s1 where s1: "send_line ?l c = (c\<lparr>cl_stdout := cl_stdout c @ ''>> '' @ ?l, cl_sock := s1\<rparr>, True)"
    "s_out s1 = s_out (cl_sock c) @ bytes_of ?l" "s_in s1 = s_in (cl_sock c)" "calm_writes s1"
    by (rule send_line_calm [OF assms(1)])
  let ?c1 = "c\<lparr>cl_stdout := cl_stdout c @ ''>> '' @ ?l, cl_sock := s1\<rparr>"
  have "calm_writes (cl_sock ?c1)" "s_in (cl_sock ?c1) = bytes_of (status_line k st @ [NL]) @ rest" using s1(3,4) assms(2) by simp_all
  from expect_line_calm [OF this status_clean] obtain s2 where
    s2: "expect_line BUFFER_SIZE ?c1 = (?c1\<lparr>cl_sock := s2, cl_stdout := cl_stdout ?c1 @ ''<< '' @ status_line k st @ [NL]\<rparr>,
      Some (status_line k st @ [NL]))" "s_in s2 = rest" "s_out s2 = s_out (cl_sock ?c1)" "calm_writes s2" .
  obtain c2 where c2: "expect_line BUFFER_SIZE ?c1 = (c2, Some (status_line k st @ [NL]))"
    "s_in (cl_sock c2) = rest" "s_out (cl_sock c2) = s_out s1" "calm_writes (cl_sock c2)"
    by (rule that [OF s2(1)]) (use s2(2-4) in simp_all)
  have "wait_loop (Suc n) k c = (if st = JOB_STATE_DONE then (c2, True) else if st = JOB_STATE_FAILED then (c2, False)
      else if st = JOB_STATE_CANCELED then (c2, False) else wait_loop n k c2)"
    unfolding wait_loop.simps l s1(1) by (simp add: c2(1) [simplified] states_seen del: not_None_eq)
  then show ?thesis
    using c2(2-4) s1(2) by (intro exI [of _ c2]) (cases st; simp add: finished_def status_request_def)
qed

lemma polls:
  assumes "list_all (\<lambda>st. \<not> finished st) sts" "finished st" "length sts < n"
    "calm_writes (cl_sock c)" "s_in (cl_sock c) = concat (map (\<lambda>st. bytes_of (status_line k st @ [NL])) (sts @ [st])) @ rest"
  shows "\<exists>c'. wait_loop n k c = (c', st = JOB_STATE_DONE) \<and> s_in (cl_sock c') = rest \<and> calm_writes (cl_sock c') \<and>
    s_out (cl_sock c') = s_out (cl_sock c) @ concat (replicate (Suc (length sts)) (status_request k))"
  using assms
proof (induction sts arbitrary: n c)
  case Nil
  then obtain m where n: "n = Suc m" by (cases n) auto
  show ?case using one_poll [of c k st rest m] Nil by (auto simp: n)
next
  case (Cons a sts)
  then obtain m where n: "n = Suc m" by (cases n) auto
  let ?rest = "concat (map (\<lambda>st. bytes_of (status_line k st @ [NL])) (sts @ [st])) @ rest"
  obtain c2 where c2: "wait_loop n k c = wait_loop m k c2" "calm_writes (cl_sock c2)" "s_in (cl_sock c2) = ?rest"
    "s_out (cl_sock c2) = s_out (cl_sock c) @ status_request k"
    using one_poll [of c k a ?rest m] Cons.prems by (auto simp: n)
  show ?case using Cons.IH [OF _ Cons.prems(2) _ c2(2,3)] Cons.prems(1,3) c2(1,4) by (auto simp: n)
qed

section \<open>Downloading\<close>

lemma download_loop_calm:
  "calm s \<Longrightarrow> s_in s = f @ rest \<Longrightarrow> length fp + length f \<le> fs_room fs p \<Longrightarrow>
     \<exists>s1. download_loop fs p (length f) fp s = (s1, fp @ f, True) \<and> s_in s1 = rest \<and> s_out s1 = s_out s"
proof (induction "length f" arbitrary: f fp s rule: less_induct)
  case less
  show ?case
  proof (cases "f = []")
    case True
    then show ?thesis using less.prems by (simp add: download_loop.simps)
  next
    case False
    let ?w = "if length f < CHUNK_SIZE then length f else CHUNK_SIZE"
    have w: "0 < ?w" "?w \<le> length f" using False by (auto simp: CHUNK_SIZE_def)
    obtain s1 where s1: "read_exact ?w s = (s1, Some (take ?w f))" "s_in s1 = drop ?w f @ rest" "s_out s1 = s_out s" "calm s1"
      using read_exact_loop_calm [OF less.prems(1), of "[]" ?w] less.prems(2) w(2) by (auto simp: read_exact_def)
    have len: "length (take ?w f) = ?w" using w(2) by simp
    have "fwrite fs p fp (take ?w f) = (fp @ take ?w f, length (take ?w f))"
      by (rule fwrite_fits) (use less.prems(3) w(2) in simp)
    then have step: "download_loop fs p (length f) fp s = download_loop fs p (length (drop ?w f)) (fp @ take ?w f) s1"
      using s1(1) w len False by (subst download_loop.simps) (simp add: Let_def)
    have "length (drop ?w f) < length f" using w False by simp
    moreover have "length (fp @ take ?w f) + length (drop ?w f) \<le> fs_room fs p" using less.prems(3) len w(2) by simp
    ultimately show ?thesis using less.hyps [of "drop ?w f" s1 "fp @ take ?w f"] s1(2-4) step by simp
  qed
qed

definition download_line :: "u64 \<Rightarrow> string" where
  "download_line job_id = ''DOWNLOAD '' @ udec (unat job_id)"

lemma download_line_clean: "NL \<notin> set (download_line k)" "NUL \<notin> set (download_line k)" "length (download_line k) + 1 < 64"
  using udec_length_u64 [of k] by (simp_all add: download_line_def printed_clean)

lemma download_line_parsed:
  "protocol_parse_line (download_line k @ [NL]) = empty_request\<lparr>r_command := PROTO_CMD_DOWNLOAD, r_job_id := k\<rparr>"
proof -
  have "wire_line (W_job PROTO_CMD_DOWNLOAD k) = Some (download_line k)" by (simp add: download_line_def)
  moreover have "length (download_line k) + 1 < BUFFER_SIZE" using download_line_clean(3) [of k] by (simp add: BUFFER_SIZE_def)
  ultimately show ?thesis using protocol_line parse_wire download_line_clean(2) by fastforce
qed

definition data_line :: "nat \<Rightarrow> string" where
  "data_line n = ''DATA '' @ udec n"

lemma data_line_read:
  assumes "n < 2 ^ 63"
  shows "NL \<notin> set (data_line n)" "NUL \<notin> set (data_line n)" "length (data_line n) + 1 < BUFFER_SIZE"
    "parse_data_size (data_line n @ [NL]) = int n"
proof -
  have "length (udec n) \<le> 20" by (rule udec_short) (use assms in simp)
  then show "NL \<notin> set (data_line n)" "NUL \<notin> set (data_line n)" "length (data_line n) + 1 < BUFFER_SIZE"
    by (simp_all add: data_line_def printed_clean BUFFER_SIZE_def)
  show "parse_data_size (data_line n @ [NL]) = int n"
    using strtol_udec [OF assms, of "[NL]"] by (simp add: parse_data_size_def data_line_def isdigit_def)
qed

lemma download_calm:
  assumes "calm_writes (cl_sock c)" "s_in (cl_sock c) = bytes_of (data_line (length f) @ [NL]) @ f @ rest" "length f < 2 ^ 63"
    and "fopen_wb (cl_fs c) out = Some fs1" "length f \<le> fs_room fs1 out"
  shows "\<exists>c'. download_result k out c = (c', True) \<and> cl_fs c' = fst (fclose_w fs1 out f) \<and> s_in (cl_sock c') = rest \<and>
    s_out (cl_sock c') = s_out (cl_sock c) @ bytes_of (download_line k @ [NL])"
proof -
  let ?l = "download_line k @ [NL]"
  have l: "snprintf_s 64 (''DOWNLOAD '' @ udec (unat k) @ [NL]) = ?l"
    using snprintf_s_id [of ?l 64] download_line_clean [of k] by (simp add: download_line_def)
  obtain s1 where s1: "send_line ?l c = (c\<lparr>cl_stdout := cl_stdout c @ ''>> '' @ ?l, cl_sock := s1\<rparr>, True)"
    "s_out s1 = s_out (cl_sock c) @ bytes_of ?l" "s_in s1 = s_in (cl_sock c)" "calm_writes s1"
    by (rule send_line_calm [OF assms(1)])
  let ?c1 = "c\<lparr>cl_stdout := cl_stdout c @ ''>> '' @ ?l, cl_sock := s1\<rparr>" and ?d = "data_line (length f)"
  have c1: "calm_writes (cl_sock ?c1)" "s_in (cl_sock ?c1) = bytes_of (?d @ [NL]) @ f @ rest" using s1 assms(2) by simp_all
  obtain s2 where s2: "expect_line BUFFER_SIZE ?c1 = (?c1\<lparr>cl_sock := s2, cl_stdout := cl_stdout ?c1 @ ''<< '' @ ?d @ [NL]\<rparr>,
      Some (?d @ [NL]))" "s_in s2 = f @ rest" "s_out s2 = s_out (cl_sock ?c1)" "calm_writes s2"
    by (rule expect_line_calm [OF c1 data_line_read(1-3) [OF assms(3)]])
  let ?c2 = "?c1\<lparr>cl_sock := s2, cl_stdout := cl_stdout ?c1 @ ''<< '' @ ?d @ [NL]\<rparr>"
  obtain s3 where s3: "download_loop fs1 out (length f) [] s2 = (s3, f, True)" "s_in s3 = rest" "s_out s3 = s_out s2"
    using download_loop_calm [OF calm_writes_calm [OF s2(4)] s2(2), of "[]"] assms(5) by auto
  let ?c3 = "?c2\<lparr>cl_sock := s3, cl_fs := fst (fclose_w fs1 out f)\<rparr>"
  have "download_result k out c = (?c3\<lparr>cl_stdout := cl_stdout ?c3 @ ''   saved '' @ sdec (int (length f)) @ '' bytes to '' @ out @ [NL]\<rparr>, True)"
    unfolding download_result_def l s1(1) prod.case s2(1) option.case
    using s3(1) assms(4) data_line_read(4) [OF assms(3)] by (simp add: Let_def)
  then show ?thesis using s1(2) s2(3) s3 by simp
qed

lemma accepts_opens: "accepts fs p n \<Longrightarrow> fopen_wb fs p = Some (set_file fs p []) \<and> n \<le> fs_room (set_file fs p []) p"
  by (simp add: accepts_def fopen_wb_def frame_simps)

text \<open>The server's side of a download.\<close>

lemma download_served:
  assumes server: "c_type (w_clients w ! i) = CLIENT_TYPE_USER" "w_socks w (c_fd (w_clients w ! i)) = Some s" "calm_writes s"
      "s_in s = bytes_of (download_line job_id @ [NL]) @ later"
    and job: "job_table_find (w_jobs w) job_id = Some q" "j_state (tbl_jobs (w_jobs w) ! q) = JOB_STATE_DONE"
      "job_get_output_path (tbl_jobs (w_jobs w) ! q) [] MAX_JOB_PATH = path" "path \<noteq> []"
      "fs_files (w_fs w) path = Some f" "fs_readable (w_fs w) path" "length f < 2 ^ 63"
  shows "\<exists>s'. w_socks (handle_client_command se i w) (c_fd (w_clients w ! i)) = Some s' \<and>
    s_out s' = s_out s @ bytes_of (data_line (length f) @ [NL]) @ f"
proof -
  let ?w' = "handle_client_command se i w" and ?fd = "c_fd (w_clients w ! i)"
  have len: "length (download_line job_id) + 1 < BUFFER_SIZE" using download_line_clean(3) [of job_id] by (simp add: BUFFER_SIZE_def)
  obtain s1 where s1: "?w' = fst (handle_user_command se i (protocol_parse_line (download_line job_id @ [NL]))
      (w\<lparr>w_socks := (w_socks w)(?fd \<mapsto> s1)\<rparr>))" "s_out s1 = s_out s" "calm_writes s1"
    using command_read [OF server download_line_clean(1) len] by metis
  let ?w1 = "w\<lparr>w_socks := (w_socks w)(?fd \<mapsto> s1)\<rparr>"
  have e: "?w' = fst (handle_download ?fd job_id ?w1)"
    unfolding s1(1) download_line_parsed by (simp add: handle_user_command_def Let_def)
  have dl: "length (data_line (length f) @ [NL]) < BUFFER_SIZE" using data_line_read(3) [OF job(7)] by simp
  obtain s2 where s2: "send_responsef ?fd (data_line (length f) @ [NL]) ?w1 = (?w1\<lparr>w_socks := (w_socks ?w1)(?fd \<mapsto> s2)\<rparr>, True)"
    "s_out s2 = s_out s1 @ bytes_of (data_line (length f) @ [NL])" "calm_writes s2"
    using send_responsef_arrives [OF _ s1(3) dl, of ?w1 ?fd] by auto
  obtain s3 where s3: "send_loop f s2 = (s3, True)" "s_out s3 = s_out s2 @ f"
    using send_loop_calm [OF s2(3)] by blast
  have "w_socks ?w' ?fd = Some s3"
    using job s2(1) s3(1) unfolding e
    by (simp add: handle_download_def Let_def get_file_size_bytes_def file_size_def storage_send_file_def fopen_rb_def data_line_def)
  then show ?thesis using s1(2) s2(2) s3(2) by simp
qed

section \<open>Examples\<close>

definition demo_disk2 :: filesys where
  "demo_disk2 = (w_fs world0)\<lparr>fs_files := [''a.png'' \<mapsto> [1, 2, 3]]\<rparr>"

definition demo_client :: "bytes \<Rightarrow> client" where
  "demo_client d = \<lparr>cl_sock = \<lparr>s_in = d, s_out = [], s_sched = [Io_eintr, Io_some 1]\<rparr>, cl_fs = demo_disk2, cl_stdout = []\<rparr>"

definition demo_server :: "bytes \<Rightarrow> world" where
  "demo_server d = upload_world\<lparr>w_socks := [7 \<mapsto> \<lparr>s_in = d, s_out = [], s_sched = [Io_some 1, Io_eintr]\<rparr>],
     w_fs := (w_fs world0)\<lparr>fs_files := [''out.bin'' \<mapsto> [5, 6]]\<rparr>\<rparr>"

lemmas demo_simps = demo_disk2_def demo_client_def demo_server_def upload_world_def upload_env_def world0_def

lemma demo_paths:
  "storage_make_upload_path storage_default 1 (Some ''png'') MAX_JOB_PATH = Some ''storage/uploads/job_1.png''"
  "storage_make_upload_path storage_default 1 (Some ''txt'') MAX_JOB_PATH = Some ''storage/uploads/job_1.txt''"
  by (simp_all add: storage_make_upload_path_def storage_default_def snprintf_fmt_def job_path_def MAX_JOB_PATH_def
      udec.simps digit_char_def char_of_def bit_Suc_0_iff Let_def)

section \<open>After a failed job\<close>

definition request_line :: "u64 \<Rightarrow> string" where
  "request_line k = ''RESULT '' @ udec (unat k)"

definition result_line :: "u64 \<Rightarrow> job \<Rightarrow> string" where
  "result_line k j = ''RESULT '' @ udec (unat k) @ '' state='' @ job_state_to_string (j_state j) @ '' msg='' @ job_get_result j [] MAX_JOB_RESULT"

lemma request_line_clean: "NL \<notin> set (request_line k)" "NUL \<notin> set (request_line k)" "length (request_line k) < 32"
  using udec_length_u64 [of k] by (simp_all add: request_line_def printed_clean)

lemma request_line_parsed:
  "protocol_parse_line (request_line k @ [NL]) = empty_request\<lparr>r_command := PROTO_CMD_RESULT, r_job_id := k\<rparr>"
proof -
  have "wire_line (W_job PROTO_CMD_RESULT k) = Some (request_line k)" by (simp add: request_line_def)
  moreover have "length (request_line k) + 1 < BUFFER_SIZE" using request_line_clean(3) [of k] by (simp add: BUFFER_SIZE_def)
  ultimately show ?thesis using protocol_line parse_wire request_line_clean(2) by fastforce
qed

lemma result_line_short: "length (result_line k j @ [NL]) < BUFFER_SIZE"
proof -
  have "length (job_state_to_string (j_state j)) \<le> 8" by (cases "j_state j") (simp_all add: job_state_to_string_def)
  moreover have "length (job_get_result j [] MAX_JOB_RESULT) < MAX_JOB_RESULT"
    by (simp add: job_get_result_def copy_out_def snprintf_s_length MAX_JOB_RESULT_def)
  ultimately show ?thesis
    using udec_length_u64 [of k] by (simp add: result_line_def BUFFER_SIZE_def MAX_JOB_RESULT_def)
qed

lemma report_failure_lines:
  assumes "calm_writes (cl_sock c)"
  obtains s2 where "report_failure k c = fst (expect_line BUFFER_SIZE (c\<lparr>cl_stdout :=
      cl_stdout c @ ''>> RESULT 0'' @ [NL] @ ''>> RESULT '' @ udec (unat k) @ [NL], cl_sock := s2\<rparr>))"
    "s_out s2 = s_out (cl_sock c) @ bytes_of (request_line 0 @ [NL]) @ bytes_of (request_line k @ [NL])"
    "s_in s2 = s_in (cl_sock c)" "calm_writes s2"
proof -
  have zero: "''RESULT 0'' @ [NL] = request_line 0 @ [NL]"
    by (simp add: request_line_def udec.simps [of 0] digit_char_def char_of_def bit_Suc_0_iff)
  have l: "snprintf_s 64 (''RESULT '' @ udec (unat k) @ [NL]) = request_line k @ [NL]"
    using snprintf_s_id [of "request_line k @ [NL]" 64] request_line_clean [of k] by (simp add: request_line_def)
  obtain s1 where s1: "send_line (''RESULT 0'' @ [NL]) c = (c\<lparr>cl_stdout := cl_stdout c @ ''>> '' @ ''RESULT 0'' @ [NL], cl_sock := s1\<rparr>, True)"
    "s_out s1 = s_out (cl_sock c) @ bytes_of (''RESULT 0'' @ [NL])" "s_in s1 = s_in (cl_sock c)" "calm_writes s1"
    by (rule send_line_calm [OF assms])
  let ?c1 = "c\<lparr>cl_stdout := cl_stdout c @ ''>> '' @ ''RESULT 0'' @ [NL], cl_sock := s1\<rparr>"
  have "calm_writes (cl_sock ?c1)" using s1(4) by simp
  then obtain s2 where s2: "send_line (request_line k @ [NL]) ?c1 =
      (?c1\<lparr>cl_stdout := cl_stdout ?c1 @ ''>> '' @ request_line k @ [NL], cl_sock := s2\<rparr>, True)"
    "s_out s2 = s_out (cl_sock ?c1) @ bytes_of (request_line k @ [NL])" "s_in s2 = s_in (cl_sock ?c1)" "calm_writes s2"
    by (rule send_line_calm)
  show thesis
  proof (rule that [of s2])
    show "report_failure k c = fst (expect_line BUFFER_SIZE (c\<lparr>cl_stdout :=
      cl_stdout c @ ''>> RESULT 0'' @ [NL] @ ''>> RESULT '' @ udec (unat k) @ [NL], cl_sock := s2\<rparr>))"
      unfolding report_failure_def Let_def l s1(1) fst_conv s2(1) by (simp add: request_line_def)
    show "s_out s2 = s_out (cl_sock c) @ bytes_of (request_line 0 @ [NL]) @ bytes_of (request_line k @ [NL])"
      unfolding zero [symmetric] using s1(2) s2(2) by simp
  qed (use s1 s2 in simp_all)
qed

lemma read_line_output: "calm s \<Longrightarrow> s_out (fst (read_line n s)) = s_out s"
  using read_line_loop_calm [of s n "[]"] by (auto simp: read_line_def)

lemma expect_line_output:
  assumes "calm (cl_sock c)"
  shows "s_out (cl_sock (fst (expect_line n c))) = s_out (cl_sock c)"
proof -
  obtain s1 r where "read_line n (cl_sock c) = (s1, r)" by (rule prod.exhaust)
  then show ?thesis
    using read_line_output [OF assms, of n] by (simp add: expect_line_def Let_def split: option.split)
qed

lemma report_failure_sends:
  assumes "calm_writes (cl_sock c)"
  shows "s_out (cl_sock (report_failure k c)) =
    s_out (cl_sock c) @ bytes_of (request_line 0 @ [NL]) @ bytes_of (request_line k @ [NL])"
proof -
  obtain s2 where s2: "report_failure k c = fst (expect_line BUFFER_SIZE (c\<lparr>cl_stdout :=
      cl_stdout c @ ''>> RESULT 0'' @ [NL] @ ''>> RESULT '' @ udec (unat k) @ [NL], cl_sock := s2\<rparr>))"
    "s_out s2 = s_out (cl_sock c) @ bytes_of (request_line 0 @ [NL]) @ bytes_of (request_line k @ [NL])" "calm_writes s2"
    by (rule report_failure_lines [OF assms])
  let ?c2 = "c\<lparr>cl_stdout := cl_stdout c @ ''>> RESULT 0'' @ [NL] @ ''>> RESULT '' @ udec (unat k) @ [NL], cl_sock := s2\<rparr>"
  have "calm (cl_sock ?c2)" using calm_writes_calm [OF s2(3)] by simp
  from expect_line_output [OF this] show ?thesis unfolding s2(1) using s2(2) by simp
qed

lemma report_failure_reads:
  assumes "calm_writes (cl_sock c)" "s_in (cl_sock c) = bytes_of (''ERR job not found'' @ [NL]) @ rest"
  shows "cl_stdout (report_failure k c) =
      cl_stdout c @ ''>> RESULT 0'' @ [NL] @ ''>> RESULT '' @ udec (unat k) @ [NL] @ ''<< ERR job not found'' @ [NL] \<and>
    s_in (cl_sock (report_failure k c)) = rest"
proof -
  obtain s2 where s2: "report_failure k c = fst (expect_line BUFFER_SIZE (c\<lparr>cl_stdout :=
      cl_stdout c @ ''>> RESULT 0'' @ [NL] @ ''>> RESULT '' @ udec (unat k) @ [NL], cl_sock := s2\<rparr>))"
    "s_in s2 = s_in (cl_sock c)" "calm_writes s2"
    by (rule report_failure_lines [OF assms(1)])
  let ?c2 = "c\<lparr>cl_stdout := cl_stdout c @ ''>> RESULT 0'' @ [NL] @ ''>> RESULT '' @ udec (unat k) @ [NL], cl_sock := s2\<rparr>"
  have c2: "calm_writes (cl_sock ?c2)" "s_in (cl_sock ?c2) = bytes_of (''ERR job not found'' @ [NL]) @ rest"
    using s2(2,3) assms(2) by simp_all
  have clean: "NL \<notin> set ''ERR job not found''" "NUL \<notin> set ''ERR job not found''" "length ''ERR job not found'' + 1 < BUFFER_SIZE"
    by (simp_all add: BUFFER_SIZE_def)
  obtain s3 where s3: "expect_line BUFFER_SIZE ?c2 = (?c2\<lparr>cl_sock := s3, cl_stdout := cl_stdout ?c2 @ ''<< '' @ ''ERR job not found'' @ [NL]\<rparr>,
      Some (''ERR job not found'' @ [NL]))" "s_in s3 = rest"
    using expect_line_calm [OF c2 clean] by blast
  show ?thesis unfolding s2(1) s3(1) fst_conv using s3(2) by simp
qed

text \<open>The server's answers to the two requests.\<close>

lemma result_served:
  assumes "c_type (w_clients w ! i) = CLIENT_TYPE_USER" "w_socks w (c_fd (w_clients w ! i)) = Some s" "calm_writes s"
    "s_in s = bytes_of (request_line k @ [NL]) @ later" "length t < BUFFER_SIZE"
    "\<And>v. w_jobs v = w_jobs w \<Longrightarrow> handle_result (c_fd (w_clients w ! i)) k v = send_responsef (c_fd (w_clients w ! i)) t v"
  shows "\<exists>s'. handle_client_command se i w = w\<lparr>w_socks := (w_socks w)(c_fd (w_clients w ! i) \<mapsto> s')\<rparr> \<and>
    s_in s' = later \<and> s_out s' = s_out s @ bytes_of t \<and> calm_writes s'"
proof -
  let ?fd = "c_fd (w_clients w ! i)"
  have len: "length (request_line k) + 1 < BUFFER_SIZE" using request_line_clean(3) [of k] by (simp add: BUFFER_SIZE_def)
  obtain s1 where s1: "handle_client_command se i w = fst (handle_user_command se i (protocol_parse_line (request_line k @ [NL]))
      (w\<lparr>w_socks := (w_socks w)(?fd \<mapsto> s1)\<rparr>))" "s_in s1 = later" "s_out s1 = s_out s" "calm_writes s1"
    by (rule command_read [OF assms(1-4) request_line_clean(1) len])
  let ?w1 = "w\<lparr>w_socks := (w_socks w)(?fd \<mapsto> s1)\<rparr>"
  have "handle_client_command se i w = fst (send_responsef ?fd t ?w1)"
    unfolding s1(1) request_line_parsed using assms(6) [of ?w1] by (simp add: handle_user_command_def Let_def)
  then show ?thesis using send_responsef_arrives [OF _ s1(4) assms(5), of ?w1 ?fd] s1(2,3) by auto
qed

lemma results_served:
  assumes server: "c_type (w_clients w ! i) = CLIENT_TYPE_USER" "w_socks w (c_fd (w_clients w ! i)) = Some s" "calm_writes s"
      "s_in s = bytes_of (request_line 0 @ [NL]) @ bytes_of (request_line k @ [NL]) @ later"
    and job: "job_table_find (w_jobs w) k = Some q" "finished (j_state (tbl_jobs (w_jobs w) ! q))"
  shows "\<exists>s'. w_socks (handle_client_command se' i (handle_client_command se i w)) (c_fd (w_clients w ! i)) = Some s' \<and> s_in s' = later \<and>
    s_out s' = s_out s @ bytes_of (''ERR job not found'' @ [NL]) @ bytes_of (result_line k (tbl_jobs (w_jobs w) ! q) @ [NL])"
proof -
  let ?fd = "c_fd (w_clients w ! i)" and ?r = "result_line k (tbl_jobs (w_jobs w) ! q)"
  have none: "handle_result ?fd 0 v = send_responsef ?fd (''ERR job not found'' @ [NL]) v" for v
    by (simp add: handle_result_def job_table_find_def)
  obtain s1 where s1: "handle_client_command se i w = w\<lparr>w_socks := (w_socks w)(?fd \<mapsto> s1)\<rparr>"
    "s_in s1 = bytes_of (request_line k @ [NL]) @ later" "s_out s1 = s_out s @ bytes_of (''ERR job not found'' @ [NL])" "calm_writes s1"
    using result_served [OF server, of "''ERR job not found'' @ [NL]" se] none by (auto simp: BUFFER_SIZE_def)
  let ?w1 = "w\<lparr>w_socks := (w_socks w)(?fd \<mapsto> s1)\<rparr>"
  have found: "handle_result ?fd k v = send_responsef ?fd (?r @ [NL]) v" if "w_jobs v = w_jobs w" for v
    using job that by (simp add: handle_result_def result_line_def Let_def)
  have "\<exists>s'. handle_client_command se' i ?w1 = ?w1\<lparr>w_socks := (w_socks ?w1)(?fd \<mapsto> s')\<rparr> \<and>
      s_in s' = later \<and> s_out s' = s_out s1 @ bytes_of (?r @ [NL]) \<and> calm_writes s'"
    using result_served [of ?w1 i s1 k later "?r @ [NL]" se'] server(1) s1(2,4) found result_line_short by auto
  then show ?thesis unfolding s1(1) using s1(3) by auto
qed

section \<open>Properties of client and server\<close>

text \<open>
  C2: client and server understand each other on an upload. When the command line client sends an
  \<^verbatim>\<open>ENCODE_TEXT\<close> request and the server reads what it wrote, whatever the two kernels interrupt and
  split, the server stores exactly the image and the text, queues an encoding job for them and leaves
  the connection at the next request; and the client reads the id of that very job from the reply.
\<close>

theorem client_text_request_served:
  fixes i w se p msg c
  defines "fd \<equiv> c_fd (w_clients w ! i)" and "k \<equiv> tbl_next_id (w_jobs w)" and "n \<equiv> length (tbl_jobs (w_jobs w))"
    and "c1 \<equiv> fst (upload_text_request p msg c)" and "w' \<equiv> handle_client_command se i w"
  assumes client: "calm_writes (cl_sock c)" "fs_files (cl_fs c) p = Some png" "fs_readable (cl_fs c) p" "fs_seekable (cl_fs c) p"
    and sock: "c_type (w_clients w ! i) = CLIENT_TYPE_USER" "w_socks w fd = Some s" "calm_writes s"
      "s_out (cl_sock c) @ s_in s = s_out (cl_sock c1) @ rest"
    and sizes: "0 < length png" "length png \<le> unat (se_max_upload se)" "length msg \<le> MAX_TEXT_BYTES"
    and paths: "storage_make_upload_path (se_st se) k (Some ''png'') MAX_JOB_PATH = Some pp"
      "storage_make_upload_path (se_st se) k (Some ''txt'') MAX_JOB_PATH = Some tp" "NUL \<notin> set (g_uploads (se_st se))"
    and disk: "accepts (w_fs w) pp (length png)" "accepts (w_fs w) tp (length msg)"
    and room: "n < MAX_JOBS" "se_calloc se" "se_mutex se" "se_node se = Some a" "q_nodes (w_queue w) a = None"
      "\<not> q_stopped (w_queue w)" "queue_holds (w_queue w) waiting" and k: "k \<noteq> 0"
  shows "snd (upload_text_request p msg c) \<and>
    fs_files (w_fs w') pp = Some png \<and> fs_files (w_fs w') tp = Some (bytes_of msg) \<and>
    queue_holds (w_queue w') (waiting @ [n]) \<and>
    (let j = tbl_jobs (w_jobs w') ! n in j_id j = k \<and> j_type j = JOB_TYPE_ENCODE_TEXT \<and> j_input_path j = pp \<and> j_stored_path j = tp) \<and>
    (\<exists>s'. w_socks w' fd = Some s' \<and> s_in s' = rest \<and>
      snd (expect_job (c1\<lparr>cl_sock := (cl_sock c1)\<lparr>s_in := drop (length (s_out s)) (s_out s')\<rparr>\<rparr>)) = Some k)"
proof -
  have b: "length png < 2 ^ 64" "length msg < 2 ^ 64"
    using sizes(2,3) unat_u64_bound [of "se_max_upload se"] by (simp_all add: MAX_TEXT_BYTES_def)
  let ?l = "text_request_line (length png) (length msg)"
  obtain t where t: "snd (upload_text_request p msg c)" "cl_sock c1 = t"
    "s_out t = s_out (cl_sock c) @ bytes_of (?l @ [NL]) @ png @ bytes_of msg" "s_in t = s_in (cl_sock c)" "calm_writes t"
    "cl_fs c1 = cl_fs c"
    using text_uploaded [OF client b] unfolding c1_def by metis
  have "s_in s = bytes_of (?l @ [NL]) @ png @ bytes_of msg @ rest" using sock(4) t(2,3) by simp
  moreover have "length ?l + 1 < BUFFER_SIZE" using text_line_clean(3) [OF b] by (simp add: BUFFER_SIZE_def)
  ultimately obtain s1 where s1: "w' = fst (handle_user_command se i (protocol_parse_line (?l @ [NL]))
      (w\<lparr>w_socks := (w_socks w)(fd \<mapsto> s1)\<rparr>))"
    "s_in s1 = png @ bytes_of msg @ rest" "s_out s1 = s_out s" "calm_writes s1"
    using command_read [OF sock(1) _ sock(3) _ text_line_clean(2) [OF b]] sock(2) unfolding fd_def w'_def by metis
  let ?r = "empty_request\<lparr>r_command := PROTO_CMD_ENCODE_TEXT, r_size1 := of_nat (length png), r_size2 := of_nat (length msg)\<rparr>"
  let ?w1 = "w\<lparr>w_socks := (w_socks w)(fd \<mapsto> s1)\<rparr>"
  have e: "w' = fst (handle_encode_text se i ?r ?w1)"
    unfolding s1(1) text_line_parsed [OF b] by (simp add: handle_user_command_def Let_def)
  obtain w2 s2 where w2: "handle_encode_text se i ?r ?w1 = (w2, True)" "w_socks w2 fd = Some s2" "s_in s2 = rest"
    "s_out s2 = s_out s1 @ bytes_of (line (''JOB '' @ udec (unat k)))"
    "fs_files (w_fs w2) pp = Some png" "fs_files (w_fs w2) tp = Some (bytes_of msg)"
    "queue_holds (w_queue w2) (waiting @ [n])"
    "let j = tbl_jobs (w_jobs w2) ! n in j_id j = k \<and> j_type j = JOB_TYPE_ENCODE_TEXT \<and> j_input_path j = pp \<and> j_stored_path j = tp"
    using encode_text_request_exact [of ?w1 i s1 png "bytes_of msg" rest ?r se pp tp a waiting] s1(2-4) sizes paths disk room
    unfolding fd_def k_def n_def by (auto simp: Let_def)
  have "snd (expect_job (c1\<lparr>cl_sock := (cl_sock c1)\<lparr>s_in := bytes_of (line (''JOB '' @ udec (unat k)))\<rparr>\<rparr>)) = Some k"
    using job_reply_read [of "c1\<lparr>cl_sock := (cl_sock c1)\<lparr>s_in := bytes_of (line (''JOB '' @ udec (unat k)))\<rparr>\<rparr>" k "[]"] t k
    by (auto simp: calm_writes_def)
  then show ?thesis using t(1) w2 e s1(3) by simp
qed

theorem client_text_request_served_witness:
  "\<exists>w. fs_files (w_fs (handle_client_command upload_env 0 w)) ''storage/uploads/job_1.png'' = Some [1, 2, 3] \<and>
     fs_files (w_fs (handle_client_command upload_env 0 w)) ''storage/uploads/job_1.txt'' = Some (bytes_of ''hi'')"
proof -
  let ?c = "demo_client []"
  have c: "calm_writes (cl_sock ?c)" "fs_files (cl_fs ?c) ''a.png'' = Some [1, 2, 3]" "fs_readable (cl_fs ?c) ''a.png''"
    "fs_seekable (cl_fs ?c) ''a.png''" by (simp_all add: demo_simps calm_writes_def)
  obtain t where t: "cl_sock (fst (upload_text_request ''a.png'' ''hi'' ?c)) = t"
    "s_out t = s_out (cl_sock ?c) @ bytes_of (text_request_line (length [1, 2, 3 :: u8]) (length ''hi'') @ [NL]) @ [1, 2, 3] @ bytes_of ''hi''"
    using text_uploaded [OF c, of "''hi''"] by auto
  let ?w = "demo_server (s_out t)"
  have holds: "queue_holds queue0 []" unfolding queue_holds_def queue0_def by (intro exI [of _ "[]"]) simp
  have "snd (upload_text_request ''a.png'' ''hi'' ?c) \<and>
    fs_files (w_fs (handle_client_command upload_env 0 ?w)) ''storage/uploads/job_1.png'' = Some [1, 2, 3] \<and>
    fs_files (w_fs (handle_client_command upload_env 0 ?w)) ''storage/uploads/job_1.txt'' = Some (bytes_of ''hi'') \<and>
    queue_holds (w_queue (handle_client_command upload_env 0 ?w)) ([] @ [length (tbl_jobs (w_jobs ?w))]) \<and>
    (let j = tbl_jobs (w_jobs (handle_client_command upload_env 0 ?w)) ! length (tbl_jobs (w_jobs ?w)) in
      j_id j = tbl_next_id (w_jobs ?w) \<and> j_type j = JOB_TYPE_ENCODE_TEXT \<and>
      j_input_path j = ''storage/uploads/job_1.png'' \<and> j_stored_path j = ''storage/uploads/job_1.txt'') \<and>
    (\<exists>s'. w_socks (handle_client_command upload_env 0 ?w) (c_fd (w_clients ?w ! 0)) = Some s' \<and> s_in s' = [] \<and>
      snd (expect_job ((fst (upload_text_request ''a.png'' ''hi'' ?c))\<lparr>cl_sock :=
        (cl_sock (fst (upload_text_request ''a.png'' ''hi'' ?c)))\<lparr>s_in := drop (length (s_out (the (w_socks ?w 7)))) (s_out s')\<rparr>\<rparr>)) =
        Some (tbl_next_id (w_jobs ?w)))"
    by (rule client_text_request_served [OF c, where a = 1])
      (use t demo_paths holds in \<open>simp_all add: demo_simps calm_writes_def accepts_def job_sizes MAX_TEXT_BYTES_def queue0_def
        storage_default_def\<close>)
  then show ?thesis by blast
qed

text \<open>
  C9: a result arrives unchanged. When the server handles the \<^verbatim>\<open>DOWNLOAD\<close> line the client sends for a
  finished job and the client reads what the server wrote, the file the client saves holds exactly the
  bytes of the job's output file and the client reports success; what follows is left unread.
\<close>

theorem downloaded_file_is_the_result:
  fixes i w se job_id
  defines "w' \<equiv> handle_client_command se i w"
  assumes server: "c_type (w_clients w ! i) = CLIENT_TYPE_USER" "w_socks w (c_fd (w_clients w ! i)) = Some s" "calm_writes s"
      "s_in s = bytes_of (download_line job_id @ [NL]) @ later"
    and job: "job_table_find (w_jobs w) job_id = Some q" "j_state (tbl_jobs (w_jobs w) ! q) = JOB_STATE_DONE"
      "job_get_output_path (tbl_jobs (w_jobs w) ! q) [] MAX_JOB_PATH = path" "path \<noteq> []"
      "fs_files (w_fs w) path = Some f" "fs_readable (w_fs w) path" "length f < 2 ^ 63"
    and client: "w_socks w' (c_fd (w_clients w ! i)) = Some s'" "calm_writes (cl_sock c)"
      "s_out s @ s_in (cl_sock c) = s_out s' @ rest" "accepts (cl_fs c) out (length f)"
  shows "\<exists>c'. download_result job_id out c = (c', True) \<and> cl_fs c' = set_file (cl_fs c) out f \<and> s_in (cl_sock c') = rest \<and>
    s_out (cl_sock c') = s_out (cl_sock c) @ bytes_of (download_line job_id @ [NL])"
proof -
  have "s_in (cl_sock c) = bytes_of (data_line (length f) @ [NL]) @ f @ rest"
    using download_served [OF server job, of se] client(1,3) unfolding w'_def by auto
  from download_calm [OF client(2) this job(7), of out "set_file (cl_fs c) out []" job_id] accepts_opens [OF client(4)] client(4)
  show ?thesis by (auto simp: fclose_w_def accepts_def frame_simps)
qed

theorem downloaded_file_is_the_result_witness:
  "\<exists>c c'. download_result 1 ''saved.bin'' c = (c', True) \<and> fs_files (cl_fs c') ''saved.bin'' = Some [5, 6]"
proof -
  let ?w = "(demo_server (bytes_of (download_line 1 @ [NL])))\<lparr>w_jobs :=
    \<lparr>tbl_jobs = [zero_job\<lparr>j_id := 1, j_state := JOB_STATE_DONE, j_output_path := ''out.bin''\<rparr>], tbl_next_id = 2\<rparr>\<rparr>"
  let ?s = "\<lparr>s_in = bytes_of (download_line 1 @ [NL]), s_out = [], s_sched = [Io_some 1, Io_eintr]\<rparr>"
  have server: "c_type (w_clients ?w ! 0) = CLIENT_TYPE_USER" "w_socks ?w (c_fd (w_clients ?w ! 0)) = Some ?s" "calm_writes ?s"
    "s_in ?s = bytes_of (download_line 1 @ [NL]) @ []" by (simp_all add: demo_simps calm_writes_def)
  have job: "job_table_find (w_jobs ?w) 1 = Some 0" "j_state (tbl_jobs (w_jobs ?w) ! 0) = JOB_STATE_DONE"
    "job_get_output_path (tbl_jobs (w_jobs ?w) ! 0) [] MAX_JOB_PATH = ''out.bin''" "''out.bin'' \<noteq> []"
    "fs_files (w_fs ?w) ''out.bin'' = Some [5, 6]" "fs_readable (w_fs ?w) ''out.bin''" "length [5, 6 :: u8] < 2 ^ 63"
    by (simp_all add: job_table_find_def job_get_output_path_def copy_out_def MAX_JOB_PATH_def snprintf_s_def cstr_def demo_simps)
  obtain s' where s': "w_socks (handle_client_command upload_env 0 ?w) (c_fd (w_clients ?w ! 0)) = Some s'"
    using download_served [OF server job] by blast
  let ?c = "demo_client (s_out s')"
  have "calm_writes (cl_sock ?c)" "s_out ?s @ s_in (cl_sock ?c) = s_out s' @ []" "accepts (cl_fs ?c) ''saved.bin'' (length [5, 6 :: u8])"
    by (simp_all add: demo_client_def demo_disk2_def world0_def calm_writes_def accepts_def)
  from downloaded_file_is_the_result [OF server job s' this] show ?thesis by (fastforce simp: frame_simps)
qed

text \<open>
  C30: the client waits for the right thing. While the server's replies to its \<^verbatim>\<open>STATUS\<close> lines name a
  waiting or running job it asks again; at the first final state it stops, with success exactly for
  \<^verbatim>\<open>DONE\<close>, having sent one request per reply and read nothing beyond. After 120 fruitless polls it gives up.
\<close>

theorem wait_for_done_verdict:
  assumes "list_all (\<lambda>st. \<not> finished st) sts" "finished st" "length sts < 120"
    "calm_writes (cl_sock c)" "s_in (cl_sock c) = concat (map (\<lambda>st. bytes_of (status_line job_id st @ [NL])) (sts @ [st])) @ rest"
  shows "\<exists>c'. wait_for_done job_id c = (c', st = JOB_STATE_DONE) \<and> s_in (cl_sock c') = rest \<and>
    s_out (cl_sock c') = s_out (cl_sock c) @ concat (replicate (Suc (length sts)) (status_request job_id))"
  using polls [OF assms] unfolding wait_for_done_def by blast

theorem wait_for_done_verdict_witness:
  "\<exists>c'. wait_for_done 4 (demo_client (concat (map (\<lambda>st. bytes_of (status_line 4 st @ [NL]))
      ([JOB_STATE_QUEUED, JOB_STATE_RUNNING] @ [JOB_STATE_DONE])) @ [9])) = (c', JOB_STATE_DONE = JOB_STATE_DONE) \<and> s_in (cl_sock c') = [9]"
proof -
  have "list_all (\<lambda>st. \<not> finished st) [JOB_STATE_QUEUED, JOB_STATE_RUNNING]" "finished JOB_STATE_DONE"
    "length [JOB_STATE_QUEUED, JOB_STATE_RUNNING] < 120" by (simp_all add: finished_def)
  moreover have "calm_writes (cl_sock (demo_client d))" "s_in (cl_sock (demo_client d)) = d" for d
    by (simp_all add: demo_client_def calm_writes_def)
  ultimately show ?thesis using wait_for_done_verdict by blast
qed

text \<open>
  C39: the client shows the wrong reply for a failed job. When a job has not succeeded \<^verbatim>\<open>cmd_encode_text\<close>
  sends two requests, \<^verbatim>\<open>RESULT 0\<close> and \<^verbatim>\<open>RESULT\<close> with the id, but reads one reply. The server answers both:
  the first with \<^verbatim>\<open>ERR job not found\<close>, as no job has the id 0, the second with the state and message of the
  job. Put together, what the client prints is the error, and the reply with the reason stays unread.
\<close>

theorem failed_job_shows_wrong_reply:
  fixes i w se se' k c
  defines "fd \<equiv> c_fd (w_clients w ! i)" and "c' \<equiv> report_failure k c"
    and "w' \<equiv> handle_client_command se' i (handle_client_command se i w)"
  assumes client: "calm_writes (cl_sock c)"
    and server: "c_type (w_clients w ! i) = CLIENT_TYPE_USER" "w_socks w fd = Some s" "calm_writes s"
      "s_out (cl_sock c) @ s_in s = s_out (cl_sock c') @ later"
    and job: "job_table_find (w_jobs w) k = Some q" "finished (j_state (tbl_jobs (w_jobs w) ! q))"
    and reading: "w_socks w' fd = Some s'" "s_out s @ s_in (cl_sock c) = s_out s' @ rest"
  defines "reason \<equiv> result_line k (tbl_jobs (w_jobs w) ! q)"
  shows "s_out (cl_sock c') = s_out (cl_sock c) @ bytes_of (''RESULT 0'' @ [NL]) @ bytes_of (''RESULT '' @ udec (unat k) @ [NL]) \<and>
    s_out s' = s_out s @ bytes_of (''ERR job not found'' @ [NL]) @ bytes_of (reason @ [NL]) \<and> s_in s' = later \<and>
    cl_stdout c' = cl_stdout c @ ''>> RESULT 0'' @ [NL] @ ''>> RESULT '' @ udec (unat k) @ [NL] @ ''<< ERR job not found'' @ [NL] \<and>
    s_in (cl_sock c') = bytes_of (reason @ [NL]) @ rest"
proof -
  have sent: "s_out (cl_sock c') = s_out (cl_sock c) @ bytes_of (request_line 0 @ [NL]) @ bytes_of (request_line k @ [NL])"
    unfolding c'_def by (rule report_failure_sends [OF client])
  have "s_in s = bytes_of (request_line 0 @ [NL]) @ bytes_of (request_line k @ [NL]) @ later"
    using server(4) sent by simp
  from results_served [OF server(1) server(2) [unfolded fd_def] server(3) this job] obtain t where
    t: "w_socks w' fd = Some t" "s_in t = later"
      "s_out t = s_out s @ bytes_of (''ERR job not found'' @ [NL]) @ bytes_of (reason @ [NL])"
    unfolding w'_def fd_def reason_def by blast
  then have "s_in (cl_sock c) = bytes_of (''ERR job not found'' @ [NL]) @ bytes_of (reason @ [NL]) @ rest"
    using reading by simp
  from report_failure_reads [OF client this] sent t reading(1) show ?thesis
    unfolding c'_def by (simp add: request_line_def udec.simps [of 0] digit_char_def char_of_def bit_Suc_0_iff)
qed

lemma demo_result_line:
  "result_line 4 (zero_job\<lparr>j_id := 4, j_state := JOB_STATE_FAILED, j_result := ''no room''\<rparr>) = ''RESULT 4 state=FAILED msg=no room''"
  by (simp add: result_line_def job_get_result_def copy_out_def MAX_JOB_RESULT_def snprintf_s_def cstr_def job_state_to_string_def
      udec.simps digit_char_def char_of_def bit_Suc_0_iff)

theorem failed_job_shows_wrong_reply_witness:
  "\<exists>c. s_in (cl_sock (report_failure 4 c)) = bytes_of (''RESULT 4 state=FAILED msg=no room'' @ [NL]) \<and>
     (\<exists>shown. cl_stdout (report_failure 4 c) = shown @ ''<< ERR job not found'' @ [NL])"
proof -
  let ?requests = "bytes_of (request_line 0 @ [NL]) @ bytes_of (request_line 4 @ [NL])"
  let ?s = "\<lparr>s_in = ?requests, s_out = [], s_sched = [Io_some 1, Io_eintr]\<rparr>"
  let ?j = "zero_job\<lparr>j_id := 4, j_state := JOB_STATE_FAILED, j_result := ''no room''\<rparr>"
  let ?w = "(demo_server ?requests)\<lparr>w_jobs := \<lparr>tbl_jobs = [?j], tbl_next_id = 5\<rparr>\<rparr>"
  have server: "c_type (w_clients ?w ! 0) = CLIENT_TYPE_USER" "w_socks ?w (c_fd (w_clients ?w ! 0)) = Some ?s" "calm_writes ?s"
    "s_in ?s = bytes_of (request_line 0 @ [NL]) @ bytes_of (request_line 4 @ [NL]) @ []"
    by (simp_all add: demo_simps calm_writes_def)
  have job: "job_table_find (w_jobs ?w) 4 = Some 0" "finished (j_state (tbl_jobs (w_jobs ?w) ! 0))"
    by (simp_all add: job_table_find_def finished_def)
  obtain t where t: "w_socks (handle_client_command upload_env 0 (handle_client_command upload_env 0 ?w)) (c_fd (w_clients ?w ! 0)) = Some t"
    using results_served [OF server job] by blast
  let ?c = "demo_client (s_out t)"
  have c: "calm_writes (cl_sock ?c)" by (simp add: demo_client_def calm_writes_def)
  have link: "s_out (cl_sock ?c) @ s_in ?s = s_out (cl_sock (report_failure 4 ?c)) @ []"
    using report_failure_sends [OF c, of 4] by (simp add: demo_client_def)
  have read: "s_out ?s @ s_in (cl_sock ?c) = s_out t @ []" by (simp add: demo_client_def)
  note r = failed_job_shows_wrong_reply [OF c server(1-3) link job t read, THEN conjunct2, THEN conjunct2, THEN conjunct2]
  have "result_line 4 (tbl_jobs (w_jobs ?w) ! 0) = ''RESULT 4 state=FAILED msg=no room''" using demo_result_line by simp
  with r [THEN conjunct2] have "s_in (cl_sock (report_failure 4 ?c)) = bytes_of (''RESULT 4 state=FAILED msg=no room'' @ [NL])"
    by (simp only: append_Nil2)
  moreover have "\<exists>shown. cl_stdout (report_failure 4 ?c) = shown @ ''<< ERR job not found'' @ [NL]"
    using r [THEN conjunct1] by (metis append_assoc)
  ultimately show ?thesis by blast
qed

text \<open>
  C38: a text that is too large turns into commands. When the client sends an \<^verbatim>\<open>ENCODE_TEXT\<close> request whose
  text is longer than the server takes, the server replies with an error and makes no job, but leaves
  the text in the stream: the next round in which it serves the session it takes the first line of the
  text for a command and carries it out, and it goes on behind that line.
\<close>

theorem oversized_text_run_as_commands:
  fixes i w se se' p msg c
  defines "fd \<equiv> c_fd (w_clients w ! i)" and "c1 \<equiv> fst (upload_text_request p msg c)" and "w1 \<equiv> handle_client_command se i w"
  assumes client: "calm_writes (cl_sock c)" "fs_files (cl_fs c) p = Some png" "fs_readable (cl_fs c) p" "fs_seekable (cl_fs c) p"
    and sock: "c_type (w_clients w ! i) = CLIENT_TYPE_USER" "w_socks w fd = Some s" "calm_writes s"
      "s_out (cl_sock c) @ s_in s = s_out (cl_sock c1) @ rest"
    and sizes: "0 < length png" "length png \<le> unat (se_max_upload se)" "MAX_TEXT_BYTES < length msg" "length msg < 2 ^ 64"
    and body: "msg = l @ NL # tail" "NL \<notin> set l" "length l + 1 < BUFFER_SIZE"
    and path: "storage_make_upload_path (se_st se) (tbl_next_id (w_jobs w)) (Some ''png'') MAX_JOB_PATH = Some pp"
      "accepts (w_fs w) pp (length png)"
  shows "\<exists>s1 s2. w_socks w1 fd = Some s1 \<and> s_out s1 = s_out s @ bytes_of (''ERR text too large'' @ [NL]) \<and>
    w_jobs w1 = w_jobs w \<and> w_queue w1 = w_queue w \<and> s_in s2 = bytes_of tail @ rest \<and>
    handle_client_command se' i w1 =
      fst (handle_user_command se' i (protocol_parse_line (l @ [NL])) (w1\<lparr>w_socks := (w_socks w1)(fd \<mapsto> s2)\<rparr>))"
proof -
  have b: "length png < 2 ^ 64" "length msg < 2 ^ 64"
    using sizes(2,4) unat_u64_bound [of "se_max_upload se"] by simp_all
  let ?l = "text_request_line (length png) (length msg)"
  obtain t where t: "cl_sock c1 = t"
    "s_out t = s_out (cl_sock c) @ bytes_of (?l @ [NL]) @ png @ bytes_of msg"
    using text_uploaded [OF client b] unfolding c1_def by metis
  have "s_in s = bytes_of (?l @ [NL]) @ png @ bytes_of msg @ rest" using sock(4) t by simp
  moreover have "length ?l + 1 < BUFFER_SIZE" using text_line_clean(3) [OF b] by (simp add: BUFFER_SIZE_def)
  ultimately obtain s0 where s0: "w1 = fst (handle_user_command se i (protocol_parse_line (?l @ [NL]))
      (w\<lparr>w_socks := (w_socks w)(fd \<mapsto> s0)\<rparr>))"
    "s_in s0 = png @ bytes_of msg @ rest" "s_out s0 = s_out s" "calm_writes s0"
    using command_read [OF sock(1) _ sock(3) _ text_line_clean(2) [OF b]] sock(2) unfolding fd_def w1_def by metis
  let ?r = "empty_request\<lparr>r_command := PROTO_CMD_ENCODE_TEXT, r_size1 := of_nat (length png), r_size2 := of_nat (length msg)\<rparr>"
  let ?w0 = "w\<lparr>w_socks := (w_socks w)(fd \<mapsto> s0)\<rparr>"
  have e: "w1 = fst (handle_encode_text se i ?r ?w0)"
    unfolding s0(1) text_line_parsed [OF b] by (simp add: handle_user_command_def Let_def)
  have large: "(of_nat MAX_TEXT_BYTES :: u64) < of_nat (length msg)"
    using sizes(3) b(2) by (simp add: word_less_nat_alt unat_of_nat_u64 MAX_TEXT_BYTES_def)
  obtain s1 where s1: "handle_encode_text se i ?r ?w0 =
      (?w0\<lparr>w_fs := set_file (w_fs ?w0) pp png, w_socks := (w_socks ?w0)(fd \<mapsto> s1)\<rparr>, True)"
    "s_in s1 = bytes_of msg @ rest" "s_out s1 = s_out s0 @ bytes_of (line ''ERR text too large'')" "calm_writes s1"
    using oversized_text_stays [of ?w0 i s0 png "bytes_of msg @ rest" ?r se pp] s0 sizes large path unfolding fd_def by auto
  have w1: "w1 = w\<lparr>w_socks := (w_socks w)(fd \<mapsto> s1), w_fs := set_file (w_fs w) pp png\<rparr>"
    unfolding e s1(1) by simp
  have in1: "s_in s1 = bytes_of (l @ [NL]) @ bytes_of tail @ rest" using s1(2) body(1) by (simp add: bytes_of_append [symmetric])
  have type: "c_type (w_clients w1 ! i) = CLIENT_TYPE_USER" "c_fd (w_clients w1 ! i) = fd" "w_socks w1 fd = Some s1"
    using sock(1) by (simp_all add: w1 fd_def)
  obtain s2 where "handle_client_command se' i w1 =
      fst (handle_user_command se' i (protocol_parse_line (l @ [NL])) (w1\<lparr>w_socks := (w_socks w1)(fd \<mapsto> s2)\<rparr>))"
    "s_in s2 = bytes_of tail @ rest"
    using command_read [OF type(1) _ s1(4) in1 body(2,3), of se'] type(2,3) by metis
  moreover have "w_socks w1 fd = Some s1" "s_out s1 = s_out s @ bytes_of (''ERR text too large'' @ [NL])"
    "w_jobs w1 = w_jobs w" "w_queue w1 = w_queue w"
    using s1(3) s0(3) by (simp_all add: w1)
  ultimately show ?thesis by blast
qed

theorem oversized_text_run_as_commands_witness:
  "\<exists>w s2. handle_client_command upload_env 0 (handle_client_command upload_env 0 w) =
     fst (handle_user_command upload_env 0 (empty_request\<lparr>r_command := PROTO_CMD_PING\<rparr>)
       ((handle_client_command upload_env 0 w)\<lparr>w_socks := (w_socks (handle_client_command upload_env 0 w))(7 \<mapsto> s2)\<rparr>))"
proof -
  let ?c = "demo_client []" and ?msg = "''PING'' @ NL # replicate 1048576 (CHR ''x'')"
  have c: "calm_writes (cl_sock ?c)" "fs_files (cl_fs ?c) ''a.png'' = Some [1, 2, 3]" "fs_readable (cl_fs ?c) ''a.png''"
    "fs_seekable (cl_fs ?c) ''a.png''" by (simp_all add: demo_simps calm_writes_def)
  let ?t = "cl_sock (fst (upload_text_request ''a.png'' ?msg ?c))"
  let ?w = "demo_server (s_out ?t)"
  have parsed: "protocol_parse_line (''PING'' @ [NL]) = empty_request\<lparr>r_command := PROTO_CMD_PING\<rparr>"
    using protocol_line [of "''PING''"] parse_wire [of "W_plain PROTO_CMD_PING" "''PING''"] by (simp add: BUFFER_SIZE_def)
  have "\<exists>s1 s2. w_socks (handle_client_command upload_env 0 ?w) (c_fd (w_clients ?w ! 0)) = Some s1 \<and>
    s_out s1 = s_out (the (w_socks ?w 7)) @ bytes_of (''ERR text too large'' @ [NL]) \<and>
    w_jobs (handle_client_command upload_env 0 ?w) = w_jobs ?w \<and> w_queue (handle_client_command upload_env 0 ?w) = w_queue ?w \<and>
    s_in s2 = bytes_of (replicate 1048576 (CHR ''x'')) @ [] \<and>
    handle_client_command upload_env 0 (handle_client_command upload_env 0 ?w) =
      fst (handle_user_command upload_env 0 (protocol_parse_line (''PING'' @ [NL]))
        ((handle_client_command upload_env 0 ?w)\<lparr>w_socks := (w_socks (handle_client_command upload_env 0 ?w))(c_fd (w_clients ?w ! 0) \<mapsto> s2)\<rparr>))"
    by (rule oversized_text_run_as_commands [OF c, of ?w 0 _ ?msg "[]" upload_env "''PING''"])
      (use demo_paths in \<open>simp_all add: demo_simps calm_writes_def accepts_def MAX_TEXT_BYTES_def BUFFER_SIZE_def storage_default_def\<close>)
  moreover have "c_fd (w_clients ?w ! 0) = 7" by (simp add: demo_simps)
  ultimately show ?thesis unfolding parsed by metis
qed

text \<open>
  A download that did not reach the disk is reported as saved. \<^verbatim>\<open>download_result\<close> ignores the result of
  \<^verbatim>\<open>fclose\<close>: when the final flush fails and keeps only \<open>m\<close> bytes, the client still succeeds.
\<close>

theorem unflushed_download_reported_saved:
  assumes "calm_writes (cl_sock c)" "s_in (cl_sock c) = bytes_of (data_line (length f) @ [NL]) @ f" "length f < 2 ^ 63"
    and "fopen_wb (cl_fs c) out = Some fs1" "length f \<le> fs_room fs1 out" "fs_lost fs1 out = Some m"
  shows "\<exists>c'. download_result job_id out c = (c', True) \<and> fs_files (cl_fs c') out = Some (take m f)"
  using download_calm [OF assms(1) _ assms(3,4,5), of "[]" job_id] assms(2,6) by (auto simp: fclose_w_def frame_simps)

theorem unflushed_download_reported_saved_witness:
  "\<exists>c c'. download_result 4 ''saved.bin'' c = (c', True) \<and> fs_files (cl_fs c') ''saved.bin'' = Some (take 1 [5, 6])"
proof -
  let ?fs = "demo_disk2\<lparr>fs_lost := (\<lambda>p. Some 1)\<rparr>"
  let ?c = "(demo_client (bytes_of (data_line (length [5, 6 :: u8]) @ [NL]) @ [5, 6]))\<lparr>cl_fs := ?fs\<rparr>"
  have "calm_writes (cl_sock ?c)" "s_in (cl_sock ?c) = bytes_of (data_line (length [5, 6 :: u8]) @ [NL]) @ [5, 6]"
    "length [5, 6 :: u8] < 2 ^ 63" "fopen_wb (cl_fs ?c) ''saved.bin'' = Some (set_file ?fs ''saved.bin'' [])"
    "length [5, 6 :: u8] \<le> fs_room (set_file ?fs ''saved.bin'' []) ''saved.bin''" "fs_lost (set_file ?fs ''saved.bin'' []) ''saved.bin'' = Some 1"
    by (simp_all add: demo_client_def demo_disk2_def world0_def calm_writes_def fopen_wb_def frame_simps)
  from unflushed_download_reported_saved [OF this] show ?thesis by blast
qed

end
