(* ===== verification/Runtime_Config.thy ===== *)
theory Runtime_Config
  imports Clib Storage
begin

text \<open>
  \<^verbatim>\<open>src/server/runtime_config.c\<close> and the configuration part of \<^verbatim>\<open>src/server/main.c\<close>: defaults, the
  libconfig file, the environment and the command line, each overriding the one before. libconfig is
  not part of the repository: reading a file gives the three lookup functions of a \<open>config_file\<close>
  record, or nothing. \<^verbatim>\<open>getopt_long\<close> is modelled for the option table of the program.
\<close>

section \<open>The code\<close>

record runtime_config =
  rc_user_port :: int
  rc_admin_port :: int
  rc_worker_count :: int
  rc_log_path :: string
  rc_storage_root :: string
  rc_config_file :: string
  rc_unix_socket_path :: string
  rc_max_upload_bytes :: u64

definition CFG_PATH_MAX :: nat where "CFG_PATH_MAX = 256"
definition MAX_WORKERS :: int where "MAX_WORKERS = 8"

text \<open>The cast \<^verbatim>\<open>(int)parsed\<close> of a 64-bit \<^verbatim>\<open>long\<close>.\<close>

definition to_int :: "int \<Rightarrow> int" where
  "to_int v = signed_take_bit 31 v"

text \<open>\<^verbatim>\<open>copy_str\<close> into one of the path fields.\<close>

definition copy_str :: "string \<Rightarrow> string" where
  "copy_str src = snprintf_s CFG_PATH_MAX src"

definition parse_int_text :: "string \<Rightarrow> int option" where
  "parse_int_text text =
     (if text = [] then None
      else case strtol text of (parsed, erange, e) \<Rightarrow>
        if erange then None else case e of None \<Rightarrow> None | Some rest \<Rightarrow>
        if rest \<noteq> [] then None else Some (to_int parsed))"

definition clamp_worker_count :: "int \<Rightarrow> int" where
  "clamp_worker_count workers = (if workers < 1 then 1 else if workers > MAX_WORKERS then MAX_WORKERS else workers)"

definition runtime_config_set_defaults :: runtime_config where
  "runtime_config_set_defaults = \<lparr>rc_user_port = 9090, rc_admin_port = 9091, rc_worker_count = 3,
     rc_log_path = copy_str ''logs/server.log'', rc_storage_root = copy_str ''storage'',
     rc_config_file = copy_str ''config/server.conf'', rc_unix_socket_path = copy_str ''/tmp/stegapng_user.sock'',
     rc_max_upload_bytes = 64 * 1024 * 1024\<rparr>"

text \<open>What libconfig finds in a file, by setting path.\<close>

record config_file =
  cf_int :: "string \<Rightarrow> int option"
  cf_string :: "string \<Rightarrow> string option"
  cf_int64 :: "string \<Rightarrow> int option"

text \<open>
  Setters that leave a field alone when a source does not mention it.
\<close>

definition set_user_port :: "int option \<Rightarrow> runtime_config \<Rightarrow> runtime_config" where
  "set_user_port v cfg = (case v of None \<Rightarrow> cfg | Some n \<Rightarrow> cfg\<lparr>rc_user_port := n\<rparr>)"
definition set_admin_port :: "int option \<Rightarrow> runtime_config \<Rightarrow> runtime_config" where
  "set_admin_port v cfg = (case v of None \<Rightarrow> cfg | Some n \<Rightarrow> cfg\<lparr>rc_admin_port := n\<rparr>)"
definition set_workers :: "int option \<Rightarrow> runtime_config \<Rightarrow> runtime_config" where
  "set_workers v cfg = (case v of None \<Rightarrow> cfg | Some n \<Rightarrow> cfg\<lparr>rc_worker_count := clamp_worker_count n\<rparr>)"
definition set_log_path :: "string option \<Rightarrow> runtime_config \<Rightarrow> runtime_config" where
  "set_log_path v cfg = (case v of None \<Rightarrow> cfg | Some s \<Rightarrow> cfg\<lparr>rc_log_path := copy_str s\<rparr>)"
definition set_storage_root :: "string option \<Rightarrow> runtime_config \<Rightarrow> runtime_config" where
  "set_storage_root v cfg = (case v of None \<Rightarrow> cfg | Some s \<Rightarrow> cfg\<lparr>rc_storage_root := copy_str s\<rparr>)"
definition set_unix_socket :: "string option \<Rightarrow> runtime_config \<Rightarrow> runtime_config" where
  "set_unix_socket v cfg = (case v of None \<Rightarrow> cfg | Some s \<Rightarrow> cfg\<lparr>rc_unix_socket_path := copy_str s\<rparr>)"
definition set_max_upload :: "int option \<Rightarrow> runtime_config \<Rightarrow> runtime_config" where
  "set_max_upload v cfg = (case v of None \<Rightarrow> cfg
     | Some llv \<Rightarrow> if llv > 0 then cfg\<lparr>rc_max_upload_bytes := of_int llv * 1024 * 1024\<rparr> else cfg)"
definition set_config_file :: "string \<Rightarrow> runtime_config \<Rightarrow> runtime_config" where
  "set_config_file p cfg = cfg\<lparr>rc_config_file := copy_str p\<rparr>"

lemmas setter_defs = set_user_port_def set_admin_port_def set_workers_def set_log_path_def set_storage_root_def
  set_unix_socket_def set_max_upload_def set_config_file_def

text \<open>\<open>lib = None\<close>: compiled without libconfig. \<open>False\<close> is the return value \<^verbatim>\<open>-1\<close>.\<close>

definition runtime_config_load_file ::
  "(path \<Rightarrow> config_file option) option \<Rightarrow> path \<Rightarrow> runtime_config \<Rightarrow> runtime_config \<times> bool" where
  "runtime_config_load_file lib path cfg =
     (if path = [] then (cfg, False)
      else case lib of None \<Rightarrow> (cfg, False) | Some read \<Rightarrow>
      case read path of None \<Rightarrow> (cfg, False) | Some lc \<Rightarrow>
        let c1 = set_user_port (cf_int lc ''server.user_port'') cfg;
            c2 = set_admin_port (cf_int lc ''server.admin_port'') c1;
            c3 = set_workers (cf_int lc ''server.worker_count'') c2;
            c4 = set_log_path (cf_string lc ''server.log_path'') c3;
            c5 = set_storage_root (cf_string lc ''server.storage_root'') c4;
            c6 = set_unix_socket (cf_string lc ''server.unix_socket_path'') c5;
            c7 = set_max_upload (cf_int64 lc ''server.max_upload_mb'') c6
        in (set_config_file path c7, True))"

definition parse_int_env :: "(string \<Rightarrow> string option) \<Rightarrow> string \<Rightarrow> int option" where
  "parse_int_env env name =
     (case env name of None \<Rightarrow> None | Some v \<Rightarrow> if v = [] then None else parse_int_text v)"

definition env_string :: "(string \<Rightarrow> string option) \<Rightarrow> string \<Rightarrow> string option" where
  "env_string env name = (case env name of None \<Rightarrow> None | Some v \<Rightarrow> if v = [] then None else Some v)"

definition runtime_config_apply_env :: "(string \<Rightarrow> string option) \<Rightarrow> runtime_config \<Rightarrow> runtime_config" where
  "runtime_config_apply_env env cfg =
     (let c1 = set_user_port (parse_int_env env ''STEGA_USER_PORT'') cfg;
          c2 = set_admin_port (parse_int_env env ''STEGA_ADMIN_PORT'') c1;
          c3 = set_workers (parse_int_env env ''STEGA_WORKERS'') c2;
          c4 = set_log_path (env_string env ''STEGA_LOG'') c3;
          c5 = set_storage_root (env_string env ''STEGA_STORAGE'') c4
      in set_unix_socket (env_string env ''STEGA_UNIX_SOCKET'') c5)"

subsection \<open>The command line\<close>

text \<open>
  What \<^verbatim>\<open>getopt_long\<close> returns call after call: an option with its argument, or \<^verbatim>\<open>'?'\<close>, after which the
  program does not call it again. \<open>posix\<close> is the variable \<^verbatim>\<open>POSIXLY_CORRECT\<close>: with it the scan stops at
  the first operand, without it operands are moved behind the options.
\<close>

datatype opt_event = Opt char string | Opt_error

definition long_opts :: "(string \<times> bool \<times> char) list" where
  "long_opts = [(''config'', True, CHR ''c''), (''port'', True, CHR ''p''), (''admin-port'', True, CHR ''a''),
     (''unix-socket'', True, CHR ''u''), (''workers'', True, CHR ''w''), (''log'', True, CHR ''l''),
     (''storage'', True, CHR ''s''), (''help'', False, CHR ''h''), (''version'', False, CHR ''V'')]"

definition takes_argument :: "char \<Rightarrow> bool" where
  "takes_argument c \<longleftrightarrow> c \<in> set ''cpauwls''"

text \<open>An exact name, or an abbreviation that fits one option only.\<close>

definition long_opt :: "string \<Rightarrow> (string \<times> bool \<times> char) option" where
  "long_opt name =
     (case filter (\<lambda>(n, _). n = name) long_opts of o1 # _ \<Rightarrow> Some o1
      | [] \<Rightarrow> (case filter (\<lambda>(n, _). take (length name) n = name) long_opts of [o1] \<Rightarrow> Some o1 | _ \<Rightarrow> None))"

text \<open>A group of short options; the second component is what is left of the arguments.\<close>

fun short_group :: "string \<Rightarrow> string list \<Rightarrow> opt_event list \<times> string list" where
  "short_group [] rest = ([], rest)"
| "short_group (c # cs) rest =
     (if c = CHR ''h'' \<or> c = CHR ''V'' then (case short_group cs rest of (es, r) \<Rightarrow> (Opt c [] # es, r))
      else if takes_argument c then
        (if cs \<noteq> [] then ([Opt c cs], rest)
         else case rest of [] \<Rightarrow> ([Opt_error], []) | v # r \<Rightarrow> ([Opt c v], r))
      else ([Opt_error], []))"

lemma short_group_shorter: "short_group cs rest = (es, r) \<Longrightarrow> length r \<le> length rest"
  by (induction cs rest arbitrary: es r rule: short_group.induct)
    (auto split: if_splits prod.splits list.splits)

function getopt_long :: "bool \<Rightarrow> string list \<Rightarrow> opt_event list" where
  "getopt_long posix [] = []"
| "getopt_long posix (arg # rest) =
     (if arg = ''--'' then []
      else if take 2 arg = ''--'' then
        (let name = takeWhile (\<lambda>c. c \<noteq> CHR ''='') (drop 2 arg); tail = dropWhile (\<lambda>c. c \<noteq> CHR ''='') (drop 2 arg) in
         case long_opt name of None \<Rightarrow> [Opt_error]
         | Some (_, False, c) \<Rightarrow> if tail \<noteq> [] then [Opt_error] else Opt c [] # getopt_long posix rest
         | Some (_, True, c) \<Rightarrow>
             if tail \<noteq> [] then Opt c (drop 1 tail) # getopt_long posix rest
             else (case rest of [] \<Rightarrow> [Opt_error] | v # rest' \<Rightarrow> Opt c v # getopt_long posix rest'))
      else if take 1 arg = ''-'' \<and> arg \<noteq> ''-'' then
        (case short_group (drop 1 arg) rest of (es, rest') \<Rightarrow>
           if Opt_error \<in> set es then es else es @ getopt_long posix rest')
      else if posix then [] else getopt_long posix rest)"
  by pat_completeness auto
termination
  by (relation "measure (\<lambda>(posix, args). length args)") (auto dest!: short_group_shorter [OF sym])

datatype cli_result = Cli_ok | Cli_exit | Cli_error

text \<open>\<open>Cli_exit\<close>: help or version was printed; \<open>Cli_error\<close>: the return value \<^verbatim>\<open>-1\<close>.\<close>

fun runtime_config_apply_cli :: "opt_event list \<Rightarrow> runtime_config \<Rightarrow> runtime_config \<times> cli_result" where
  "runtime_config_apply_cli [] cfg = (cfg, Cli_ok)"
| "runtime_config_apply_cli (Opt_error # es) cfg = (cfg, Cli_error)"
| "runtime_config_apply_cli (Opt c optarg # es) cfg =
     (if c = CHR ''c'' then runtime_config_apply_cli es (set_config_file optarg cfg)
      else if c = CHR ''p'' then
        (case parse_int_text optarg of None \<Rightarrow> (cfg, Cli_error)
         | Some parsed \<Rightarrow> runtime_config_apply_cli es (set_user_port (Some parsed) cfg))
      else if c = CHR ''a'' then
        (case parse_int_text optarg of None \<Rightarrow> (cfg, Cli_error)
         | Some parsed \<Rightarrow> runtime_config_apply_cli es (set_admin_port (Some parsed) cfg))
      else if c = CHR ''u'' then runtime_config_apply_cli es (set_unix_socket (Some optarg) cfg)
      else if c = CHR ''w'' then
        (case parse_int_text optarg of None \<Rightarrow> (cfg, Cli_error)
         | Some parsed \<Rightarrow> runtime_config_apply_cli es (set_workers (Some parsed) cfg))
      else if c = CHR ''l'' then runtime_config_apply_cli es (set_log_path (Some optarg) cfg)
      else if c = CHR ''s'' then runtime_config_apply_cli es (set_storage_root (Some optarg) cfg)
      else if c = CHR ''h'' \<or> c = CHR ''V'' then (cfg, Cli_exit)
      else (cfg, Cli_error))"

text \<open>The search \<^verbatim>\<open>main\<close> makes for the file name before the options are parsed; \<open>args\<close> is \<^verbatim>\<open>argv[1..]\<close>.\<close>

fun preparse_args :: "string list \<Rightarrow> string option" where
  "preparse_args (a # b # rest) =
     (if a = ''-c'' \<or> a = ''--config'' then Some b else preparse_args (b # rest))"
| "preparse_args _ = None"

definition preparse_config_path :: "string list \<Rightarrow> (string \<Rightarrow> string option) \<Rightarrow> string \<Rightarrow> string" where
  "preparse_config_path args env out =
     (case preparse_args args of Some b \<Rightarrow> snprintf_s CFG_PATH_MAX b
      | None \<Rightarrow> (case env_string env ''STEGA_CONFIG'' of Some e \<Rightarrow> snprintf_s CFG_PATH_MAX e | None \<Rightarrow> out))"

text \<open>\<^verbatim>\<open>main\<close> up to the point where the configuration is complete.\<close>

definition load_configuration ::
  "(path \<Rightarrow> config_file option) option \<Rightarrow> (string \<Rightarrow> string option) \<Rightarrow> string list \<Rightarrow> runtime_config \<times> cli_result" where
  "load_configuration lib env args =
     (let cfg = runtime_config_set_defaults;
          cfg_path = preparse_config_path args env (snprintf_s CFG_PATH_MAX (rc_config_file cfg));
          cfg1 = fst (runtime_config_load_file lib cfg_path cfg);
          cfg2 = runtime_config_apply_env env cfg1
      in runtime_config_apply_cli (getopt_long (env ''POSIXLY_CORRECT'' \<noteq> None) args) cfg2)"

section \<open>Every configuration is usable\<close>

text \<open>The bounds the server relies on: the number of workers fits the arrays, the strings their fields.\<close>

definition config_ok :: "runtime_config \<Rightarrow> bool" where
  "config_ok cfg \<longleftrightarrow> 1 \<le> rc_worker_count cfg \<and> rc_worker_count cfg \<le> MAX_WORKERS \<and>
     list_all (\<lambda>s. length s < CFG_PATH_MAX \<and> NUL \<notin> set s)
       [rc_log_path cfg, rc_storage_root cfg, rc_config_file cfg, rc_unix_socket_path cfg]"

lemma copy_str_fits: "length (copy_str s) < CFG_PATH_MAX \<and> NUL \<notin> set (copy_str s)"
  by (simp add: copy_str_def snprintf_s_length snprintf_s_no_NUL CFG_PATH_MAX_def)

lemma clamp_bounds: "1 \<le> clamp_worker_count n \<and> clamp_worker_count n \<le> MAX_WORKERS"
  by (simp add: clamp_worker_count_def MAX_WORKERS_def)

lemma setters_ok [inv_intros]:
  assumes "config_ok cfg"
  shows "config_ok (set_user_port v cfg)" "config_ok (set_admin_port v cfg)" "config_ok (set_workers v cfg)"
    "config_ok (set_log_path t cfg)" "config_ok (set_storage_root t cfg)" "config_ok (set_unix_socket t cfg)"
    "config_ok (set_max_upload v cfg)" "config_ok (set_config_file p cfg)"
  using assms copy_str_fits clamp_bounds by (simp_all add: setter_defs config_ok_def split: option.split)

lemma defaults_ok: "config_ok runtime_config_set_defaults"
  by (simp add: config_ok_def runtime_config_set_defaults_def copy_str_fits MAX_WORKERS_def)

lemma load_file_ok [inv_intros]: "config_ok cfg \<Longrightarrow> config_ok (fst (runtime_config_load_file lib path cfg))"
  by (simp add: runtime_config_load_file_def Let_def setters_ok split: option.split)

lemma apply_env_ok [inv_intros]: "config_ok cfg \<Longrightarrow> config_ok (runtime_config_apply_env env cfg)"
  by (simp add: runtime_config_apply_env_def Let_def setters_ok)

lemma apply_cli_ok [inv_intros]: "config_ok cfg \<Longrightarrow> config_ok (fst (runtime_config_apply_cli es cfg))"
  by (induction es cfg rule: runtime_config_apply_cli.induct) (auto simp: setters_ok split: option.split)

section \<open>Which source wins\<close>

text \<open>The first source that says something, in order of precedence.\<close>

fun first_set :: "'a option list \<Rightarrow> 'a \<Rightarrow> 'a" where
  "first_set [] d = d"
| "first_set (v # vs) d = (case v of Some x \<Rightarrow> x | None \<Rightarrow> first_set vs d)"

text \<open>The last value given for an option, read by \<open>f\<close>.\<close>

fun last_opt :: "(string \<Rightarrow> 'a option) \<Rightarrow> char \<Rightarrow> opt_event list \<Rightarrow> 'a option" where
  "last_opt f c [] = None"
| "last_opt f c (Opt_error # es) = last_opt f c es"
| "last_opt f c (Opt d v # es) = (case last_opt f c es of Some x \<Rightarrow> Some x | None \<Rightarrow> if d = c then f v else None)"

definition file_of :: "(path \<Rightarrow> config_file option) option \<Rightarrow> path \<Rightarrow> config_file option" where
  "file_of lib path = (if path = [] then None else Option.bind lib (\<lambda>read. read path))"

text \<open>A successful command line is a sequence of settings.\<close>

fun apply_opt :: "runtime_config \<Rightarrow> opt_event \<Rightarrow> runtime_config" where
  "apply_opt cfg Opt_error = cfg"
| "apply_opt cfg (Opt c v) =
     (if c = CHR ''c'' then set_config_file v cfg
      else if c = CHR ''p'' then set_user_port (parse_int_text v) cfg
      else if c = CHR ''a'' then set_admin_port (parse_int_text v) cfg
      else if c = CHR ''u'' then set_unix_socket (Some v) cfg
      else if c = CHR ''w'' then set_workers (parse_int_text v) cfg
      else if c = CHR ''l'' then set_log_path (Some v) cfg
      else if c = CHR ''s'' then set_storage_root (Some v) cfg else cfg)"

lemma apply_cli_fold: "runtime_config_apply_cli es cfg = (cfg', Cli_ok) \<Longrightarrow> cfg' = foldl apply_opt cfg es"
  by (induction es cfg rule: runtime_config_apply_cli.induct) (auto split: if_splits option.splits)

lemma fold_last_opt:
  assumes "\<And>d v cfg. field (apply_opt cfg (Opt d v)) =
      (if d = c then first_set [map_option g (f v)] (field cfg) else field cfg)"
  shows "field (foldl apply_opt cfg es) = first_set [map_option g (last_opt f c es)] (field cfg)"
proof (induction es arbitrary: cfg)
  case (Cons e es)
  show ?case
  proof (cases e)
    case (Opt d v)
    show ?thesis
      unfolding Opt foldl_Cons Cons.IH assms
      by (cases "last_opt f c es"; cases "f v"; cases "d = c") simp_all
  qed (use Cons.IH in simp)
qed simp

lemma first_set_nest: "first_set [v] (first_set vs d) = first_set (v # vs) d"
  by (cases v) simp_all

lemma first_set_map: "first_set [map_option g v] (g d) = g (first_set [v] d)"
  by (cases v) simp_all

lemma fold_fields:
  "rc_user_port (foldl apply_opt cfg es) = first_set [map_option id (last_opt parse_int_text CHR ''p'' es)] (rc_user_port cfg)"
  "rc_admin_port (foldl apply_opt cfg es) = first_set [map_option id (last_opt parse_int_text CHR ''a'' es)] (rc_admin_port cfg)"
  "rc_worker_count (foldl apply_opt cfg es) =
     first_set [map_option clamp_worker_count (last_opt parse_int_text CHR ''w'' es)] (rc_worker_count cfg)"
  "rc_log_path (foldl apply_opt cfg es) = first_set [map_option copy_str (last_opt Some CHR ''l'' es)] (rc_log_path cfg)"
  "rc_storage_root (foldl apply_opt cfg es) = first_set [map_option copy_str (last_opt Some CHR ''s'' es)] (rc_storage_root cfg)"
  "rc_unix_socket_path (foldl apply_opt cfg es) = first_set [map_option copy_str (last_opt Some CHR ''u'' es)] (rc_unix_socket_path cfg)"
  "rc_config_file (foldl apply_opt cfg es) = first_set [map_option copy_str (last_opt Some CHR ''c'' es)] (rc_config_file cfg)"
  by (rule fold_last_opt; simp add: setter_defs split: option.split)+

lemma fold_max_upload: "rc_max_upload_bytes (foldl apply_opt cfg es) = rc_max_upload_bytes cfg"
proof (induction es arbitrary: cfg)
  case (Cons e es)
  have "rc_max_upload_bytes (apply_opt cfg e) = rc_max_upload_bytes cfg"
    by (cases e) (simp_all add: setter_defs split: option.split)
  then show ?case by (simp add: Cons.IH)
qed simp

lemma env_fields:
  "rc_user_port (runtime_config_apply_env env cfg) = first_set [parse_int_env env ''STEGA_USER_PORT''] (rc_user_port cfg)"
  "rc_admin_port (runtime_config_apply_env env cfg) = first_set [parse_int_env env ''STEGA_ADMIN_PORT''] (rc_admin_port cfg)"
  "rc_worker_count (runtime_config_apply_env env cfg) =
     first_set [map_option clamp_worker_count (parse_int_env env ''STEGA_WORKERS'')] (rc_worker_count cfg)"
  "rc_log_path (runtime_config_apply_env env cfg) = first_set [map_option copy_str (env_string env ''STEGA_LOG'')] (rc_log_path cfg)"
  "rc_storage_root (runtime_config_apply_env env cfg) =
     first_set [map_option copy_str (env_string env ''STEGA_STORAGE'')] (rc_storage_root cfg)"
  "rc_unix_socket_path (runtime_config_apply_env env cfg) =
     first_set [map_option copy_str (env_string env ''STEGA_UNIX_SOCKET'')] (rc_unix_socket_path cfg)"
  "rc_config_file (runtime_config_apply_env env cfg) = rc_config_file cfg"
  "rc_max_upload_bytes (runtime_config_apply_env env cfg) = rc_max_upload_bytes cfg"
  by (simp_all add: runtime_config_apply_env_def Let_def setter_defs split: option.split)

text \<open>The upload limit of a file: a positive number of megabytes, in bytes modulo the size of \<^verbatim>\<open>size_t\<close>.\<close>

definition upload_limit :: "int option \<Rightarrow> u64 option" where
  "upload_limit v = (case v of Some mb \<Rightarrow> if 0 < mb then Some (of_int (mb * 1048576)) else None | None \<Rightarrow> None)"

lemma file_fields:
  fixes lib path
  defines "lc \<equiv> file_of lib path"
  shows "rc_user_port (fst (runtime_config_load_file lib path cfg)) =
      first_set [Option.bind lc (\<lambda>c. cf_int c ''server.user_port'')] (rc_user_port cfg)"
    "rc_admin_port (fst (runtime_config_load_file lib path cfg)) =
      first_set [Option.bind lc (\<lambda>c. cf_int c ''server.admin_port'')] (rc_admin_port cfg)"
    "rc_worker_count (fst (runtime_config_load_file lib path cfg)) =
      first_set [map_option clamp_worker_count (Option.bind lc (\<lambda>c. cf_int c ''server.worker_count''))] (rc_worker_count cfg)"
    "rc_log_path (fst (runtime_config_load_file lib path cfg)) =
      first_set [map_option copy_str (Option.bind lc (\<lambda>c. cf_string c ''server.log_path''))] (rc_log_path cfg)"
    "rc_storage_root (fst (runtime_config_load_file lib path cfg)) =
      first_set [map_option copy_str (Option.bind lc (\<lambda>c. cf_string c ''server.storage_root''))] (rc_storage_root cfg)"
    "rc_unix_socket_path (fst (runtime_config_load_file lib path cfg)) =
      first_set [map_option copy_str (Option.bind lc (\<lambda>c. cf_string c ''server.unix_socket_path''))] (rc_unix_socket_path cfg)"
    "rc_config_file (fst (runtime_config_load_file lib path cfg)) =
      first_set [map_option copy_str (map_option (\<lambda>c. path) lc)] (rc_config_file cfg)"
    "rc_max_upload_bytes (fst (runtime_config_load_file lib path cfg)) =
      first_set [upload_limit (Option.bind lc (\<lambda>c. cf_int64 c ''server.max_upload_mb''))] (rc_max_upload_bytes cfg)"
  by (auto simp: upload_limit_def lc_def file_of_def runtime_config_load_file_def Let_def setter_defs split: option.split)

lemmas source_fields = fold_fields fold_max_upload env_fields file_fields

section \<open>Properties of the configuration\<close>

text \<open>
  C17: every configuration \<^verbatim>\<open>main\<close> can build is within the bounds the server relies on: between one and
  eight workers, as many as the arrays hold, and path strings that are terminated within their fields,
  whatever the file, the environment and the command line say.
\<close>

theorem configuration_in_bounds: "config_ok (fst (load_configuration lib env args))"
  unfolding load_configuration_def Let_def by (intro inv_intros defaults_ok)

text \<open>
  C16: the order of precedence holds for every setting. When \<^verbatim>\<open>main\<close> goes on to run the server, each of
  the eight fields is decided by the last value given on the command line, otherwise by the environment,
  otherwise by the file, otherwise it is the default of the code, with worker counts clamped and strings
  cut to their fields; the upload limit can only come from the file, and the recorded file name from the
  command line or the file that was read. The default number of workers is 3, as in the README; the
  design document says 4.
\<close>

theorem configuration_precedence:
  assumes "load_configuration lib env args = (cfg, Cli_ok)"
  shows "let es = getopt_long (env ''POSIXLY_CORRECT'' \<noteq> None) args;
      path = preparse_config_path args env ''config/server.conf'';
      int_file = (\<lambda>k. Option.bind (file_of lib path) (\<lambda>c. cf_int c k));
      str_file = (\<lambda>k. Option.bind (file_of lib path) (\<lambda>c. cf_string c k))
    in rc_user_port cfg = first_set [last_opt parse_int_text CHR ''p'' es, parse_int_env env ''STEGA_USER_PORT'',
           int_file ''server.user_port''] 9090 \<and>
       rc_admin_port cfg = first_set [last_opt parse_int_text CHR ''a'' es, parse_int_env env ''STEGA_ADMIN_PORT'',
           int_file ''server.admin_port''] 9091 \<and>
       rc_worker_count cfg = clamp_worker_count (first_set [last_opt parse_int_text CHR ''w'' es,
           parse_int_env env ''STEGA_WORKERS'', int_file ''server.worker_count''] 3) \<and>
       rc_log_path cfg = copy_str (first_set [last_opt Some CHR ''l'' es, env_string env ''STEGA_LOG'',
           str_file ''server.log_path''] ''logs/server.log'') \<and>
       rc_storage_root cfg = copy_str (first_set [last_opt Some CHR ''s'' es, env_string env ''STEGA_STORAGE'',
           str_file ''server.storage_root''] ''storage'') \<and>
       rc_unix_socket_path cfg = copy_str (first_set [last_opt Some CHR ''u'' es, env_string env ''STEGA_UNIX_SOCKET'',
           str_file ''server.unix_socket_path''] ''/tmp/stegapng_user.sock'') \<and>
       rc_config_file cfg = copy_str (first_set [last_opt Some CHR ''c'' es,
           map_option (\<lambda>c. path) (file_of lib path)] ''config/server.conf'') \<and>
       rc_max_upload_bytes cfg = first_set [upload_limit (Option.bind (file_of lib path) (\<lambda>c. cf_int64 c ''server.max_upload_mb''))]
           (64 * 1024 * 1024)"
proof -
  let ?es = "getopt_long (env ''POSIXLY_CORRECT'' \<noteq> None) args"
  have default: "snprintf_s CFG_PATH_MAX (rc_config_file runtime_config_set_defaults) = ''config/server.conf''"
    by (simp add: runtime_config_set_defaults_def copy_str_def snprintf_s_def cstr_def CFG_PATH_MAX_def)
  have cfg: "cfg = foldl apply_opt (runtime_config_apply_env env
      (fst (runtime_config_load_file lib (preparse_config_path args env ''config/server.conf'') runtime_config_set_defaults))) ?es"
    using assms unfolding load_configuration_def Let_def default by (rule apply_cli_fold)
  have c3: "3 = clamp_worker_count 3" by (simp add: clamp_worker_count_def MAX_WORKERS_def)
  have def_fields: "rc_user_port runtime_config_set_defaults = 9090" "rc_admin_port runtime_config_set_defaults = 9091"
    "rc_worker_count runtime_config_set_defaults = clamp_worker_count 3"
    "rc_log_path runtime_config_set_defaults = copy_str ''logs/server.log''"
    "rc_storage_root runtime_config_set_defaults = copy_str ''storage''"
    "rc_unix_socket_path runtime_config_set_defaults = copy_str ''/tmp/stegapng_user.sock''"
    "rc_config_file runtime_config_set_defaults = copy_str ''config/server.conf''"
    "rc_max_upload_bytes runtime_config_set_defaults = 64 * 1024 * 1024"
    unfolding c3 [symmetric] by (simp_all add: runtime_config_set_defaults_def)
  show ?thesis
    unfolding Let_def cfg source_fields def_fields first_set_nest first_set_map option.map_id id_apply
    by (intro conjI refl)
qed

lemma port_args:
  "getopt_long posix [''-p'', ''8080''] = [Opt CHR ''p'' ''8080'']" "parse_int_text ''8080'' = Some 8080"
  by (simp_all add: takes_argument_def parse_int_text_def strtol_def isspace_def isdigit_def digits_val_def digit_val_def
      to_int_def Let_def signed_take_bit_int_eq_self)

theorem configuration_precedence_witness:
  "\<exists>cfg. load_configuration None [''STEGA_USER_PORT'' \<mapsto> ''7070''] [''-p'', ''8080''] = (cfg, Cli_ok) \<and> rc_user_port cfg = 8080"
proof -
  obtain cfg where "load_configuration None [''STEGA_USER_PORT'' \<mapsto> ''7070''] [''-p'', ''8080''] = (cfg, Cli_ok)"
    by (simp add: load_configuration_def Let_def port_args del: getopt_long.simps)
  with configuration_precedence [OF this] show ?thesis by (simp add: Let_def port_args del: getopt_long.simps)
qed

text \<open>
  A configuration file named in the form \<^verbatim>\<open>--config=FILE\<close> (or \<^verbatim>\<open>-cFILE\<close>) is accepted but never read.
  \<^verbatim>\<open>getopt_long\<close> recognises both forms and the server reports the file as its source, but the search
  that decides which file to load only knows the option and its value as separate arguments: the
  outcome is as without the option, except for the recorded name.
\<close>

theorem config_file_option_ignored:
  assumes "p \<noteq> []"
  shows "load_configuration lib env [''--config='' @ p] =
      (set_config_file p (fst (load_configuration lib env [])), Cli_ok) \<and>
    load_configuration lib env [''-c'' @ p] = (set_config_file p (fst (load_configuration lib env [])), Cli_ok)"
proof -
  have "long_opt ''config'' = Some (''config'', True, CHR ''c'')" by (simp add: long_opt_def long_opts_def)
  then have "getopt_long posix [''--config='' @ p] = [Opt CHR ''c'' p]" for posix by simp
  moreover have "getopt_long posix [''-c'' @ p] = [Opt CHR ''c'' p]" for posix
    using assms by (simp add: takes_argument_def)
  moreover have "preparse_config_path [x] env d = preparse_config_path [] env d" for x d
    by (simp add: preparse_config_path_def)
  moreover have "getopt_long posix [] = []" for posix by simp
  ultimately show ?thesis by (simp add: load_configuration_def Let_def del: getopt_long.simps append.simps)
qed

theorem config_file_option_ignored_witness:
  "load_configuration None Map.empty [''--config=my.conf''] =
     (set_config_file ''my.conf'' (fst (load_configuration None Map.empty [])), Cli_ok)"
  using config_file_option_ignored [of "''my.conf''" None Map.empty] by simp

text \<open>
  Numbers are not checked against their range: a port of two to the 32nd plus 9090 is taken for
  9090, and one of 70000, which no port can be, is stored as it is.
\<close>

theorem numbers_wrap: "parse_int_text ''4294976386'' = Some 9090 \<and> parse_int_text ''70000'' = Some 70000"
proof -
  have "signed_take_bit 31 (4294976386 :: int) = 9090" "signed_take_bit 31 (70000 :: int) = 70000"
    by (simp_all add: signed_take_bit_eq_take_bit_shift take_bit_eq_mod)
  then show ?thesis
    by (simp add: parse_int_text_def strtol_def isspace_def isdigit_def digits_val_def digit_val_def to_int_def Let_def)
qed

end
