(* ===== verification/Admin.thy ===== *)
theory Admin
  imports Client Runtime_Config
begin

text \<open>
  \<^verbatim>\<open>src/admin/main.c\<close>, the administrator's console: a menu loop that turns lines of standard input into
  commands of the protocol. The state is the connection, what is left of standard input and the
  replies printed; the menu and the prompts are not represented. The loop need not end, so it is a
  partial function: \<open>None\<close> means that it never returns. Archiving the logs (\<^verbatim>\<open>fork\<close>, \<^verbatim>\<open>execl\<close> of
  \<^verbatim>\<open>tar\<close>, \<^verbatim>\<open>waitpid\<close>) is the parameter \<open>export_ok\<close>: whether \<^verbatim>\<open>fork\<close> and \<^verbatim>\<open>waitpid\<close> succeed.
\<close>

section \<open>The code\<close>

record admin =
  ad_sock :: sock
  ad_stdin :: string
  ad_out :: string

definition send_cmd :: "string \<Rightarrow> admin \<Rightarrow> admin \<times> bool" where
  "send_cmd cmd a = (case write_all (bytes_of cmd) (ad_sock a) of (s1, r) \<Rightarrow> (a\<lparr>ad_sock := s1\<rparr>, r \<noteq> None))"

definition recv_and_print :: "admin \<Rightarrow> admin \<times> bool" where
  "recv_and_print a =
     (case read_line (BUFFER_SIZE * 2) (ad_sock a) of (s1, r) \<Rightarrow>
      let a1 = a\<lparr>ad_sock := s1\<rparr> in
      case r of None \<Rightarrow> (a1, False)
      | Some buffer \<Rightarrow> if buffer = [] then (a1, False) else (a1\<lparr>ad_out := ad_out a1 @ cstr buffer\<rparr>, True))"

text \<open>\<^verbatim>\<open>fgets\<close>: at most \<open>n\<close> characters, up to and including a newline.\<close>

fun get_line :: "nat \<Rightarrow> string \<Rightarrow> string" where
  "get_line 0 s = []"
| "get_line (Suc n) [] = []"
| "get_line (Suc n) (c # s) = (if c = NL then [c] else c # get_line n s)"

definition read_line_stdin :: "nat \<Rightarrow> admin \<Rightarrow> admin \<times> string" where
  "read_line_stdin buf_size a =
     (let d = get_line (buf_size - 1) (ad_stdin a) in
      if d = [] then (a, [])
      else let buf = cstr d; a1 = a\<lparr>ad_stdin := drop (length d) (ad_stdin a)\<rparr> in
        (a1, if buf \<noteq> [] \<and> last buf = NL then butlast buf else buf))"

definition prompt_nonempty :: "nat \<Rightarrow> admin \<Rightarrow> admin \<times> string option" where
  "prompt_nonempty out_size a =
     (case read_line_stdin out_size a of (a1, out) \<Rightarrow> (a1, if out \<noteq> [] then Some out else None))"

definition do_simple :: "string \<Rightarrow> admin \<Rightarrow> admin \<times> bool" where
  "do_simple cmd a = (case send_cmd cmd a of (a1, ok) \<Rightarrow> if \<not> ok then (a1, False) else recv_and_print a1)"

definition do_with_arg :: "string \<Rightarrow> admin \<Rightarrow> admin \<times> bool" where
  "do_with_arg verb a =
     (case prompt_nonempty 256 a of (a1, r) \<Rightarrow>
      case r of None \<Rightarrow> (a1, True)
      | Some arg \<Rightarrow>
          (case send_cmd (snprintf_s 512 (verb @ '' '' @ arg @ [NL])) a1 of (a2, ok) \<Rightarrow>
           if \<not> ok then (a2, False) else recv_and_print a2))"

definition do_export_logs :: "(string \<Rightarrow> bool) \<Rightarrow> admin \<Rightarrow> admin \<times> bool" where
  "do_export_logs export_ok a =
     (case prompt_nonempty 256 a of (a1, r) \<Rightarrow>
      case r of None \<Rightarrow> (a1, True) | Some dest \<Rightarrow> (a1, export_ok dest))"

definition do_raw :: "admin \<Rightarrow> admin \<times> bool" where
  "do_raw a =
     (case prompt_nonempty BUFFER_SIZE a of (a1, r) \<Rightarrow>
      case r of None \<Rightarrow> (a1, True)
      | Some l \<Rightarrow>
          (case send_cmd (snprintf_s (BUFFER_SIZE + 2) (l @ [NL])) a1 of (a2, ok) \<Rightarrow>
           if \<not> ok then (a2, False) else recv_and_print a2))"

definition atoi :: "string \<Rightarrow> int" where
  "atoi s = to_int (fst (strtol s))"

text \<open>The \<^verbatim>\<open>switch\<close>: the state and whether the loop goes on.\<close>

definition menu_choice :: "(string \<Rightarrow> bool) \<Rightarrow> int \<Rightarrow> admin \<Rightarrow> admin \<times> bool" where
  "menu_choice export_ok opt a =
     (if opt = 1 then do_simple (''STATS'' @ [NL]) a
      else if opt = 2 then do_simple (''LISTJOBS'' @ [NL]) a
      else if opt = 3 then do_simple (''HISTORY'' @ [NL]) a
      else if opt = 4 then do_simple (''LISTCLIENTS'' @ [NL]) a
      else if opt = 5 then do_simple (''AVGDURATION'' @ [NL]) a
      else if opt = 6 then do_with_arg ''CANCEL'' a
      else if opt = 7 then do_with_arg ''KICK'' a
      else if opt = 8 then do_with_arg ''BLOCKIP'' a
      else if opt = 9 then do_with_arg ''UNBLOCKIP'' a
      else if opt = 10 then do_simple (''PING'' @ [NL]) a
      else if opt = 11 then do_simple (''HELP'' @ [NL]) a
      else if opt = 12 then do_raw a
      else if opt = 13 then do_export_logs export_ok a
      else if opt = 0 then (fst (do_simple (''QUIT'' @ [NL]) a), False)
      else (a, True))"

partial_function (option) menu_loop :: "(string \<Rightarrow> bool) \<Rightarrow> admin \<Rightarrow> admin option" where
  "menu_loop export_ok a =
     (case read_line_stdin 64 a of (a1, input) \<Rightarrow>
      if input = [] then menu_loop export_ok a1
      else case menu_choice export_ok (atoi input) a1 of (a2, running) \<Rightarrow>
        if running then menu_loop export_ok a2 else Some a2)"

text \<open>\<^verbatim>\<open>main\<close> with its connection.\<close>

definition admin_main :: "(string \<Rightarrow> bool) \<Rightarrow> admin \<Rightarrow> admin option" where
  "admin_main export_ok a = menu_loop export_ok (fst (recv_and_print a))"

section \<open>Steps on a working connection\<close>

lemma simple_calm:
  assumes "calm_writes (ad_sock a)" "s_in (ad_sock a) = bytes_of (r @ [NL]) @ rest" "NL \<notin> set r" "NUL \<notin> set r"
    "length r + 1 < BUFFER_SIZE * 2"
  shows "\<exists>s1. do_simple cmd a = (a\<lparr>ad_sock := s1, ad_out := ad_out a @ r @ [NL]\<rparr>, True) \<and> s_in s1 = rest \<and>
    s_out s1 = s_out (ad_sock a) @ bytes_of cmd \<and> calm_writes s1"
proof -
  obtain s0 where s0: "write_all (bytes_of cmd) (ad_sock a) = (s0, Some (length (bytes_of cmd)))"
    "s_out s0 = s_out (ad_sock a) @ bytes_of cmd" "s_in s0 = s_in (ad_sock a)" "calm_writes s0"
    by (rule write_all_calm [OF assms(1)])
  have "s_in s0 = bytes_of (r @ [NL]) @ rest" using s0(3) assms(2) by simp
  from read_line_printed [OF s0(4) this assms(3,5)] obtain s1 where
    s1: "read_line (BUFFER_SIZE * 2) s0 = (s1, Some (r @ [NL]))" "s_in s1 = rest" "s_out s1 = s_out s0" "calm_writes s1" .
  have "cstr (r @ [NL]) = r @ [NL]" by (rule cstr_id) (use assms(4) in simp)
  then show ?thesis
    using s0 s1 by (intro exI [of _ s1]) (simp add: do_simple_def send_cmd_def recv_and_print_def Let_def)
qed

lemma get_line_printed: "NL \<notin> set l \<Longrightarrow> length l < n \<Longrightarrow> get_line n (l @ NL # rest) = l @ [NL]"
proof (induction l arbitrary: n)
  case Nil
  then show ?case by (cases n) simp_all
next
  case (Cons c l)
  then show ?case by (cases n) auto
qed

lemma stdin_line:
  assumes "ad_stdin a = l @ NL # rest" "NL \<notin> set l" "NUL \<notin> set l" "length l + 1 < n"
  shows "read_line_stdin n a = (a\<lparr>ad_stdin := rest\<rparr>, l)"
proof -
  have "get_line (n - 1) (ad_stdin a) = l @ [NL]"
    unfolding assms(1) by (rule get_line_printed) (use assms(2,4) in auto)
  moreover have "cstr (l @ [NL]) = l @ [NL]" by (rule cstr_id) (use assms(3) in simp)
  ultimately show ?thesis using assms(1) by (simp add: read_line_stdin_def Let_def)
qed

lemma stdin_eof: "ad_stdin a = [] \<Longrightarrow> read_line_stdin n a = (a, [])"
  by (cases "n - 1") (simp_all add: read_line_stdin_def)

lemma atoi_udec: "n < 2 ^ 31 \<Longrightarrow> atoi (udec n) = int n"
  using strtol_udec [of n "[]"] by (simp add: atoi_def to_int_def signed_take_bit_int_eq_self)

lemma menu_needs_input:
  assumes "menu_loop export_ok a = Some a'"
  shows "ad_stdin a \<noteq> []"
proof (rule menu_loop.raw_induct [where P = "\<lambda>e a y. ad_stdin a \<noteq> []", OF _ assms])
  fix loop e a y
  assume "\<And>e a y. loop e a = Some y \<Longrightarrow> ad_stdin a \<noteq> []"
    "(case read_line_stdin 64 a of (a1, input) \<Rightarrow>
      if input = [] then loop e a1
      else case menu_choice e (atoi input) a1 of (a2, running) \<Rightarrow> if running then loop e a2 else Some a2) = Some y"
  then show "ad_stdin a \<noteq> []" using stdin_eof [of a 64] by auto
qed

text \<open>One round of the menu for a line that fits its buffer.\<close>

definition line_fits :: "nat \<Rightarrow> string \<Rightarrow> bool" where
  "line_fits n l \<longleftrightarrow> NL \<notin> set l \<and> NUL \<notin> set l \<and> length l + 1 < n"

lemma stdin_fits: "ad_stdin a = l @ NL # rest \<Longrightarrow> line_fits n l \<Longrightarrow> read_line_stdin n a = (a\<lparr>ad_stdin := rest\<rparr>, l)"
  by (rule stdin_line) (simp_all add: line_fits_def)

lemma menu_line:
  assumes "ad_stdin a = l @ NL # rest" "line_fits 64 l" "l \<noteq> []"
  shows "menu_loop export_ok a =
    (case menu_choice export_ok (atoi l) (a\<lparr>ad_stdin := rest\<rparr>) of (a2, running) \<Rightarrow>
       if running then menu_loop export_ok a2 else Some a2)"
  using stdin_fits [OF assms(1,2)] assms(3) by (subst menu_loop.simps) simp

text \<open>The command lines of the menu entries without argument.\<close>

definition simple_entry :: "nat \<Rightarrow> string option" where
  "simple_entry n = map_of [(1, ''STATS''), (2, ''LISTJOBS''), (3, ''HISTORY''), (4, ''LISTCLIENTS''), (5, ''AVGDURATION''),
     (10, ''PING''), (11, ''HELP'')] n"

definition clean_reply :: "string \<Rightarrow> bool" where
  "clean_reply r \<longleftrightarrow> NL \<notin> set r \<and> NUL \<notin> set r \<and> length r + 1 < BUFFER_SIZE * 2"

lemma plain_line: "plain_word c = Some v \<Longrightarrow> protocol_parse_line (v @ [NL]) = empty_request\<lparr>r_command := c\<rparr>"
proof -
  assume c: "plain_word c = Some v"
  then have "NUL \<notin> set v" "length v + 1 < BUFFER_SIZE" by (cases c; force simp: BUFFER_SIZE_def)+
  then show ?thesis using protocol_line parse_plain [OF c] by simp
qed

definition entry_command :: "nat \<Rightarrow> protocol_command option" where
  "entry_command n = map_of [(1, PROTO_CMD_STATS), (2, PROTO_CMD_LISTJOBS), (3, PROTO_CMD_HISTORY), (4, PROTO_CMD_LISTCLIENTS),
     (5, PROTO_CMD_AVGDURATION), (10, PROTO_CMD_PING), (11, PROTO_CMD_HELP)] n"

lemma entry_plain: "simple_entry n = Some v \<Longrightarrow> \<exists>c. entry_command n = Some c \<and> plain_word c = Some v"
  by (auto simp: simple_entry_def entry_command_def split: if_splits)

lemma simple_entry_parsed:
  "simple_entry n = Some v \<Longrightarrow> Some (protocol_parse_line (v @ [NL])) = map_option (\<lambda>c. empty_request\<lparr>r_command := c\<rparr>) (entry_command n)"
  using entry_plain [of n v] plain_line by fastforce

text \<open>
  C40: the end of the input hangs the console. At the end of file \<^verbatim>\<open>read_line_stdin\<close> leaves an empty line,
  which the menu loop skips: it prints its menu for ever and never returns.
\<close>

theorem menu_never_returns_at_eof:
  assumes "ad_stdin a = []"
  shows "menu_loop export_ok a = None"
  using menu_needs_input [of export_ok a] assms by (cases "menu_loop export_ok a") auto

theorem menu_never_returns_at_eof_witness:
  "menu_loop (\<lambda>d. True) \<lparr>ad_sock = \<lparr>s_in = [], s_out = [], s_sched = []\<rparr>, ad_stdin = [], ad_out = []\<rparr> = None"
  by (rule menu_never_returns_at_eof) simp

section \<open>Whole sessions\<close>

text \<open>
  What a user does at the menu: a line with the choice, and for the entries that ask for one a line with
  the argument; \<open>e_reply\<close> is what the server answers if something is sent.
\<close>

record entry =
  e_choice :: string
  e_arg :: string
  e_reply :: string

text \<open>The menu as it is printed: what an entry sends.\<close>

definition plain_entries :: "(int \<times> string) list" where
  "plain_entries = [(1, ''STATS''), (2, ''LISTJOBS''), (3, ''HISTORY''), (4, ''LISTCLIENTS''), (5, ''AVGDURATION''),
     (10, ''PING''), (11, ''HELP'')]"

definition argument_entries :: "(int \<times> string) list" where
  "argument_entries = [(6, ''CANCEL ''), (7, ''KICK ''), (8, ''BLOCKIP ''), (9, ''UNBLOCKIP ''), (12, '''')]"

definition asks_argument :: "int \<Rightarrow> bool" where
  "asks_argument n \<longleftrightarrow> n \<in> {6, 7, 8, 9, 12, 13}"

definition entry_typed :: "entry \<Rightarrow> string" where
  "entry_typed e = e_choice e @ [NL] @ (if e_choice e \<noteq> [] \<and> asks_argument (atoi (e_choice e)) then e_arg e @ [NL] else [])"

definition entry_sends :: "entry \<Rightarrow> string option" where
  "entry_sends e =
     (if e_choice e = [] then None
      else case map_of plain_entries (atoi (e_choice e)) of Some v \<Rightarrow> Some v
      | None \<Rightarrow> (case map_of argument_entries (atoi (e_choice e)) of
            Some v \<Rightarrow> if e_arg e = [] then None else Some (v @ e_arg e) | None \<Rightarrow> None))"

definition entry_sent :: "entry \<Rightarrow> bytes" where
  "entry_sent e = (case entry_sends e of None \<Rightarrow> [] | Some l \<Rightarrow> bytes_of (l @ [NL]))"

definition entry_answer :: "entry \<Rightarrow> string" where
  "entry_answer e = (case entry_sends e of None \<Rightarrow> [] | Some l \<Rightarrow> e_reply e @ [NL])"

text \<open>Lines that fit the buffers they are read into, no choice of 0, and an archive that can be made.\<close>

definition entry_ok :: "(string \<Rightarrow> bool) \<Rightarrow> entry \<Rightarrow> bool" where
  "entry_ok export_ok e \<longleftrightarrow> line_fits 64 (e_choice e) \<and> (e_choice e \<noteq> [] \<longrightarrow> atoi (e_choice e) \<noteq> 0) \<and>
     line_fits (if atoi (e_choice e) = 12 then BUFFER_SIZE else 256) (e_arg e) \<and>
     (atoi (e_choice e) = 13 \<and> e_arg e \<noteq> [] \<longrightarrow> export_ok (e_arg e)) \<and> clean_reply (e_reply e)"

lemma argument_calm:
  assumes "calm_writes (ad_sock a)" "ad_stdin a = arg @ NL # typed" "line_fits 256 arg" "clean_reply r" "length verb < 16" "NUL \<notin> set verb"
    and "s_in (ad_sock a) = bytes_of (if arg = [] then [] else r @ [NL]) @ rest"
  shows "\<exists>s1. do_with_arg verb a =
      (a\<lparr>ad_stdin := typed, ad_sock := s1, ad_out := ad_out a @ (if arg = [] then [] else r @ [NL])\<rparr>, True) \<and> s_in s1 = rest \<and>
    s_out s1 = s_out (ad_sock a) @ bytes_of (if arg = [] then [] else verb @ '' '' @ arg @ [NL]) \<and> calm_writes s1"
proof -
  let ?a1 = "a\<lparr>ad_stdin := typed\<rparr>"
  have rd: "read_line_stdin 256 a = (?a1, arg)" by (rule stdin_fits [OF assms(2,3)])
  show ?thesis
  proof (cases "arg = []")
    case True
    then show ?thesis
      using rd assms(1,7) by (intro exI [of _ "ad_sock a"]) (simp add: do_with_arg_def prompt_nonempty_def bytes_of_def)
  next
    case False
    have l: "snprintf_s 512 (verb @ '' '' @ arg @ [NL]) = verb @ '' '' @ arg @ [NL]"
      by (rule snprintf_s_id) (use assms(3,5,6) in \<open>auto simp: line_fits_def\<close>)
    have "do_with_arg verb a = do_simple (verb @ '' '' @ arg @ [NL]) ?a1"
      using rd False l by (simp add: do_with_arg_def prompt_nonempty_def do_simple_def)
    then show ?thesis
      using simple_calm [of ?a1 r rest "verb @ '' '' @ arg @ [NL]"] assms(1,4,7) False by (auto simp: clean_reply_def)
  qed
qed

lemma raw_calm:
  assumes "calm_writes (ad_sock a)" "ad_stdin a = arg @ NL # typed" "line_fits BUFFER_SIZE arg" "clean_reply r"
    and "s_in (ad_sock a) = bytes_of (if arg = [] then [] else r @ [NL]) @ rest"
  shows "\<exists>s1. do_raw a = (a\<lparr>ad_stdin := typed, ad_sock := s1, ad_out := ad_out a @ (if arg = [] then [] else r @ [NL])\<rparr>, True) \<and>
    s_in s1 = rest \<and> s_out s1 = s_out (ad_sock a) @ bytes_of (if arg = [] then [] else arg @ [NL]) \<and> calm_writes s1"
proof -
  let ?a1 = "a\<lparr>ad_stdin := typed\<rparr>"
  have rd: "read_line_stdin BUFFER_SIZE a = (?a1, arg)" by (rule stdin_fits [OF assms(2,3)])
  show ?thesis
  proof (cases "arg = []")
    case True
    then show ?thesis
      using rd assms(1,5) by (intro exI [of _ "ad_sock a"]) (simp add: do_raw_def prompt_nonempty_def bytes_of_def)
  next
    case False
    have l: "snprintf_s (BUFFER_SIZE + 2) (arg @ [NL]) = arg @ [NL]"
      by (rule snprintf_s_id) (use assms(3) in \<open>auto simp: line_fits_def\<close>)
    have "do_raw a = do_simple (arg @ [NL]) ?a1"
      using rd False l by (simp add: do_raw_def prompt_nonempty_def do_simple_def)
    then show ?thesis
      using simple_calm [of ?a1 r rest "arg @ [NL]"] assms(1,4,5) False by (auto simp: clean_reply_def)
  qed
qed

text \<open>The \<^verbatim>\<open>switch\<close>, entry by entry.\<close>

lemma choice_plain: "map_of plain_entries n = Some v \<Longrightarrow> menu_choice export_ok n a = do_simple (v @ [NL]) a \<and> \<not> asks_argument n"
  by (auto simp: plain_entries_def menu_choice_def asks_argument_def split: if_splits)

lemma choice_argument:
  assumes "map_of argument_entries n = Some v" "n \<noteq> 12"
  obtains verb where "v = verb @ '' ''" "menu_choice export_ok n a = do_with_arg verb a" "asks_argument n" "length verb < 16"
    "NUL \<notin> set verb" "map_of plain_entries n = None" "n \<noteq> 13"
  using assms by (auto simp: argument_entries_def plain_entries_def menu_choice_def asks_argument_def split: if_splits)

lemma choice_special:
  "menu_choice export_ok 12 a = do_raw a" "menu_choice export_ok 13 a = do_export_logs export_ok a"
  "map_of plain_entries 12 = None" "map_of plain_entries 13 = None" "map_of argument_entries 12 = Some ''''"
  "map_of argument_entries 13 = None" "asks_argument 12" "asks_argument 13"
  by (simp_all add: menu_choice_def plain_entries_def argument_entries_def asks_argument_def)

lemma choice_other:
  "map_of plain_entries n = None \<Longrightarrow> map_of argument_entries n = None \<Longrightarrow> n \<noteq> 13 \<Longrightarrow> n \<noteq> 0 \<Longrightarrow>
     menu_choice export_ok n a = (a, True) \<and> \<not> asks_argument n"
  by (auto simp: plain_entries_def argument_entries_def menu_choice_def asks_argument_def split: if_splits)

lemma entry_round:
  assumes ok: "entry_ok export_ok e" "calm_writes (ad_sock a)"
    and io: "ad_stdin a = entry_typed e @ typed" "s_in (ad_sock a) = bytes_of (entry_answer e) @ rest"
  shows "\<exists>s1. menu_loop export_ok a = menu_loop export_ok (a\<lparr>ad_stdin := typed, ad_sock := s1, ad_out := ad_out a @ entry_answer e\<rparr>) \<and>
    s_in s1 = rest \<and> s_out s1 = s_out (ad_sock a) @ entry_sent e \<and> calm_writes s1"
proof -
  let ?c = "e_choice e" and ?n = "atoi (e_choice e)" and ?r = "e_reply e"
  let ?left = "(if ?c \<noteq> [] \<and> asks_argument ?n then e_arg e @ [NL] else []) @ typed"
  let ?a1 = "a\<lparr>ad_stdin := ?left\<rparr>"
  note e_ok = ok(1) [unfolded entry_ok_def]
  have in0: "ad_stdin a = ?c @ NL # ?left" using io(1) by (simp add: entry_typed_def)
  show ?thesis
  proof (cases "?c = []")
    case True
    then have silent: "entry_sends e = None" by (simp add: entry_sends_def)
    have "read_line_stdin 64 a = (?a1, ?c)" using stdin_fits [OF in0] e_ok by simp
    then have "menu_loop export_ok a = menu_loop export_ok (a\<lparr>ad_stdin := typed\<rparr>)" using True by (subst menu_loop.simps) simp
    moreover have none: "entry_answer e = []" "entry_sent e = []" unfolding entry_answer_def entry_sent_def silent by simp_all
    ultimately show ?thesis
      using io(2) ok(2) unfolding none by (intro exI [of _ "ad_sock a"]) (simp add: bytes_of_def)
  next
    case ne: False
    have loop: "menu_loop export_ok a = (case menu_choice export_ok ?n ?a1 of (a2, running) \<Rightarrow>
        if running then menu_loop export_ok a2 else Some a2)"
      by (rule menu_line [OF in0]) (use e_ok ne in simp_all)
    consider (plain) v where "map_of plain_entries ?n = Some v" | (verb) v where "map_of argument_entries ?n = Some v" "?n \<noteq> 12"
      | (raw) "?n = 12" | (export) "?n = 13"
      | (other) "map_of plain_entries ?n = None" "map_of argument_entries ?n = None" "?n \<noteq> 13"
      by (cases "map_of plain_entries ?n"; cases "map_of argument_entries ?n") auto
    then show ?thesis
    proof cases
      case plain
      note ch = choice_plain [OF plain, of export_ok ?a1]
      have sends: "entry_sends e = Some v" using plain ne by (simp add: entry_sends_def)
      show ?thesis
        using simple_calm [of ?a1 ?r rest "v @ [NL]"] ok(2) io(2) e_ok ch loop sends
        by (auto simp: entry_answer_def entry_sent_def clean_reply_def)
    next
      case (verb v)
      obtain word where ch: "v = word @ '' ''" "menu_choice export_ok ?n ?a1 = do_with_arg word ?a1" "asks_argument ?n" "length word < 16"
        "NUL \<notin> set word" "map_of plain_entries ?n = None" "?n \<noteq> 13" by (rule choice_argument [OF verb])
      have sends: "entry_sends e = (if e_arg e = [] then None else Some (v @ e_arg e))"
        using verb(1) ch(6) ne by (simp add: entry_sends_def)
      have "line_fits 256 (e_arg e)" using e_ok verb(2) by simp
      then show ?thesis
        using argument_calm [of ?a1 "e_arg e" typed ?r word rest] ok(2) io(2) e_ok ch loop sends ne
        by (auto simp: entry_answer_def entry_sent_def bytes_of_def split: if_splits)
    next
      case raw
      have sends: "entry_sends e = (if e_arg e = [] then None else Some (e_arg e))"
        using ne by (simp add: entry_sends_def raw choice_special)
      have "line_fits BUFFER_SIZE (e_arg e)" using e_ok raw by simp
      then show ?thesis
        using raw_calm [of ?a1 "e_arg e" typed ?r rest] ok(2) io(2) e_ok loop sends ne
        by (auto simp: raw choice_special entry_answer_def entry_sent_def bytes_of_def split: if_splits)
    next
      case export
      have silent: "entry_sends e = None" using ne by (simp add: entry_sends_def export choice_special)
      have fits: "line_fits 256 (e_arg e)" using e_ok export by simp
      have in1: "ad_stdin ?a1 = e_arg e @ NL # typed" using ne by (simp add: export choice_special)
      have "do_export_logs export_ok ?a1 = (a\<lparr>ad_stdin := typed\<rparr>, True)"
        using stdin_fits [OF in1 fits] e_ok by (simp add: do_export_logs_def prompt_nonempty_def export)
      then show ?thesis
        using loop io(2) ok(2) silent
        by (intro exI [of _ "ad_sock a"]) (simp add: export choice_special entry_sent_def entry_answer_def bytes_of_def)
    next
      case other
      have "?n \<noteq> 0" using e_ok ne by simp
      note ch = choice_other [OF other this]
      have silent: "entry_sends e = None" using other by (simp add: entry_sends_def)
      have "menu_loop export_ok a = menu_loop export_ok (a\<lparr>ad_stdin := typed\<rparr>)"
        unfolding loop using ch [of export_ok] by simp
      then show ?thesis
        using io(2) ok(2) silent
        by (intro exI [of _ "ad_sock a"]) (simp add: entry_sent_def entry_answer_def bytes_of_def)
    qed
  qed
qed

text \<open>
  C31: a console session does what the menu says. For any series of choices, with their arguments, that
  fit the buffers they are read into (every entry of the menu, empty lines, numbers that are not on the
  menu, arguments left empty), ended by a line that reads as 0, the menu loop returns. It has sent
  exactly the commands of the chosen entries, with the arguments as typed, and \<^verbatim>\<open>QUIT\<close>, in order; an empty
  argument cancels its entry, and the entry that archives the logs sends nothing. It has printed exactly
  the replies, and read nothing beyond its own input and replies.
\<close>

theorem console_session_transcript:
  assumes "list_all (entry_ok export_ok) es" "clean_reply bye"
    and quit: "line_fits 64 q" "q \<noteq> []" "atoi q = 0"
    and "ad_stdin a = concat (map entry_typed es) @ q @ NL # left" "calm_writes (ad_sock a)"
    and "s_in (ad_sock a) = concat (map (\<lambda>e. bytes_of (entry_answer e)) es) @ bytes_of (bye @ [NL]) @ rest"
  shows "\<exists>a'. menu_loop export_ok a = Some a' \<and> ad_stdin a' = left \<and> s_in (ad_sock a') = rest \<and>
    s_out (ad_sock a') = s_out (ad_sock a) @ concat (map entry_sent es) @ bytes_of (''QUIT'' @ [NL]) \<and>
    ad_out a' = ad_out a @ concat (map entry_answer es) @ bye @ [NL]"
  using assms(1,6-)
proof (induction es arbitrary: a)
  case Nil
  let ?a1 = "a\<lparr>ad_stdin := left\<rparr>"
  obtain s1 where s1: "do_simple (''QUIT'' @ [NL]) ?a1 = (?a1\<lparr>ad_sock := s1, ad_out := ad_out a @ bye @ [NL]\<rparr>, True)"
    "s_in s1 = rest" "s_out s1 = s_out (ad_sock a) @ bytes_of (''QUIT'' @ [NL])"
    using simple_calm [of ?a1 bye rest "''QUIT'' @ [NL]"] Nil assms(2) by (auto simp: clean_reply_def)
  have "menu_loop export_ok a = Some (fst (do_simple (''QUIT'' @ [NL]) ?a1))"
    using menu_line [of a q left export_ok] Nil(2) quit by (simp add: menu_choice_def)
  then show ?case using s1 by (simp del: append_Cons)
next
  case (Cons e es)
  let ?typed = "concat (map entry_typed es) @ q @ NL # left"
  let ?rest = "concat (map (\<lambda>e. bytes_of (entry_answer e)) es) @ bytes_of (bye @ [NL]) @ rest"
  obtain s1 where s1: "menu_loop export_ok a =
      menu_loop export_ok (a\<lparr>ad_stdin := ?typed, ad_sock := s1, ad_out := ad_out a @ entry_answer e\<rparr>)"
    "s_in s1 = ?rest" "s_out s1 = s_out (ad_sock a) @ entry_sent e" "calm_writes s1"
    using entry_round [of export_ok e a ?typed ?rest] Cons.prems by auto
  show ?case
    unfolding s1(1)
    using Cons.IH [of "a\<lparr>ad_stdin := ?typed, ad_sock := s1, ad_out := ad_out a @ entry_answer e\<rparr>"] Cons.prems(1) s1(2-4)
    by simp
qed

definition demo_entries :: "entry list" where
  "demo_entries = [\<lparr>e_choice = ''6'', e_arg = ''4'', e_reply = ''OK cancel requested 4''\<rparr>, \<lparr>e_choice = '''', e_arg = '''', e_reply = ''''\<rparr>,
     \<lparr>e_choice = ''10'', e_arg = '''', e_reply = ''PONG''\<rparr>, \<lparr>e_choice = ''7'', e_arg = '''', e_reply = ''''\<rparr>,
     \<lparr>e_choice = ''99'', e_arg = '''', e_reply = ''''\<rparr>]"

definition demo_admin :: admin where
  "demo_admin = \<lparr>ad_sock = \<lparr>s_in = concat (map (\<lambda>e. bytes_of (entry_answer e)) demo_entries) @ bytes_of (''BYE'' @ [NL]), s_out = [],
       s_sched = [Io_eintr]\<rparr>, ad_stdin = concat (map entry_typed demo_entries) @ ''0'' @ [NL], ad_out = []\<rparr>"

lemma demo_numbers: "atoi ''6'' = 6" "atoi ''10'' = 10" "atoi ''7'' = 7" "atoi ''99'' = 99" "atoi ''0'' = 0" "atoi '''' = 0"
  by (simp_all add: atoi_def strtol_def isspace_def isdigit_def digits_val_def digit_val_def to_int_def Let_def
      signed_take_bit_int_eq_self)

theorem console_session_transcript_witness:
  "\<exists>a'. menu_loop (\<lambda>d. True) demo_admin = Some a' \<and>
     s_out (ad_sock a') = bytes_of (''CANCEL 4'' @ [NL]) @ bytes_of (''PING'' @ [NL]) @ bytes_of (''QUIT'' @ [NL]) \<and>
     ad_out a' = ''OK cancel requested 4'' @ [NL] @ ''PONG'' @ [NL] @ ''BYE'' @ [NL]"
proof -
  have "list_all (entry_ok (\<lambda>d. True)) demo_entries" "clean_reply ''BYE''" "line_fits 64 ''0''" "''0'' \<noteq> ''''" "atoi ''0'' = 0"
    "ad_stdin demo_admin = concat (map entry_typed demo_entries) @ ''0'' @ NL # []" "calm_writes (ad_sock demo_admin)"
    "s_in (ad_sock demo_admin) = concat (map (\<lambda>e. bytes_of (entry_answer e)) demo_entries) @ bytes_of (''BYE'' @ [NL]) @ []"
    by (simp_all add: demo_entries_def entry_ok_def line_fits_def demo_numbers clean_reply_def demo_admin_def calm_writes_def BUFFER_SIZE_def)
  from console_session_transcript [OF this] obtain a' where
    a': "menu_loop (\<lambda>d. True) demo_admin = Some a'"
      "s_out (ad_sock a') = s_out (ad_sock demo_admin) @ concat (map entry_sent demo_entries) @ bytes_of (''QUIT'' @ [NL])"
      "ad_out a' = ad_out demo_admin @ concat (map entry_answer demo_entries) @ ''BYE'' @ [NL]" by blast
  have "map entry_sent demo_entries = [bytes_of (''CANCEL 4'' @ [NL]), [], bytes_of (''PING'' @ [NL]), [], []]"
    "map entry_answer demo_entries = [''OK cancel requested 4'' @ [NL], [], ''PONG'' @ [NL], [], []]"
    by (simp_all add: demo_entries_def entry_sent_def entry_answer_def entry_sends_def demo_numbers plain_entries_def argument_entries_def)
  then show ?thesis using a' by (intro exI [of _ a']) (simp add: demo_admin_def)
qed

text \<open>
  The server understands the console. An entry without argument is parsed as the command of its
  name, and an argument typed at the prompt of an entry arrives unchanged as the argument of the
  command chosen, with the reply printed.
\<close>

theorem console_commands_understood:
  assumes "text_word cmd = Some (verb @ '' '')" "verb \<in> {''KICK'', ''BLOCKIP'', ''UNBLOCKIP''}"
    and "ad_stdin a = arg @ NL # left" "arg \<noteq> []" "NL \<notin> set arg" "NUL \<notin> set arg" "length arg < 255"
    and "calm_writes (ad_sock a)" "s_in (ad_sock a) = bytes_of (r @ [NL]) @ rest" "clean_reply r"
    and "simple_entry n = Some v"
  shows "Some (protocol_parse_line (v @ [NL])) = map_option (\<lambda>c. empty_request\<lparr>r_command := c\<rparr>) (entry_command n) \<and>
    (\<exists>a'. do_with_arg verb a = (a', True) \<and> ad_stdin a' = left \<and> ad_out a' = ad_out a @ r @ [NL] \<and>
    s_out (ad_sock a') = s_out (ad_sock a) @ bytes_of ((verb @ '' '' @ arg) @ [NL]) \<and>
    protocol_parse_line ((verb @ '' '' @ arg) @ [NL]) = empty_request\<lparr>r_command := cmd, r_argument1 := arg\<rparr>)"
proof -
  let ?l = "verb @ '' '' @ arg"
  have l: "NUL \<notin> set ?l" "length ?l + 1 < BUFFER_SIZE" "length ?l + 1 < 512"
    using assms(2,6,7) by (auto simp: BUFFER_SIZE_def)
  have "wire_line (W_text cmd arg) = Some ?l" using assms(1) by simp
  then have parsed: "protocol_parse_line (?l @ [NL]) = empty_request\<lparr>r_command := cmd, r_argument1 := arg\<rparr>"
    using protocol_line [OF l(1,2)] parse_wire [of "W_text cmd arg" ?l] l(1,2) by simp
  have cmd: "snprintf_s 512 (?l @ [NL]) = ?l @ [NL]" by (rule snprintf_s_id) (use l(1,3) in auto)
  let ?a1 = "a\<lparr>ad_stdin := left\<rparr>"
  have "read_line_stdin 256 a = (?a1, arg)" by (rule stdin_line [OF assms(3,5,6)]) (use assms(7) in simp)
  then have "do_with_arg verb a = do_simple (?l @ [NL]) ?a1"
    using assms(4) cmd by (simp add: do_with_arg_def prompt_nonempty_def do_simple_def)
  then show ?thesis
    using simple_calm [of ?a1 r rest "?l @ [NL]"] assms(8-10) parsed simple_entry_parsed [OF assms(11)] by (auto simp: clean_reply_def)
qed

theorem console_commands_understood_witness:
  "protocol_parse_line ((''KICK'' @ '' '' @ ''9'') @ [NL]) = empty_request\<lparr>r_command := PROTO_CMD_KICK, r_argument1 := ''9''\<rparr>"
proof -
  let ?a = "\<lparr>ad_sock = \<lparr>s_in = bytes_of (''OK'' @ [NL]) @ [], s_out = [], s_sched = []\<rparr>, ad_stdin = ''9'' @ NL # [], ad_out = []\<rparr>"
  have "text_word PROTO_CMD_KICK = Some (''KICK'' @ '' '')" "ad_stdin ?a = ''9'' @ NL # []" "calm_writes (ad_sock ?a)"
    "s_in (ad_sock ?a) = bytes_of (''OK'' @ [NL]) @ []" "clean_reply ''OK''"
    "simple_entry 1 = Some ''STATS''"
    by (simp_all add: calm_writes_def clean_reply_def BUFFER_SIZE_def simple_entry_def)
  with console_commands_understood [of PROTO_CMD_KICK "''KICK''" ?a "''9''" "[]" "''OK''" "[]"] show ?thesis by auto
qed

end
