(* ===== verification/Pool.thy ===== *)
theory Pool
  imports Server
begin

text \<open>
  The server thread and its workers together, as a step relation. A step of the server thread is one
  accepted connection, one client command or the closing of kicked clients; a step of a worker is
  the part of its round before (\<open>worker_take\<close>) or after (\<open>worker_finish\<close>) the moment the job runs.
  \<open>p_busy\<close> tells which job each of the workers runs.
\<close>

section \<open>The step relation\<close>

record pool =
  p_world :: world
  p_busy :: "nat \<Rightarrow> nat option"

definition pool_job :: "pool \<Rightarrow> nat \<Rightarrow> job" where
  "pool_job s p = tbl_jobs (w_jobs (p_world s)) ! p"

definition pool_size :: "pool \<Rightarrow> nat" where
  "pool_size s = length (tbl_jobs (w_jobs (p_world s)))"

text \<open>The world with job \<open>p\<close> replaced.\<close>

definition put_job :: "nat \<Rightarrow> job \<Rightarrow> world \<Rightarrow> world" where
  "put_job p j w = w\<lparr>w_jobs := upd_job (w_jobs w) p (\<lambda>_. j)\<rparr>"

text \<open>A descriptor returned by \<^verbatim>\<open>accept\<close> is one that was closed before.\<close>

definition fresh_conn :: "(int \<times> sock) option \<Rightarrow> world \<Rightarrow> bool" where
  "fresh_conn conn w \<longleftrightarrow> (case conn of None \<Rightarrow> True | Some (fd, s) \<Rightarrow> w_socks w fd = None)"

inductive server_step :: "world \<Rightarrow> world \<Rightarrow> bool" where
  ss_user: "fresh_conn conn w \<Longrightarrow>
     server_step w (fst (accept_new_inet_connection now conn ntop CLIENT_TYPE_USER False w))"
| ss_admin: "fresh_conn conn w \<Longrightarrow>
     server_step w (fst (accept_new_inet_connection now conn ntop CLIENT_TYPE_ADMIN True w))"
| ss_unix: "fresh_conn conn w \<Longrightarrow> server_step w (fst (accept_new_unix_connection now conn w))"
| ss_command: "fresh_node se (w_queue w) \<Longrightarrow> server_step w (handle_client_command se i w)"
| ss_close: "server_step w (close_client i w)"

text \<open>
  A worker's run is one step from the running job to its end. While it runs the server thread may
  request a cancellation, so the polls of the run see requests only when the flag is set by then, and
  the flag itself stays as the server thread left it.
\<close>

inductive worker_step :: "nat \<Rightarrow> pool \<Rightarrow> pool \<Rightarrow> bool" for n where
  ws_take: "i < n \<Longrightarrow> p_busy s i = None \<Longrightarrow> pop_step (w_queue (p_world s)) p q \<Longrightarrow>
     worker_take we (pool_job s p) = (j1, None) \<Longrightarrow>
     worker_step n s \<lparr>p_world = put_job p j1 ((p_world s)\<lparr>w_queue := q\<rparr>), p_busy = (p_busy s)(i \<mapsto> p)\<rparr>"
| ws_skip: "i < n \<Longrightarrow> p_busy s i = None \<Longrightarrow> pop_step (w_queue (p_world s)) p q \<Longrightarrow>
     worker_take we (pool_job s p) = (j1, Some ev) \<Longrightarrow>
     worker_step n s \<lparr>p_world = put_job p j1 ((p_world s)\<lparr>w_queue := q\<rparr>), p_busy = p_busy s\<rparr>"
| ws_finish: "p_busy s i = Some p \<Longrightarrow> (\<And>k. we_cancel we k \<Longrightarrow> j_cancel_requested (pool_job s p)) \<Longrightarrow>
     worker_finish we (w_fs (p_world s)) ((pool_job s p)\<lparr>j_cancel_requested := False\<rparr>) = (fs1, j1, ev) \<Longrightarrow>
     worker_step n s \<lparr>p_world = put_job p (j1\<lparr>j_cancel_requested := j_cancel_requested (pool_job s p)\<rparr>)
         ((p_world s)\<lparr>w_fs := fs1\<rparr>), p_busy = (p_busy s)(i := None)\<rparr>"

inductive pool_step :: "nat \<Rightarrow> pool \<Rightarrow> pool \<Rightarrow> bool" for n where
  ps_server: "server_step (p_world s) w \<Longrightarrow> pool_step n s (s\<lparr>p_world := w\<rparr>)"
| ps_worker: "worker_step n s s' \<Longrightarrow> pool_step n s s'"
| ps_stop: "pool_step n s (s\<lparr>p_world := (p_world s)\<lparr>w_queue := job_queue_stop (w_queue (p_world s))\<rparr>\<rparr>)"

inductive_cases server_stepE: "server_step w w'"
inductive_cases worker_stepE: "worker_step n s s'"
inductive_cases pool_stepE: "pool_step n s s'"

text \<open>The state in which \<^verbatim>\<open>server_run\<close> enters its loop.\<close>

inductive pool_start :: "pool \<Rightarrow> bool" where
  "job_table_init mutex_ok = Some t \<Longrightarrow> job_queue_init True True = Some q \<Longrightarrow> blocklist_init True = Some bl \<Longrightarrow>
   pool_start \<lparr>p_world = \<lparr>w_socks = socks, w_clients = replicate MAX_CLIENTS free_session, w_blocklist = bl, w_jobs = t,
     w_queue = q, w_fs = fs\<rparr>, p_busy = Map.empty\<rparr>"

inductive pool_reach :: "nat \<Rightarrow> pool \<Rightarrow> bool" for n where
  pr_start: "pool_start s \<Longrightarrow> pool_reach n s"
| pr_step: "pool_reach n s \<Longrightarrow> pool_step n s s' \<Longrightarrow> pool_reach n s'"

section \<open>The invariant\<close>

text \<open>
  Every job is in one place: it waits in the queue, or one worker runs it, or it is finished. The
  list \<open>waiting\<close> is what the queue holds.
\<close>

definition in_state_set :: "job_state \<Rightarrow> job list \<Rightarrow> nat set" where
  "in_state_set st js = {p. p < length js \<and> j_state (js ! p) = st}"

definition jobs_placed :: "nat \<Rightarrow> job list \<Rightarrow> nat list \<Rightarrow> (nat \<Rightarrow> nat option) \<Rightarrow> bool" where
  "jobs_placed n js waiting busy \<longleftrightarrow>
     distinct waiting \<and> set waiting = in_state_set JOB_STATE_QUEUED js \<and>
     ran busy = in_state_set JOB_STATE_RUNNING js \<and> inj_on busy (dom busy) \<and> dom busy \<subseteq> {..< n}"

definition pool_ok :: "nat \<Rightarrow> pool \<Rightarrow> bool" where
  "pool_ok n s \<longleftrightarrow> table_ok (w_jobs (p_world s)) \<and> sessions_ok (p_world s) \<and>
     (\<exists>waiting. queue_holds (w_queue (p_world s)) waiting \<and>
        jobs_placed n (tbl_jobs (w_jobs (p_world s))) waiting (p_busy s))"

lemma pool_okI:
  "table_ok (w_jobs (p_world s)) \<Longrightarrow> sessions_ok (p_world s) \<Longrightarrow> queue_holds (w_queue (p_world s)) waiting \<Longrightarrow>
     jobs_placed n (tbl_jobs (w_jobs (p_world s))) waiting (p_busy s) \<Longrightarrow> pool_ok n s"
  by (auto simp: pool_ok_def)

subsection \<open>Moving jobs\<close>

lemma finished_states: "finished st \<longleftrightarrow> st \<noteq> JOB_STATE_QUEUED \<and> st \<noteq> JOB_STATE_RUNNING"
  by (cases st) (simp_all add: finished_def)

lemma in_state_update:
  "p < length js \<Longrightarrow> in_state_set st (js[p := j]) =
     (if j_state j = st then insert p (in_state_set st js) else in_state_set st js - {p})"
  by (auto simp: in_state_set_def nth_list_update)

lemma in_state_append:
  "in_state_set st (js @ [j]) = (if j_state j = st then insert (length js) (in_state_set st js) else in_state_set st js)"
  by (auto simp: in_state_set_def nth_append less_Suc_eq)

lemma in_state_disjoint: "p \<in> in_state_set st js \<Longrightarrow> st \<noteq> st' \<Longrightarrow> p \<notin> in_state_set st' js"
  by (simp add: in_state_set_def)

lemma placed_take:
  assumes "jobs_placed n js (p # waiting) busy" "i < n" "busy i = None" "j_state j = JOB_STATE_RUNNING"
  shows "jobs_placed n (js[p := j]) waiting (busy(i \<mapsto> p))"
proof -
  have p: "p \<in> in_state_set JOB_STATE_QUEUED js" using assms(1) by (auto simp: jobs_placed_def)
  then have "p < length js" "p \<notin> ran busy"
    using assms(1) in_state_disjoint [OF p] by (auto simp: in_state_set_def jobs_placed_def)
  moreover from this(2) have "inj_on (busy(i \<mapsto> p)) (dom (busy(i \<mapsto> p)))"
    using assms(1) by (auto simp: jobs_placed_def inj_on_def ran_def dom_def)
  moreover have "set waiting = in_state_set JOB_STATE_QUEUED js - {p}"
    using assms(1) by (auto simp: jobs_placed_def)
  ultimately show ?thesis
    using assms by (auto simp: jobs_placed_def in_state_update)
qed

lemma placed_skip:
  assumes "jobs_placed n js (p # waiting) busy" "finished (j_state j)"
  shows "jobs_placed n (js[p := j]) waiting busy"
proof -
  have p: "p \<in> in_state_set JOB_STATE_QUEUED js" using assms(1) by (auto simp: jobs_placed_def)
  then have "p < length js" "p \<notin> in_state_set JOB_STATE_RUNNING js" by (auto simp: in_state_set_def)
  moreover have "set waiting = in_state_set JOB_STATE_QUEUED js - {p}"
    using assms(1) by (auto simp: jobs_placed_def)
  ultimately show ?thesis
    using assms by (auto simp: jobs_placed_def in_state_update finished_states)
qed

lemma placed_finish:
  assumes "jobs_placed n js waiting busy" "busy i = Some p" "finished (j_state j)"
  shows "jobs_placed n (js[p := j]) waiting (busy(i := None))"
proof -
  have i: "k = i" if "busy k = Some p" for k
    using assms(1,2) that by (auto simp: jobs_placed_def inj_on_def dom_def)
  have "p \<in> in_state_set JOB_STATE_RUNNING js"
    using assms(1,2) by (auto simp: jobs_placed_def intro: ranI)
  then have p: "p < length js" "p \<notin> in_state_set JOB_STATE_QUEUED js" by (auto simp: in_state_set_def)
  have "ran (busy(i := None)) = ran busy - {p}"
  proof (intro set_eqI iffI)
    fix q
    assume "q \<in> ran (busy(i := None))"
    then obtain k where "k \<noteq> i" "busy k = Some q" by (auto simp: ran_def split: if_splits)
    then show "q \<in> ran busy - {p}" using i by (auto intro: ranI)
  next
    fix q
    assume "q \<in> ran busy - {p}"
    then obtain k where "busy k = Some q" "q \<noteq> p" by (auto simp: ran_def)
    then have "(busy(i := None)) k = Some q" using assms(2) by auto
    then show "q \<in> ran (busy(i := None))" by (rule ranI)
  qed
  moreover have "inj_on (busy(i := None)) (dom (busy(i := None)))" "dom (busy(i := None)) \<subseteq> {..< n}"
    using assms(1) by (auto simp: jobs_placed_def inj_on_def dom_def)
  moreover have "j_state j \<noteq> JOB_STATE_QUEUED" "j_state j \<noteq> JOB_STATE_RUNNING"
    using assms(3) by (simp_all add: finished_states)
  ultimately show ?thesis
    using assms(1) p by (simp add: jobs_placed_def in_state_update)
qed

lemma placed_push:
  assumes "jobs_placed n js waiting busy" "j_state j = JOB_STATE_QUEUED"
  shows "jobs_placed n (js @ [j]) (waiting @ [length js]) busy"
  using assms by (auto simp: jobs_placed_def in_state_append) (simp add: in_state_set_def)

lemma placed_fail:
  assumes "jobs_placed n js waiting busy" "j_state j = JOB_STATE_FAILED"
  shows "jobs_placed n (js @ [j]) waiting busy"
  using assms by (simp add: jobs_placed_def in_state_append)

lemma placed_same_state:
  assumes "jobs_placed n js waiting busy" "j_state j = j_state (js ! p)"
  shows "jobs_placed n (js[p := j]) waiting busy"
proof -
  have "in_state_set st (js[p := j]) = in_state_set st js" for st
    using assms(2) by (cases "p < length js") (auto simp: in_state_set_def nth_list_update)
  then show ?thesis using assms(1) by (simp add: jobs_placed_def)
qed

lemma cancel_state [simp]: "j_state (fst (job_request_cancel j)) = j_state j"
  by (simp add: job_request_cancel_def)

text \<open>What a command does to the jobs keeps the table, the queue and the places.\<close>

lemma jobs_step_keeps:
  assumes "jobs_step t q t' q'" "table_ok t" "queue_holds q waiting" "jobs_placed n (tbl_jobs t) waiting busy"
  shows "table_ok t' \<and> (\<exists>waiting'. queue_holds q' waiting' \<and> jobs_placed n (tbl_jobs t') waiting' busy)"
  using assms(1)
proof (cases rule: jobs_step.cases)
  case (js_cancel p)
  have "jobs_placed n (tbl_jobs t') waiting busy"
    using placed_same_state [OF assms(4), of "fst (job_request_cancel (tbl_jobs t ! p))" p] js_cancel
    by (simp add: upd_job_def)
  then show ?thesis
    using js_cancel assms(2,3) upd_job_ok [OF assms(2), of "\<lambda>j. fst (job_request_cancel j)" p]
    by (auto simp: frame_simps job_ops_fits)
next
  case (js_push j)
  then show ?thesis
    using jq.enq_last [OF assms(3) js_push(3)] placed_push [OF assms(4) js_push(2)] assms(2)
    by (auto simp: adds_job_def intro: table_ok_append)
next
  case (js_fail j)
  then show ?thesis
    using placed_fail [OF assms(4) js_fail(3)] assms(2,3)
    by (auto simp: adds_job_def intro: table_ok_append)
qed (use assms in auto)

section \<open>Every step keeps the invariant\<close>

lemma server_step_keeps:
  assumes "server_step w w'"
  shows "jobs_step (w_jobs w) (w_queue w) (w_jobs w') (w_queue w') \<and> (sessions_ok w \<longrightarrow> sessions_ok w')"
  using assms
proof cases
  case (ss_command se i)
  then show ?thesis using handle_client_command_effect [of se w i] by (simp add: cmd_effect_def)
qed (auto simp: frame_simps js_none fresh_conn_def close_client_ok intro!: accept_inet_ok accept_unix_ok)

lemma pool_ok_server: "pool_ok n s \<Longrightarrow> server_step (p_world s) w \<Longrightarrow> pool_ok n (s\<lparr>p_world := w\<rparr>)"
  unfolding pool_ok_def using server_step_keeps [of "p_world s" w] jobs_step_keeps by fastforce

lemma put_job_fields [simp]:
  "w_jobs (put_job p j w) = upd_job (w_jobs w) p (\<lambda>_. j)" "w_queue (put_job p j w) = w_queue w"
  "w_clients (put_job p j w) = w_clients w" "w_socks (put_job p j w) = w_socks w" "w_fs (put_job p j w) = w_fs w"
  "w_blocklist (put_job p j w) = w_blocklist w"
  by (simp_all add: put_job_def)

lemma put_job_sessions: "sessions_ok (put_job p j w) = sessions_ok w"
  by (simp add: sessions_ok_def)

lemma put_job_table:
  assumes "table_ok t" "p < length (tbl_jobs t)" "j_id j = j_id (tbl_jobs t ! p)"
    "job_fits (tbl_jobs t ! p) \<Longrightarrow> job_fits j"
  shows "table_ok (upd_job t p (\<lambda>_. j))"
  using assms by (auto simp: table_ok_def upd_job_def nth_list_update)

text \<open>The two halves of a round, on the job they work on.\<close>

lemma worker_take_keeps:
  assumes "worker_take we j = (j1, ev)"
  shows "j_id j1 = j_id j" "job_fits j \<Longrightarrow> job_fits j1"
    "ev = None \<Longrightarrow> j_state j1 = JOB_STATE_RUNNING" "ev \<noteq> None \<Longrightarrow> finished (j_state j1)"
  using assms
  by (auto simp: worker_take_def frame_simps finished_def job_ops_fits finish_job_fits split: if_splits)
    (simp add: job_set_state_def Let_def)

lemma job_fits_cancel_flag [simp]: "job_fits (j\<lparr>j_cancel_requested := c\<rparr>) = job_fits j"
  by (simp add: job_fits_def)

lemma worker_step_keeps:
  assumes "worker_step n s s'" "pool_ok n s"
  shows "pool_ok n s'"
proof -
  let ?t = "w_jobs (p_world s)"
  obtain waiting where t: "table_ok ?t" and c: "sessions_ok (p_world s)"
    and h: "queue_holds (w_queue (p_world s)) waiting" and pl: "jobs_placed n (tbl_jobs ?t) waiting (p_busy s)"
    using assms(2) by (auto simp: pool_ok_def)
  have c': "sessions_ok ((p_world s)\<lparr>w_queue := q\<rparr>)" "sessions_ok ((p_world s)\<lparr>w_fs := fs\<rparr>)" for q fs
    using c by (auto simp: sessions_ok_def)
  from assms(1) show ?thesis
  proof (cases rule: worker_step.cases)
    case (ws_take i p q we j1)
    obtain w' where w': "waiting = p # w'" "queue_holds q w'" using jq.deq_first [OF h ws_take(4)] by blast
    note k = worker_take_keeps [OF ws_take(5)]
    have p: "p < length (tbl_jobs ?t)" using pl w'(1) by (auto simp: jobs_placed_def in_state_set_def)
    have "table_ok (upd_job ?t p (\<lambda>_. j1))"
      by (rule put_job_table [OF t p]) (use k in \<open>simp_all add: pool_job_def\<close>)
    moreover have "jobs_placed n (tbl_jobs (upd_job ?t p (\<lambda>_. j1))) w' ((p_busy s)(i \<mapsto> p))"
      using placed_take [OF pl [unfolded w'(1)] ws_take(2,3) k(3)] by (simp add: upd_job_def)
    ultimately show ?thesis
      unfolding ws_take(1) by (intro pool_okI [of _ w']) (use w'(2) c' in \<open>simp_all add: put_job_sessions\<close>)
  next
    case (ws_skip i p q we j1 ev)
    obtain w' where w': "waiting = p # w'" "queue_holds q w'" using jq.deq_first [OF h ws_skip(4)] by blast
    note k = worker_take_keeps [OF ws_skip(5)]
    have p: "p < length (tbl_jobs ?t)" using pl w'(1) by (auto simp: jobs_placed_def in_state_set_def)
    have "table_ok (upd_job ?t p (\<lambda>_. j1))"
      by (rule put_job_table [OF t p]) (use k in \<open>simp_all add: pool_job_def\<close>)
    moreover have "jobs_placed n (tbl_jobs (upd_job ?t p (\<lambda>_. j1))) w' (p_busy s)"
      using placed_skip [OF pl [unfolded w'(1)], of j1] k(4) by (simp add: upd_job_def)
    ultimately show ?thesis
      unfolding ws_skip(1) by (intro pool_okI [of _ w']) (use w'(2) c' in \<open>simp_all add: put_job_sessions\<close>)
  next
    case (ws_finish i p we fs1 j1 ev)
    note e = worker_finish_ends [OF ws_finish(4)]
    have p: "p < length (tbl_jobs ?t)"
      using pl ws_finish(2) by (auto simp: jobs_placed_def in_state_set_def dest: ranI)
    let ?j = "j1\<lparr>j_cancel_requested := j_cancel_requested (pool_job s p)\<rparr>"
    have "table_ok (upd_job ?t p (\<lambda>_. ?j))"
      by (rule put_job_table [OF t p]) (use e(2,4) in \<open>simp_all add: pool_job_def\<close>)
    moreover have "jobs_placed n (tbl_jobs (upd_job ?t p (\<lambda>_. ?j))) waiting ((p_busy s)(i := None))"
      using placed_finish [OF pl ws_finish(2), of ?j] e(1) by (simp add: upd_job_def)
    ultimately show ?thesis
      unfolding ws_finish(1) by (intro pool_okI [of _ waiting]) (use h c' in \<open>simp_all add: put_job_sessions\<close>)
  qed
qed

lemma pool_ok_stop:
  "pool_ok n s \<Longrightarrow> pool_ok n (s\<lparr>p_world := (p_world s)\<lparr>w_queue := job_queue_stop (w_queue (p_world s))\<rparr>\<rparr>)"
  by (auto simp: pool_ok_def sessions_ok_def queue_holds_def job_queue_stop_def)

lemma pool_ok_start: "pool_start s \<Longrightarrow> pool_ok n s"
proof (induction rule: pool_start.induct)
  case (1 mutex_ok t q bl socks fs)
  have "queue_holds q []"
    using 1(2) unfolding job_queue_init_def queue_holds_def by (intro exI [of _ "[]"]) auto
  moreover have "jobs_placed n [] [] Map.empty" by (simp add: jobs_placed_def in_state_set_def)
  moreover have t: "t = \<lparr>tbl_jobs = [], tbl_next_id = 1\<rparr>"
    using 1(1) by (simp add: job_table_init_def split: if_splits)
  ultimately show ?case
    by (intro pool_okI [of _ "[]"])
      (simp_all add: empty_table_ok sessions_ok_def free_session_def active_admin_def)
qed

lemma pool_step_keeps: "pool_step n s s' \<Longrightarrow> pool_ok n s \<Longrightarrow> pool_ok n s'"
  by (erule pool_stepE) (auto intro: pool_ok_server worker_step_keeps pool_ok_stop)

lemma pool_reach_ok: "pool_reach n s \<Longrightarrow> pool_ok n s"
  by (induction rule: pool_reach.induct) (auto intro: pool_ok_start pool_step_keeps)

section \<open>The life of a job\<close>

text \<open>
  Job states are ordered by progress: queued before running before the three final states, which are
  not comparable.
\<close>

instantiation job_state :: order
begin

definition less_eq_job_state :: "job_state \<Rightarrow> job_state \<Rightarrow> bool" where
  "less_eq_job_state a b \<longleftrightarrow> a = b \<or> a = JOB_STATE_QUEUED \<or> (a = JOB_STATE_RUNNING \<and> finished b)"

definition less_job_state :: "job_state \<Rightarrow> job_state \<Rightarrow> bool" where
  "less_job_state a b \<longleftrightarrow> a \<le> b \<and> \<not> b \<le> (a :: job_state)"

instance
  by standard (auto simp: less_job_state_def less_eq_job_state_def finished_def)

end

lemma finished_top: "finished a \<Longrightarrow> a \<le> b \<longleftrightarrow> a = (b :: job_state)"
  by (auto simp: less_eq_job_state_def finished_def)

lemma to_finished: "finished b \<Longrightarrow> (a :: job_state) \<le> b \<longleftrightarrow> \<not> finished a \<or> a = b"
  by (cases a) (auto simp: less_eq_job_state_def finished_def)

text \<open>
  One entry of the table at two times: the same job, no state lost, no cancellation request
  forgotten, and a finished job left alone.
\<close>

definition job_later :: "job \<Rightarrow> job \<Rightarrow> bool" where
  "job_later j j' \<longleftrightarrow> j_id j' = j_id j \<and> j_state j \<le> j_state j' \<and>
     (j_cancel_requested j \<longrightarrow> j_cancel_requested j') \<and> (finished (j_state j) \<longrightarrow> j' = j)"

definition jobs_later :: "job list \<Rightarrow> job list \<Rightarrow> bool" where
  "jobs_later js js' \<longleftrightarrow> length js \<le> length js' \<and> (\<forall>p < length js. job_later (js ! p) (js' ! p))"

lemma job_later_refl [simp]: "job_later j j"
  by (simp add: job_later_def)

lemma job_later_trans: "job_later i j \<Longrightarrow> job_later j k \<Longrightarrow> job_later i k"
  by (auto simp: job_later_def)

lemma jobs_later_refl [simp]: "jobs_later js js"
  by (simp add: jobs_later_def)

lemma jobs_later_trans: "jobs_later i j \<Longrightarrow> jobs_later j k \<Longrightarrow> jobs_later i k"
  unfolding jobs_later_def by (meson job_later_trans le_trans less_le_trans)

lemma jobs_later_append [simp]: "jobs_later js (js @ [j])"
  by (simp add: jobs_later_def nth_append)

lemma jobs_later_update: "job_later (js ! p) j \<Longrightarrow> jobs_later js (js[p := j])"
  by (cases "p < length js") (auto simp: jobs_later_def nth_list_update)

lemma job_later_cancel: "job_later j (fst (job_request_cancel j))"
  by (auto simp: job_later_def job_request_cancel_def cancellable_def finished_def)

lemma jobs_step_later: "jobs_step t q t' q' \<Longrightarrow> jobs_later (tbl_jobs t) (tbl_jobs t')"
  by (induction rule: jobs_step.induct)
    (auto simp: adds_job_def upd_job_def intro: jobs_later_update job_later_cancel)

lemma take_later:
  assumes "worker_take we j = (j1, ev)" "j_state j = JOB_STATE_QUEUED"
  shows "job_later j j1"
  using assms
  by (auto simp: job_later_def worker_take_def less_eq_job_state_def frame_simps finished_def split: if_splits)

lemma finish_later:
  assumes "worker_finish we fs (j\<lparr>j_cancel_requested := False\<rparr>) = (fs1, j1, ev)" "j_state j = JOB_STATE_RUNNING"
  shows "job_later j (j1\<lparr>j_cancel_requested := j_cancel_requested j\<rparr>)"
  using worker_finish_ends [OF assms(1)] assms(2)
  by (auto simp: job_later_def to_finished) (simp_all add: finished_def)

lemma worker_step_later:
  assumes "worker_step n s s'" "pool_ok n s"
  shows "jobs_later (tbl_jobs (w_jobs (p_world s))) (tbl_jobs (w_jobs (p_world s')))"
proof -
  let ?js = "tbl_jobs (w_jobs (p_world s))"
  obtain waiting where h: "queue_holds (w_queue (p_world s)) waiting" and pl: "jobs_placed n ?js waiting (p_busy s)"
    using assms(2) by (auto simp: pool_ok_def)
  have queued: "j_state (pool_job s p) = JOB_STATE_QUEUED" if "pop_step (w_queue (p_world s)) p q" for p q
    using jq.deq_first [OF h that] pl by (auto simp: jobs_placed_def in_state_set_def pool_job_def)
  have running: "j_state (pool_job s p) = JOB_STATE_RUNNING" if "p_busy s i = Some p" for i p
    using ranI [of "p_busy s" i p] that pl by (auto simp: jobs_placed_def in_state_set_def pool_job_def)
  from assms(1) show ?thesis
    by cases (auto simp: upd_job_def pool_job_def
        intro!: jobs_later_update take_later finish_later queued [unfolded pool_job_def] running [unfolded pool_job_def])
qed

lemma pool_step_later:
  assumes "pool_step n s s'" "pool_ok n s"
  shows "jobs_later (tbl_jobs (w_jobs (p_world s))) (tbl_jobs (w_jobs (p_world s')))"
  using assms(1)
proof cases
  case (ps_server w)
  then show ?thesis using server_step_keeps [of "p_world s" w] by (auto intro: jobs_step_later)
qed (use worker_step_later [OF _ assms(2)] in auto)

lemma pool_steps_later:
  assumes "(pool_step n)\<^sup>*\<^sup>* s s'" "pool_ok n s"
  shows "pool_ok n s' \<and> jobs_later (tbl_jobs (w_jobs (p_world s))) (tbl_jobs (w_jobs (p_world s')))"
  using assms(1)
  by induction (use assms(2) in \<open>auto intro: pool_step_keeps jobs_later_trans pool_step_later\<close>)

section \<open>Workers left alone finish everything\<close>

lemma in_state_finite [simp]: "finite (in_state_set st js)"
  by (simp add: in_state_set_def)

text \<open>The work left: a waiting job needs at most two steps, a running one needs one.\<close>

definition work_left :: "pool \<Rightarrow> nat" where
  "work_left s = 2 * card (in_state_set JOB_STATE_QUEUED (tbl_jobs (w_jobs (p_world s))))
     + card (in_state_set JOB_STATE_RUNNING (tbl_jobs (w_jobs (p_world s))))"

lemma worker_step_work:
  assumes "worker_step n s s'" "pool_ok n s"
  shows "work_left s' < work_left s"
proof -
  let ?js = "tbl_jobs (w_jobs (p_world s))"
  obtain waiting where h: "queue_holds (w_queue (p_world s)) waiting" and pl: "jobs_placed n ?js waiting (p_busy s)"
    using assms(2) by (auto simp: pool_ok_def)
  have queued: "p \<in> in_state_set JOB_STATE_QUEUED ?js" if "pop_step (w_queue (p_world s)) p q" for p q
    using jq.deq_first [OF h that] pl by (auto simp: jobs_placed_def)
  have running: "p \<in> in_state_set JOB_STATE_RUNNING ?js" if "p_busy s i = Some p" for i p
    using ranI [of "p_busy s" i p] that pl by (auto simp: jobs_placed_def)
  have less: "card (in_state_set st ?js - {p}) < card (in_state_set st ?js)" if "p \<in> in_state_set st ?js" for st p
    by (rule card_Diff1_less [OF in_state_finite that])
  have same: "in_state_set st ?js - {p} = in_state_set st ?js" if "p \<in> in_state_set st' ?js" "st' \<noteq> st" for st st' p
    using that by (auto simp: in_state_set_def)
  have bound: "p < length ?js" if "p \<in> in_state_set st ?js" for p st using that by (simp add: in_state_set_def)
  from assms(1) show ?thesis
  proof (cases rule: worker_step.cases)
    case (ws_take i p q we j1)
    have p: "p \<in> in_state_set JOB_STATE_QUEUED ?js" by (rule queued [OF ws_take(4)])
    show ?thesis
      using less [OF p] same [OF p, of JOB_STATE_RUNNING] worker_take_keeps(3) [OF ws_take(5)] bound [OF p]
      by (simp add: ws_take(1) work_left_def upd_job_def in_state_update card_insert_if)
  next
    case (ws_skip i p q we j1 ev)
    have p: "p \<in> in_state_set JOB_STATE_QUEUED ?js" by (rule queued [OF ws_skip(4)])
    show ?thesis
      using less [OF p] same [OF p, of JOB_STATE_RUNNING] worker_take_keeps(4) [OF ws_skip(5)] bound [OF p]
      by (simp add: ws_skip(1) work_left_def upd_job_def in_state_update finished_states)
  next
    case (ws_finish i p we fs1 j1 ev)
    have p: "p \<in> in_state_set JOB_STATE_RUNNING ?js" by (rule running [OF ws_finish(2)])
    show ?thesis
      using less [OF p] same [OF p, of JOB_STATE_QUEUED] worker_finish_ends(1) [OF ws_finish(4)] bound [OF p]
      by (simp add: ws_finish(1) work_left_def upd_job_def in_state_update finished_states)
  qed
qed

lemma worker_step_running_queue:
  "worker_step n s s' \<Longrightarrow> \<not> q_stopped (w_queue (p_world s)) \<Longrightarrow> \<not> q_stopped (w_queue (p_world s'))"
  by (erule worker_stepE) (auto simp: pop_step_def job_queue_pop_def Let_def split: if_splits option.splits)

lemma calm_no_cancel: "\<not> we_cancel calm_env k"
  by (simp add: calm_env_def)

text \<open>A running queue with unfinished jobs and a worker always lets some worker step.\<close>

lemma worker_can_step:
  assumes "pool_ok n s" "0 < n" "\<not> q_stopped (w_queue (p_world s))"
    and unfinished: "p < pool_size s" "\<not> finished (j_state (pool_job s p))"
  shows "\<exists>s'. worker_step n s s'"
proof -
  let ?js = "tbl_jobs (w_jobs (p_world s))"
  obtain waiting where h: "queue_holds (w_queue (p_world s)) waiting" and pl: "jobs_placed n ?js waiting (p_busy s)"
    using assms(1) by (auto simp: pool_ok_def)
  show ?thesis
  proof (cases "\<exists>i p. p_busy s i = Some p")
    case True
    then obtain i r where i: "p_busy s i = Some r" by blast
    let ?j = "(pool_job s r)\<lparr>j_cancel_requested := False\<rparr>"
    obtain fs1 j1 ev where "worker_finish calm_env (w_fs (p_world s)) ?j = (fs1, j1, ev)" by (metis prod_cases3)
    with i show ?thesis using ws_finish [of s i r calm_env] calm_no_cancel by blast
  next
    case False
    then have "ran (p_busy s) = {}" by (auto simp: ran_def)
    then have "waiting \<noteq> []"
      using pl unfinished by (auto simp: jobs_placed_def in_state_set_def pool_size_def pool_job_def finished_states)
    then obtain r rest where "waiting = r # rest" by (cases waiting) auto
    then obtain q where q: "pop_step (w_queue (p_world s)) r q" using pop_holds [of _ r rest] h assms(3) by (auto simp: pop_step_def)
    have idle: "p_busy s 0 = None" using False by (cases "p_busy s 0") auto
    obtain j1 ev where "worker_take calm_env (pool_job s r) = (j1, ev)" by (metis surj_pair)
    then show ?thesis using ws_take [OF assms(2) idle q] ws_skip [OF assms(2) idle q] by (cases ev) blast+
  qed
qed

lemma worker_steps_keep:
  "(worker_step n)\<^sup>*\<^sup>* s s' \<Longrightarrow> pool_ok n s \<Longrightarrow> \<not> q_stopped (w_queue (p_world s)) \<Longrightarrow>
     pool_ok n s' \<and> \<not> q_stopped (w_queue (p_world s')) \<and> pool_size s' = pool_size s"
proof (induction rule: rtranclp_induct)
  case (step y z)
  moreover have "pool_size z = pool_size y"
    using step(2) by cases (simp_all add: pool_size_def upd_job_def)
  ultimately show ?case using worker_step_keeps worker_step_running_queue by auto
qed simp

lemma worker_relpow_work: "((worker_step n) ^^ k) s s' \<Longrightarrow> pool_ok n s \<Longrightarrow> k + work_left s' \<le> work_left s \<and> pool_ok n s'"
proof (induction k arbitrary: s')
  case (Suc k)
  then obtain y where y: "((worker_step n) ^^ k) s y" "worker_step n y s'" by (auto elim: relpowp_Suc_E)
  with Suc show ?case using worker_step_work [OF y(2)] worker_step_keeps [OF y(2)] by fastforce
qed simp

section \<open>A small run\<close>

text \<open>One user connects and submits a job; the single worker is idle.\<close>

definition demo_env :: senv where
  "demo_env = \<lparr>se_calloc = True, se_mutex = True, se_node = Some 1, se_now = zero_time, se_st = storage_default,
     se_max_upload = 1000\<rparr>"

definition demo0 :: world where
  "demo0 = \<lparr>w_socks = Map.empty, w_clients = replicate MAX_CLIENTS free_session, w_blocklist = [],
     w_jobs = \<lparr>tbl_jobs = [], tbl_next_id = 1\<rparr>, w_queue = queue0, w_fs = w_fs world0\<rparr>"

definition demo1 :: world where
  "demo1 = fst (accept_new_inet_connection zero_time
     (Some (7, \<lparr>s_in = bytes_of (''SUBMIT hi'' @ [NL]), s_out = [], s_sched = []\<rparr>)) (Some ''10.0.0.1'')
     CLIENT_TYPE_USER False demo0)"

definition demo2 :: pool where
  "demo2 = \<lparr>p_world = handle_client_command demo_env 0 demo1, p_busy = Map.empty\<rparr>"

lemma reach_server:
  "pool_reach n \<lparr>p_world = w, p_busy = b\<rparr> \<Longrightarrow> server_step w w' \<Longrightarrow> pool_reach n \<lparr>p_world = w', p_busy = b\<rparr>"
  using pr_step [OF _ ps_server [of "\<lparr>p_world = w, p_busy = b\<rparr>" w' n]] by simp

lemma send_quiet:
  assumes "w_socks w fd = Some s" "s_sched s = []"
  shows "\<exists>x. fst (send_responsef fd t w) = w\<lparr>w_socks := (w_socks w)(fd \<mapsto> s\<lparr>s_out := x\<rparr>)\<rparr>"
proof -
  have w: "write_all d s = (s\<lparr>s_out := s_out s @ d\<rparr>, Some (length d))" for d
  proof (cases "d = []")
    case True
    then show ?thesis unfolding write_all_def by (subst write_all_loop.simps) simp
  next
    case False
    then show ?thesis
      unfolding write_all_def using assms(2)
      by (subst write_all_loop.simps) (simp add: sock_write_def, subst write_all_loop.simps, simp)
  qed
  have same: "w = w\<lparr>w_socks := (w_socks w)(fd \<mapsto> s\<lparr>s_out := s_out s\<rparr>)\<rparr>" using assms(1) by (simp add: fun_upd_idem)
  show ?thesis
  proof (cases "length t < BUFFER_SIZE")
    case True
    then show ?thesis by (auto simp: send_responsef_def assms(1) snprintf_fmt_def w)
  next
    case False
    then have "fst (send_responsef fd t w) = w" by (simp add: send_responsef_def snprintf_fmt_def)
    with same show ?thesis by metis
  qed
qed

lemma demo1_reachable: "pool_reach 1 \<lparr>p_world = demo1, p_busy = Map.empty\<rparr>"
proof -
  have "pool_start \<lparr>p_world = demo0, p_busy = Map.empty\<rparr>"
    unfolding demo0_def
    by (rule pool_start.intros [of True]) (simp_all add: job_table_init_def job_queue_init_def blocklist_init_def queue0_def)
  then have "pool_reach 1 \<lparr>p_world = demo0, p_busy = Map.empty\<rparr>" by (rule pr_start)
  moreover have "server_step demo0 demo1"
    unfolding demo1_def by (rule ss_user) (simp add: fresh_conn_def demo0_def)
  ultimately show ?thesis by (rule reach_server)
qed

lemma demo2_reachable: "pool_reach 1 demo2"
proof -
  have "w_queue demo1 = queue0" by (simp add: demo1_def frame_simps demo0_def)
  then have "server_step demo1 (handle_client_command demo_env 0 demo1)"
    by (intro ss_command) (simp add: fresh_node_def demo_env_def queue0_def)
  with demo1_reachable show ?thesis unfolding demo2_def by (rule reach_server)
qed

lemma demo_line:
  "read_line BUFFER_SIZE \<lparr>s_in = bytes_of (''SUBMIT hi'' @ [NL]), s_out = x, s_sched = []\<rparr>
     = (\<lparr>s_in = [], s_out = x, s_sched = []\<rparr>, Some (''SUBMIT hi'' @ [NL]))"
  by (simp add: read_line_def BUFFER_SIZE_def sock_read_def bytes_of_def chars_of_def read_line_loop.simps char_of_def
      bit_Suc_0_iff Let_def)

lemma demo_parse:
  "r_command (protocol_parse_line (''SUBMIT hi'' @ [NL])) = PROTO_CMD_SUBMIT"
  "r_argument1 (protocol_parse_line (''SUBMIT hi'' @ [NL])) = ''hi''"
  by (simp_all add: protocol_parse_line_def parse_command_def trim_newline_def snprintf_s_def cstr_def BUFFER_SIZE_def
      starts_with_def text_request_def Let_def empty_request_def)


lemma demo_session:
  "\<exists>c. add_client (w_clients demo0) now 7 CLIENT_TYPE_USER (Some ip) = Some (c # replicate 127 free_session) \<and>
     c_fd c = 7 \<and> c_type c = CLIENT_TYPE_USER"
proof -
  have "replicate MAX_CLIENTS free_session = free_session # replicate 127 free_session"
    by (simp add: MAX_CLIENTS_def numeral_eq_Suc)
  then show ?thesis by (simp add: demo0_def) (simp add: free_session_def)
qed

lemma demo1_fields:
  "w_jobs demo1 = \<lparr>tbl_jobs = [], tbl_next_id = 1\<rparr>" "w_queue demo1 = queue0"
  "c_fd (w_clients demo1 ! 0) = 7" "c_type (w_clients demo1 ! 0) = CLIENT_TYPE_USER"
  "\<exists>x. w_socks demo1 7 = Some \<lparr>s_in = bytes_of (''SUBMIT hi'' @ [NL]), s_out = x, s_sched = []\<rparr>"
proof -
  show "w_jobs demo1 = \<lparr>tbl_jobs = [], tbl_next_id = 1\<rparr>" "w_queue demo1 = queue0"
    by (simp_all add: demo1_def demo0_def frame_simps)
  have bl: "w_blocklist demo0 = []" by (simp add: demo0_def)
  obtain c where c: "add_client (w_clients demo0) zero_time 7 CLIENT_TYPE_USER (Some ''10.0.0.1'') = Some (c # replicate 127 free_session)"
    "c_fd c = 7" "c_type c = CLIENT_TYPE_USER" using demo_session by blast
  let ?s = "\<lparr>s_in = bytes_of (''SUBMIT hi'' @ [NL]), s_out = [], s_sched = []\<rparr>"
  let ?w = "demo0\<lparr>w_socks := (w_socks demo0)(7 \<mapsto> ?s), w_clients := c # replicate 127 free_session\<rparr>"
  have d: "demo1 = fst (send_responsef 7 (''OK connected'' @ [NL]) ?w)"
    by (simp add: demo1_def accept_new_inet_connection_def blocklist_contains_def bl c Let_def)
  show "c_fd (w_clients demo1 ! 0) = 7" "c_type (w_clients demo1 ! 0) = CLIENT_TYPE_USER"
    by (simp_all add: d frame_simps c(2,3))
  have s: "w_socks ?w 7 = Some ?s" "s_sched ?s = []" by simp_all
  obtain x where x: "demo1 = ?w\<lparr>w_socks := (w_socks ?w)(7 \<mapsto> ?s\<lparr>s_out := x\<rparr>)\<rparr>"
    unfolding d using send_quiet [OF s] by blast
  then show "\<exists>x. w_socks demo1 7 = Some \<lparr>s_in = bytes_of (''SUBMIT hi'' @ [NL]), s_out = x, s_sched = []\<rparr>"
    unfolding x by (intro exI [of _ x]) simp
qed

lemma demo2_jobs:
  "\<exists>j. tbl_jobs (w_jobs (p_world demo2)) = [j] \<and> j_state j = JOB_STATE_QUEUED \<and> j_id j = 1"
  "\<not> q_stopped (w_queue (p_world demo2))"
proof -
  obtain x where x: "w_socks demo1 7 = Some \<lparr>s_in = bytes_of (''SUBMIT hi'' @ [NL]), s_out = x, s_sched = []\<rparr>"
    using demo1_fields(5) by blast
  let ?w = "demo1\<lparr>w_socks := (w_socks demo1)(7 \<mapsto> \<lparr>s_in = [], s_out = x, s_sched = []\<rparr>)\<rparr>"
  let ?r = "protocol_parse_line (''SUBMIT hi'' @ [NL])"
  have "p_world demo2 = fst (enqueue_job demo_env 0 JOB_TYPE_TEXT (Some ''hi'') None None ?w)"
    unfolding demo2_def handle_client_command_def Let_def demo1_fields(3,4) x option.case demo_line prod.case
    by (simp add: demo_parse [simplified] handle_user_command_def demo1_fields Let_def)
  then show "\<exists>j. tbl_jobs (w_jobs (p_world demo2)) = [j] \<and> j_state j = JOB_STATE_QUEUED \<and> j_id j = 1"
    "\<not> q_stopped (w_queue (p_world demo2))"
    by (simp_all add: enqueue_job_def demo1_fields job_table_create_job_def job_sizes demo_env_def job_queue_push_def queue0_def frame_simps new_job_def)
qed


section \<open>Properties of the server as a whole\<close>

text \<open>
  C1: no job is ever lost, run twice or left unattended. In every state the server can reach, with any
  number of workers and any interleaving of connections, commands, worker steps and shutdown, the
  queue is well formed and each job of the table is in exactly one place: it is queued and waits at
  one position of the queue, it is running on exactly one worker, or it is finished and neither
  queued nor run by anyone.
\<close>

theorem jobs_never_lost_or_doubled:
  assumes "pool_reach n s"
  shows "\<exists>waiting. queue_holds (w_queue (p_world s)) waiting \<and> distinct waiting \<and> (\<forall>p < pool_size s.
      (j_state (pool_job s p) = JOB_STATE_QUEUED \<and> p \<in> set waiting \<and> (\<forall>i. p_busy s i \<noteq> Some p)) \<or>
      (j_state (pool_job s p) = JOB_STATE_RUNNING \<and> p \<notin> set waiting \<and> (\<exists>!i. p_busy s i = Some p)) \<or>
      (finished (j_state (pool_job s p)) \<and> p \<notin> set waiting \<and> (\<forall>i. p_busy s i \<noteq> Some p)))"
proof -
  obtain waiting where h: "queue_holds (w_queue (p_world s)) waiting"
    and pl: "jobs_placed n (tbl_jobs (w_jobs (p_world s))) waiting (p_busy s)"
    using pool_reach_ok [OF assms] by (auto simp: pool_ok_def)
  have waits: "p \<in> set waiting \<longleftrightarrow> j_state (pool_job s p) = JOB_STATE_QUEUED" if "p < pool_size s" for p
    using pl that by (auto simp: jobs_placed_def in_state_set_def pool_size_def pool_job_def)
  have runs: "(\<exists>i. p_busy s i = Some p) \<longleftrightarrow> j_state (pool_job s p) = JOB_STATE_RUNNING" if "p < pool_size s" for p
    using pl that by (auto simp: jobs_placed_def in_state_set_def pool_size_def pool_job_def ran_def)
  have one: "\<exists>!i. p_busy s i = Some p" if "p_busy s i = Some p" for i p
    using pl that by (auto simp: jobs_placed_def inj_on_def dom_def)
  have place: "(st = JOB_STATE_QUEUED \<and> a \<and> (\<forall>i. \<not> b i)) \<or> (st = JOB_STATE_RUNNING \<and> \<not> a \<and> (\<exists>!i. b i)) \<or>
      (finished st \<and> \<not> a \<and> (\<forall>i. \<not> b i))"
    if "a \<longleftrightarrow> st = JOB_STATE_QUEUED" "(\<exists>i. b i) \<longleftrightarrow> st = JOB_STATE_RUNNING" "\<And>i. b i \<Longrightarrow> \<exists>!i. b i" for a st and b :: "nat \<Rightarrow> bool"
    using that by (cases st) (simp_all add: finished_def, blast)
  have "distinct waiting" using pl by (simp add: jobs_placed_def)
  show ?thesis
  proof (intro exI [of _ waiting] conjI allI impI)
    fix p
    assume p: "p < pool_size s"
    show "(j_state (pool_job s p) = JOB_STATE_QUEUED \<and> p \<in> set waiting \<and> (\<forall>i. p_busy s i \<noteq> Some p)) \<or>
      (j_state (pool_job s p) = JOB_STATE_RUNNING \<and> p \<notin> set waiting \<and> (\<exists>!i. p_busy s i = Some p)) \<or>
      (finished (j_state (pool_job s p)) \<and> p \<notin> set waiting \<and> (\<forall>i. p_busy s i \<noteq> Some p))"
      by (rule place [OF waits [OF p] runs [OF p] one])
  qed (fact h, fact)
qed

theorem jobs_never_lost_or_doubled_witness:
  "\<exists>waiting. queue_holds (w_queue (p_world demo2)) waiting \<and> 0 \<in> set waiting"
proof -
  obtain j where "tbl_jobs (w_jobs (p_world demo2)) = [j]" "j_state j = JOB_STATE_QUEUED" using demo2_jobs(1) by blast
  then have "0 < pool_size demo2" "j_state (pool_job demo2 0) = JOB_STATE_QUEUED"
    by (simp_all add: pool_size_def pool_job_def)
  with jobs_never_lost_or_doubled [OF demo2_reachable] show ?thesis by (fastforce simp: finished_def)
qed

text \<open>
  C7: a job id stays valid and a result stays put. Whatever the server and its workers do later, the
  id of a job finds the same entry, its state only advances, a cancellation request is not
  forgotten, and once the job is finished its entry (state, message, output path and all) never
  changes again.
\<close>

theorem job_entries_are_stable:
  assumes "pool_reach n s" "(pool_step n)\<^sup>*\<^sup>* s s'" "p < pool_size s"
  shows "job_table_find (w_jobs (p_world s')) (j_id (pool_job s p)) = Some p
    \<and> j_state (pool_job s p) \<le> j_state (pool_job s' p)
    \<and> (j_cancel_requested (pool_job s p) \<longrightarrow> j_cancel_requested (pool_job s' p))
    \<and> (finished (j_state (pool_job s p)) \<longrightarrow> pool_job s' p = pool_job s p)"
proof -
  have k: "pool_ok n s'" "jobs_later (tbl_jobs (w_jobs (p_world s))) (tbl_jobs (w_jobs (p_world s')))"
    using pool_steps_later [OF assms(2) pool_reach_ok [OF assms(1)]] by auto
  have l: "job_later (pool_job s p) (pool_job s' p)" "p < length (tbl_jobs (w_jobs (p_world s')))"
    using k(2) assms(3) by (auto simp: jobs_later_def pool_size_def pool_job_def)
  then have "job_table_find (w_jobs (p_world s')) (j_id (pool_job s' p)) = Some p"
    using k(1) table_find_live by (simp add: pool_ok_def pool_job_def)
  with l(1) show ?thesis by (auto simp: job_later_def)
qed

theorem job_entries_are_stable_witness:
  "{s'. (pool_step 1)\<^sup>*\<^sup>* demo2 s'} \<subseteq> {s'. job_table_find (w_jobs (p_world s')) 1 = Some 0}"
proof (intro Collect_mono impI)
  fix s'
  assume s': "(pool_step 1)\<^sup>*\<^sup>* demo2 s'"
  obtain j where "tbl_jobs (w_jobs (p_world demo2)) = [j]" "j_id j = 1" using demo2_jobs(1) by blast
  then have "0 < pool_size demo2" "j_id (pool_job demo2 0) = 1" by (simp_all add: pool_size_def pool_job_def)
  with job_entries_are_stable [OF demo2_reachable s'] show "job_table_find (w_jobs (p_world s')) 1 = Some 0" by fastforce
qed

text \<open>
  C5: the workers get everything done. From any reachable state whose queue has not been stopped, with
  at least one worker, the workers' own steps come to an end after at most twice the number of queued
  plus the number of running jobs, and when no worker can step any more every job is finished: there
  is no deadlock and no job that waits for ever.
\<close>

theorem workers_finish_everything:
  assumes "pool_reach n s" "0 < n" "\<not> q_stopped (w_queue (p_world s))"
  shows "(\<forall>k s'. (worker_step n ^^ k) s s' \<longrightarrow> k \<le> work_left s) \<and>
    (\<forall>s'. (worker_step n)\<^sup>*\<^sup>* s s' \<and> \<not> (\<exists>s''. worker_step n s' s'') \<longrightarrow>
       (\<forall>p < pool_size s. finished (j_state (pool_job s' p))))"
proof (intro conjI allI impI; (elim conjE)?)
  note ok = pool_reach_ok [OF assms(1)]
  show "k \<le> work_left s" if "(worker_step n ^^ k) s s'" for k s'
    using worker_relpow_work [OF that ok] by simp
  show "finished (j_state (pool_job s' p))"
    if "p < pool_size s" "(worker_step n)\<^sup>*\<^sup>* s s'" "\<not> (\<exists>s''. worker_step n s' s'')" for s' p
    using worker_steps_keep [OF that(2) ok assms(3)] worker_can_step [OF _ assms(2), of s' p] that(1,3) by auto
qed

theorem workers_finish_everything_witness: "{k. \<exists>s'. (worker_step 1 ^^ k) demo2 s'} \<subseteq> {..2}"
proof -
  obtain j where "tbl_jobs (w_jobs (p_world demo2)) = [j]" "j_state j = JOB_STATE_QUEUED" using demo2_jobs(1) by blast
  then have "work_left demo2 = 2"
    by (simp add: work_left_def in_state_set_def less_Suc_eq conj_commute cong: conj_cong)
  with workers_finish_everything [OF demo2_reachable _ demo2_jobs(2)] show ?thesis by auto
qed

text \<open>
  C15: sessions are sound in every reachable state: no two active sessions share a descriptor, every
  active session has an open connection, at most one administrator is connected, and the poll vector
  with the five server descriptors fits its array.
\<close>

theorem sessions_always_sound:
  assumes "pool_reach n s"
  shows "length (w_clients (p_world s)) = MAX_CLIENTS \<and>
    distinct (map c_fd (filter c_active (w_clients (p_world s)))) \<and>
    length (filter active_admin (w_clients (p_world s))) \<le> 1 \<and>
    list_all (\<lambda>c. c_active c \<longrightarrow> w_socks (p_world s) (c_fd c) \<noteq> None) (w_clients (p_world s)) \<and>
    length (rebuild_pollfds ls (w_clients (p_world s))) \<le> MAX_POLL_FDS"
proof -
  have "sessions_ok (p_world s)" using pool_reach_ok [OF assms] by (simp add: pool_ok_def)
  then show ?thesis using pollfds_bound [of "p_world s" ls] by (simp add: sessions_ok_def list_all_iff)
qed

theorem sessions_always_sound_witness: "length (w_clients (p_world demo2)) = 128"
  using sessions_always_sound [OF demo2_reachable, of undefined] by (simp add: MAX_CLIENTS_def)

end
