(* ===== verification/Server_Loop.thy ===== *)
theory Server_Loop
  imports Pool Requests
begin

text \<open>
  The poll loop of \<^verbatim>\<open>server_run\<close> and \<^verbatim>\<open>cleanup_server_state\<close>. One round accepts connections, serves
  the clients by walking slots and poll entries side by side, and closes kicked clients. Draining the
  worker pipe and the inotify descriptor only writes log lines; it is in \<^theory_text>\<open>Events\<close>, and the loop over
  all polls is in \<^theory_text>\<open>Startup\<close>.
\<close>

section \<open>The code\<close>

text \<open>
  What a round meets: which entries of the poll array report an event, the results of \<^verbatim>\<open>accept\<close> and
  \<^verbatim>\<open>inet_ntop\<close>, and the environment of each request. Entries beyond the vector are whatever the stack
  held.
\<close>

record round_io =
  ri_event :: "nat \<Rightarrow> bool"
  ri_now :: timespec
  ri_user :: "world \<Rightarrow> (int \<times> sock) option"
  ri_user_ip :: "string option"
  ri_admin :: "world \<Rightarrow> (int \<times> sock) option"
  ri_admin_ip :: "string option"
  ri_unix :: "world \<Rightarrow> (int \<times> sock) option"
  ri_env :: "nat \<Rightarrow> world \<Rightarrow> senv"

definition accept_user :: "round_io \<Rightarrow> world \<Rightarrow> world" where
  "accept_user io w =
     (if ri_event io 0
      then fst (accept_new_inet_connection (ri_now io) (ri_user io w) (ri_user_ip io) CLIENT_TYPE_USER False w) else w)"

definition accept_admin :: "round_io \<Rightarrow> world \<Rightarrow> world" where
  "accept_admin io w =
     (if ri_event io 1
      then fst (accept_new_inet_connection (ri_now io) (ri_admin io w) (ri_admin_ip io) CLIENT_TYPE_ADMIN True w) else w)"

definition accept_unix :: "round_io \<Rightarrow> world \<Rightarrow> world" where
  "accept_unix io w = (if ri_event io 2 then fst (accept_new_unix_connection (ri_now io) (ri_unix io w) w) else w)"

definition accept_phase :: "round_io \<Rightarrow> world \<Rightarrow> world" where
  "accept_phase io w = accept_unix io (accept_admin io (accept_user io w))"

text \<open>The walk over the slots \<open>i, i + 1, \<dots>\<close> (\<open>n\<close> of them) with the running index \<open>idx\<close> into the poll array.\<close>

fun serve_clients :: "round_io \<Rightarrow> nat \<Rightarrow> nat \<Rightarrow> nat \<Rightarrow> world \<Rightarrow> world" where
  "serve_clients io i 0 idx w = w"
| "serve_clients io i (Suc n) idx w =
     (if \<not> c_active (w_clients w ! i) then serve_clients io (Suc i) n idx w
      else serve_clients io (Suc i) n (Suc idx)
             (if ri_event io idx then handle_client_command (ri_env io i w) i w else w))"

definition server_round :: "round_io \<Rightarrow> bool \<Rightarrow> world \<Rightarrow> world" where
  "server_round io ready w =
     close_kicked 0 MAX_CLIENTS (if ready then serve_clients io 0 MAX_CLIENTS 5 (accept_phase io w) else w)"

fun close_all :: "nat \<Rightarrow> nat \<Rightarrow> world \<Rightarrow> world" where
  "close_all i 0 w = w"
| "close_all i (Suc n) w = close_all (Suc i) n (close_client i w)"

text \<open>
  \<^verbatim>\<open>cleanup_server_state\<close> on jobs, queue, sessions and blocklist; \<open>None\<close> when freeing the queue would go
  wrong. The workers have been joined when it goes on from \<^verbatim>\<open>stop_workers\<close>.
\<close>

definition cleanup_server_state :: "bool \<Rightarrow> bool \<Rightarrow> bool \<Rightarrow> world \<Rightarrow> world option" where
  "cleanup_server_state workers_started queue_initialized jobs_initialized w =
     (let w1 = (if workers_started then w\<lparr>w_queue := job_queue_stop (w_queue w)\<rparr> else w);
          w2 = close_all 0 MAX_CLIENTS w1 in
      case (if queue_initialized then job_queue_destroy (w_queue w2) else Some (w_queue w2)) of
        None \<Rightarrow> None
      | Some q \<Rightarrow>
          Some (w2\<lparr>w_queue := q, w_jobs := (if jobs_initialized then job_table_destroy (w_jobs w2) else w_jobs w2)\<rparr>))"

section \<open>A round is a sequence of steps\<close>

text \<open>What the operating system promises: \<^verbatim>\<open>accept\<close> returns closed descriptors, \<^verbatim>\<open>calloc\<close> unused nodes.\<close>

definition io_fresh :: "round_io \<Rightarrow> bool" where
  "io_fresh io \<longleftrightarrow> (\<forall>w. fresh_conn (ri_user io w) w \<and> fresh_conn (ri_admin io w) w \<and> fresh_conn (ri_unix io w) w \<and>
     (\<forall>i. fresh_node (ri_env io i w) (w_queue w)))"

lemma maybe_step: "(b \<Longrightarrow> server_step w w') \<Longrightarrow> server_step\<^sup>*\<^sup>* w (if b then w' else w)"
  by (cases b) auto

lemma accept_phase_steps:
  assumes "io_fresh io"
  shows "server_step\<^sup>*\<^sup>* w (accept_phase io w)"
proof -
  have "server_step\<^sup>*\<^sup>* v (accept_user io v)" "server_step\<^sup>*\<^sup>* v (accept_admin io v)" "server_step\<^sup>*\<^sup>* v (accept_unix io v)" for v
    unfolding accept_user_def accept_admin_def accept_unix_def
    using assms by (intro maybe_step ss_user ss_admin ss_unix; simp add: io_fresh_def)+
  then show ?thesis unfolding accept_phase_def by (blast intro: rtranclp_trans)
qed

lemma serve_clients_steps: "io_fresh io \<Longrightarrow> server_step\<^sup>*\<^sup>* w (serve_clients io i n idx w)"
proof (induction n arbitrary: i idx w)
  case (Suc n)
  have "server_step w (handle_client_command (ri_env io i w) i w)"
    using Suc.prems by (intro ss_command) (simp add: io_fresh_def)
  then show ?case using Suc.IH [OF Suc.prems] by (auto intro: converse_rtranclp_into_rtranclp)
qed simp

lemma close_kicked_steps: "server_step\<^sup>*\<^sup>* w (close_kicked i n w)"
proof (induction n arbitrary: i w)
  case (Suc n)
  then show ?case by (auto simp: Let_def intro: converse_rtranclp_into_rtranclp ss_close)
qed simp

lemma server_round_steps: "io_fresh io \<Longrightarrow> server_step\<^sup>*\<^sup>* w (server_round io ready w)"
  using accept_phase_steps [of io w] serve_clients_steps [of io "accept_phase io w" 0 MAX_CLIENTS 5]
    close_kicked_steps
  unfolding server_round_def by (cases ready) (auto intro: rtranclp_trans)

lemma reach_server_steps:
  "server_step\<^sup>*\<^sup>* w w' \<Longrightarrow> pool_reach n \<lparr>p_world = w, p_busy = b\<rparr> \<Longrightarrow> pool_reach n \<lparr>p_world = w', p_busy = b\<rparr>"
  by (induction rule: rtranclp_induct) (auto intro: reach_server)

section \<open>Who is served\<close>

text \<open>The sessions a walk has not reached yet: same descriptors and activity.\<close>

definition same_slots :: "nat \<Rightarrow> world \<Rightarrow> world \<Rightarrow> bool" where
  "same_slots i w w' \<longleftrightarrow> length (w_clients w') = length (w_clients w) \<and>
     (\<forall>k < length (w_clients w). k \<noteq> i \<longrightarrow>
        c_active (w_clients w' ! k) = c_active (w_clients w ! k) \<and> c_fd (w_clients w' ! k) = c_fd (w_clients w ! k))"

lemma same_slots_clients: "w_clients w' = w_clients w \<Longrightarrow> same_slots i w w'"
  by (simp add: same_slots_def)

lemma same_slots_close: "w_clients v = w_clients w \<Longrightarrow> same_slots i w (close_client i v)"
  by (auto simp: same_slots_def close_client_def Let_def)

lemma same_slots_flags:
  assumes "list_all2 (\<lambda>c c'. c_fd c' = c_fd c \<and> c_active c' = c_active c) (w_clients w) (w_clients w')"
  shows "same_slots i w w'"
  using assms by (simp add: same_slots_def list_all2_conv_all_nth)

lemma same_slots_user: "same_slots i w (fst (handle_user_command se i r w))"
proof (cases "r_command r = PROTO_CMD_QUIT")
  case True
  then show ?thesis by (simp add: handle_user_command_def Let_def same_slots_close frame_simps)
next
  case False
  from user_command_confined [OF False refl] show ?thesis by (simp add: confined_def same_slots_clients)
qed

lemma same_slots_admin: "same_slots i w (fst (handle_admin_command i r w))"
proof -
  have kick: "same_slots i w (fst (handle_kick fd arg w))" for fd arg
  proof -
    have "list_all2 (\<lambda>c c'. c_fd c' = c_fd c \<and> c_active c' = c_active c) (w_clients w)
        ((w_clients w)[k := (w_clients w ! k)\<lparr>c_kick_requested := True\<rparr>])" for k
      by (cases "k < length (w_clients w)") (auto simp: list_all2_conv_all_nth nth_list_update)
    then show ?thesis
      by (auto simp: handle_kick_def Let_def frame_simps same_slots_clients split: option.split intro: same_slots_flags)
  qed
  have block: "same_slots i w (fst (handle_blockip fd ip w))" "same_slots i w (fst (handle_unblockip fd ip w))" for fd ip
    by (auto simp: handle_blockip_def handle_unblockip_def Let_def frame_simps same_slots_clients list_all2_conv_all_nth
        mark_blocked_def split: prod.split intro!: same_slots_flags)
  have cancel: "w_clients (fst (handle_cancel fd k msg w)) = w_clients w" for fd k msg
    by (auto simp: handle_cancel_def Let_def frame_simps split: option.split prod.split)
  show ?thesis
    by (cases "r_command r")
      (simp_all add: handle_admin_command_def Let_def frame_simps same_slots_clients same_slots_close kick block
        cancel send_admin_help_def split: option.split)
qed

lemma same_slots_after: "w_clients v = w_clients w \<Longrightarrow> same_slots i v u \<Longrightarrow> same_slots i w u"
  by (simp add: same_slots_def)

lemma same_slots_command: "same_slots i w (handle_client_command se i w)"
proof (cases "w_socks w (c_fd (w_clients w ! i))")
  case None
  then show ?thesis by (simp add: handle_client_command_def Let_def same_slots_close)
next
  case (Some s)
  obtain s1 x where rd: "read_line BUFFER_SIZE s = (s1, x)" by (rule prod.exhaust)
  let ?w1 = "w\<lparr>w_socks := (w_socks w)(c_fd (w_clients w ! i) \<mapsto> s1)\<rparr>"
  have same: "w_clients ?w1 = w_clients w" by simp
  note parts = same_slots_close [OF same] same_slots_after [OF same same_slots_user] same_slots_after [OF same same_slots_admin]
  show ?thesis
    using parts by (cases x) (simp_all add: handle_client_command_def Some rd Let_def)
qed

text \<open>The specification of serving: a session is served when its own descriptor has an event.\<close>

fun serve_ready :: "round_io \<Rightarrow> (int \<Rightarrow> bool) \<Rightarrow> nat \<Rightarrow> nat \<Rightarrow> world \<Rightarrow> world" where
  "serve_ready io ready i 0 w = w"
| "serve_ready io ready i (Suc n) w = serve_ready io ready (Suc i) n
     (if c_active (w_clients w ! i) \<and> ready (c_fd (w_clients w ! i)) then handle_client_command (ri_env io i w) i w else w)"

definition fd_event :: "round_io \<Rightarrow> int list \<Rightarrow> int \<Rightarrow> bool" where
  "fd_event io pfds fd \<longleftrightarrow> list_ex (\<lambda>k. pfds ! k = fd \<and> ri_event io k) [5..<length pfds]"

definition active_before :: "nat \<Rightarrow> client_session list \<Rightarrow> nat" where
  "active_before i cs = length (filter c_active (take i cs))"

lemma active_before_Suc:
  "i < length cs \<Longrightarrow> active_before (Suc i) cs = (if c_active (cs ! i) then Suc (active_before i cs) else active_before i cs)"
  by (simp add: active_before_def take_Suc_conv_app_nth)

lemma filter_nth_active:
  assumes "i < length cs" "c_active (cs ! i)"
  shows "active_before i cs < length (filter c_active cs)" "filter c_active cs ! active_before i cs = cs ! i"
proof -
  have "filter c_active cs = filter c_active (take i cs) @ cs ! i # filter c_active (drop (Suc i) cs)"
    using assms id_take_nth_drop [OF assms(1)] by (metis filter.simps(2) filter_append)
  then show "active_before i cs < length (filter c_active cs)" "filter c_active cs ! active_before i cs = cs ! i"
    by (simp_all add: active_before_def)
qed

lemma own_entry:
  assumes "distinct (map c_fd (filter c_active cs))" "i < length cs" "c_active (cs ! i)"
  shows "fd_event io (rebuild_pollfds ls cs) (c_fd (cs ! i)) \<longleftrightarrow> ri_event io (5 + active_before i cs)"
proof -
  let ?fds = "map c_fd (filter c_active cs)" and ?m = "active_before i cs"
  note m = filter_nth_active [OF assms(2,3)]
  have split: "rebuild_pollfds ls cs = [l_user ls, l_admin ls, l_unix ls, l_pipe ls, l_inotify ls] @ ?fds"
    by (simp add: rebuild_pollfds_def)
  have at: "rebuild_pollfds ls cs ! (5 + k) = ?fds ! k" for k
    unfolding split by (simp only: nth_append) (simp add: numeral_eq_Suc)
  have len: "length (rebuild_pollfds ls cs) = 5 + length ?fds" by (simp add: split)
  have "k = ?m" if "k < length ?fds" "?fds ! k = c_fd (cs ! i)" for k
    using nth_eq_iff_index_eq [OF assms(1) that(1), of ?m] that m by simp
  moreover have "fd_event io (rebuild_pollfds ls cs) fd \<longleftrightarrow> (\<exists>k < length ?fds. ?fds ! k = fd \<and> ri_event io (5 + k))" for fd
    unfolding at [symmetric]
  proof
    assume "fd_event io (rebuild_pollfds ls cs) fd"
    then obtain k where "5 \<le> k" "k < 5 + length ?fds" "rebuild_pollfds ls cs ! k = fd" "ri_event io k"
      by (auto simp: fd_event_def list_ex_iff len)
    then show "\<exists>k < length ?fds. rebuild_pollfds ls cs ! (5 + k) = fd \<and> ri_event io (5 + k)"
      by (intro exI [of _ "k - 5"]) auto
  next
    assume "\<exists>k < length ?fds. rebuild_pollfds ls cs ! (5 + k) = fd \<and> ri_event io (5 + k)"
    then obtain k where k: "k < length ?fds" "rebuild_pollfds ls cs ! (5 + k) = fd \<and> ri_event io (5 + k)"
      by (elim exE conjE) simp
    have "5 + k \<in> set [5..<length (rebuild_pollfds ls cs)]"
      unfolding len set_upt atLeastLessThan_iff using k(1) by simp
    with k(2) show "fd_event io (rebuild_pollfds ls cs) fd" unfolding fd_event_def list_ex_iff by (rule bexI)
  qed
  ultimately have "fd_event io (rebuild_pollfds ls cs) (c_fd (cs ! i)) \<longleftrightarrow> ri_event io (5 + ?m)" if "?fds ! ?m = c_fd (cs ! i)" "?m < length ?fds"
    using that by metis
  then show ?thesis using m by simp
qed

lemma serve_clients_ready:
  assumes "distinct (map c_fd (filter c_active cs))"
  shows "i + n = length cs \<Longrightarrow> length (w_clients w) = length cs \<Longrightarrow>
    (\<And>k. i \<le> k \<Longrightarrow> k < length cs \<Longrightarrow> c_active (w_clients w ! k) = c_active (cs ! k) \<and> c_fd (w_clients w ! k) = c_fd (cs ! k)) \<Longrightarrow>
    serve_clients io i n (5 + active_before i cs) w = serve_ready io (fd_event io (rebuild_pollfds ls cs)) i n w"
proof (induction n arbitrary: i w)
  case (Suc n)
  have i: "i < length cs" using Suc.prems(1) by simp
  have now: "c_active (w_clients w ! i) = c_active (cs ! i)" "c_fd (w_clients w ! i) = c_fd (cs ! i)"
    using Suc.prems(3) [of i] i by auto
  let ?v = "if c_active (cs ! i) \<and> fd_event io (rebuild_pollfds ls cs) (c_fd (cs ! i))
    then handle_client_command (ri_env io i w) i w else w"
  have v: "same_slots i w ?v" using same_slots_command by (simp add: same_slots_clients)
  have "serve_clients io (Suc i) n (5 + active_before (Suc i) cs) ?v
      = serve_ready io (fd_event io (rebuild_pollfds ls cs)) (Suc i) n ?v"
    using v Suc.prems by (intro Suc.IH) (auto simp: same_slots_def)
  then show ?case
    using own_entry [OF assms i, of io ls] by (cases "c_active (cs ! i)") (auto simp: now active_before_Suc [OF i])
qed simp

text \<open>A walk over free slots does nothing.\<close>

lemma serve_free: "(\<And>k. i \<le> k \<Longrightarrow> k < i + n \<Longrightarrow> \<not> c_active (w_clients w ! k)) \<Longrightarrow> serve_clients io i n idx w = w"
  by (induction n arbitrary: i) auto

section \<open>A round as a list of actions\<close>

text \<open>
  What one round may do, and what it should do for given events: accept where the listening entries
  report an event; then serve the sessions that were active after that and whose entry reports one, the
  entry of a session being number 5 plus the number of active slots below its own; then close the
  sessions that are active and to be kicked.
\<close>

datatype action = Accept_user | Accept_admin | Accept_unix | Serve nat | Close nat

fun act :: "round_io \<Rightarrow> action \<Rightarrow> world \<Rightarrow> world" where
  "act io Accept_user w = fst (accept_new_inet_connection (ri_now io) (ri_user io w) (ri_user_ip io) CLIENT_TYPE_USER False w)"
| "act io Accept_admin w = fst (accept_new_inet_connection (ri_now io) (ri_admin io w) (ri_admin_ip io) CLIENT_TYPE_ADMIN True w)"
| "act io Accept_unix w = fst (accept_new_unix_connection (ri_now io) (ri_unix io w) w)"
| "act io (Serve i) w = handle_client_command (ri_env io i w) i w"
| "act io (Close i) w = close_client i w"

definition accept_actions :: "round_io \<Rightarrow> action list" where
  "accept_actions io = (if ri_event io 0 then [Accept_user] else []) @ (if ri_event io 1 then [Accept_admin] else []) @
     (if ri_event io 2 then [Accept_unix] else [])"

definition serve_actions :: "round_io \<Rightarrow> client_session list \<Rightarrow> action list" where
  "serve_actions io cs =
     map Serve (filter (\<lambda>i. c_active (cs ! i) \<and> ri_event io (5 + active_before i cs)) [0..<length cs])"

definition close_actions :: "client_session list \<Rightarrow> action list" where
  "close_actions cs = map Close (filter (\<lambda>i. c_active (cs ! i) \<and> c_kick_requested (cs ! i)) [0..<length cs])"

lemma accept_phase_actions: "accept_phase io w = fold (act io) (accept_actions io) w"
  by (simp add: accept_phase_def accept_actions_def accept_user_def accept_admin_def accept_unix_def)

lemma serve_clients_actions:
  "i + n = length cs \<Longrightarrow> length (w_clients w) = length cs \<Longrightarrow>
    (\<And>k. i \<le> k \<Longrightarrow> k < length cs \<Longrightarrow> c_active (w_clients w ! k) = c_active (cs ! k)) \<Longrightarrow>
    serve_clients io i n (5 + active_before i cs) w =
    fold (act io) (map Serve (filter (\<lambda>i. c_active (cs ! i) \<and> ri_event io (5 + active_before i cs)) [i..<length cs])) w"
proof (induction n arbitrary: i w)
  case (Suc n)
  have i: "i < length cs" using Suc.prems(1) by simp
  have now: "c_active (w_clients w ! i) = c_active (cs ! i)" using Suc.prems(3) [of i] i by simp
  let ?served = "c_active (cs ! i) \<and> ri_event io (5 + active_before i cs)"
  let ?v = "if ?served then handle_client_command (ri_env io i w) i w else w"
  have v: "same_slots i w ?v" using same_slots_command by (simp add: same_slots_clients)
  have "serve_clients io (Suc i) n (5 + active_before (Suc i) cs) ?v =
      fold (act io) (map Serve (filter (\<lambda>i. c_active (cs ! i) \<and> ri_event io (5 + active_before i cs)) [Suc i..<length cs])) ?v"
    using v Suc.prems by (intro Suc.IH) (auto simp: same_slots_def)
  then show ?case
    using i by (cases "c_active (cs ! i)") (auto simp: now active_before_Suc [OF i] upt_conv_Cons)
qed simp

lemma close_client_length: "length (w_clients (close_client i w)) = length (w_clients w)"
  by (simp add: close_client_def Let_def)

lemma add_client_length: "add_client cs now fd type addr = Some cs' \<Longrightarrow> length cs' = length cs"
  by (induction cs arbitrary: cs') (auto split: if_splits)

lemma accept_length:
  "length (w_clients (fst (accept_new_inet_connection now conn ntop type single w))) = length (w_clients w)"
  "length (w_clients (fst (accept_new_unix_connection now conn w))) = length (w_clients w)"
  by (auto simp: accept_new_inet_connection_def accept_new_unix_connection_def Let_def frame_simps
      split: option.split prod.split dest: add_client_length)

lemma close_client_other: "k \<noteq> i \<Longrightarrow> w_clients (close_client i w) ! k = w_clients w ! k"
  by (simp add: close_client_def Let_def)

lemma close_kicked_actions:
  "i + n = length cs \<Longrightarrow> (\<And>k. i \<le> k \<Longrightarrow> k < length cs \<Longrightarrow> w_clients w ! k = cs ! k) \<Longrightarrow>
    close_kicked i n w =
    fold (act io) (map Close (filter (\<lambda>i. c_active (cs ! i) \<and> c_kick_requested (cs ! i)) [i..<length cs])) w"
proof (induction n arbitrary: i w)
  case (Suc n)
  have i: "i < length cs" using Suc.prems(1) by simp
  have now: "w_clients w ! i = cs ! i" using Suc.prems(2) [of i] i by simp
  let ?v = "if c_active (cs ! i) \<and> c_kick_requested (cs ! i) then close_client i w else w"
  have "close_kicked (Suc i) n ?v =
      fold (act io) (map Close (filter (\<lambda>i. c_active (cs ! i) \<and> c_kick_requested (cs ! i)) [Suc i..<length cs])) ?v"
    using Suc.prems by (intro Suc.IH) (auto simp: close_client_other)
  then show ?case using i by (auto simp: now Let_def upt_conv_Cons)
qed simp

lemma act_step: "io_fresh io \<Longrightarrow> server_step w (act io a w)"
  by (cases a) (auto simp: io_fresh_def intro: server_step.intros)

lemma actions_reach:
  "io_fresh io \<Longrightarrow> pool_reach n s \<Longrightarrow> pool_reach n (s\<lparr>p_world := fold (act io) as (p_world s)\<rparr>)"
proof (induction as arbitrary: s)
  case (Cons a as)
  have "pool_reach n (s\<lparr>p_world := act io a (p_world s)\<rparr>)"
    by (rule pr_step [OF Cons.prems(2) ps_server [OF act_step [OF Cons.prems(1)]]])
  from Cons.IH [OF Cons.prems(1) this] show ?case by simp
qed simp

lemma action_length: "length (w_clients (act io a w)) = length (w_clients w)"
  by (cases a) (use same_slots_command in \<open>auto simp: same_slots_def close_client_length accept_length\<close>)

lemma actions_length: "length (w_clients (fold (act io) as w)) = length (w_clients w)"
  by (induction as arbitrary: w) (simp_all add: action_length)

section \<open>Shutdown\<close>

lemma close_all_frame [frame_simps]:
  "w_queue (close_all i n w) = w_queue w" "w_jobs (close_all i n w) = w_jobs w" "w_blocklist (close_all i n w) = w_blocklist w"
  "length (w_clients (close_all i n w)) = length (w_clients w)"
  by (induction n arbitrary: i w) (simp_all add: frame_simps close_client_length)

lemma close_client_inactive:
  "k < length (w_clients w) \<Longrightarrow> \<not> c_active (w_clients w ! k) \<or> k = i \<Longrightarrow> \<not> c_active (w_clients (close_client i w) ! k)"
  by (auto simp: close_client_def Let_def nth_list_update)

lemma close_all_inactive:
  "k < length (w_clients w) \<Longrightarrow> \<not> c_active (w_clients w ! k) \<or> (i \<le> k \<and> k < i + n) \<Longrightarrow> \<not> c_active (w_clients (close_all i n w) ! k)"
proof (induction n arbitrary: i w)
  case (Suc n)
  then show ?case using close_client_inactive [of k w i] by (cases "i = k") (auto simp: close_client_length)
qed auto

section \<open>Properties of the loop\<close>

text \<open>
  C10: the loop implements the step relation, and takes exactly the steps it should. A round without
  events only closes the sessions to be kicked. In a round with events, the connections reported are
  accepted, in the order users, administrator, local; of the sessions then active the \<open>k\<close>-th, in slot
  order, is served exactly when the \<open>k\<close>-th session entry of the poll vector reports an event (its own
  entry, unless a connection was accepted in this round); and of those still active exactly the ones
  marked for it are closed. Under what the operating system promises of \<^verbatim>\<open>accept\<close> and \<^verbatim>\<open>calloc\<close>, every
  state on the way is reachable, so all that is shown of reachable states holds throughout the round.
\<close>

theorem server_round_actions:
  fixes io s n
  defines "w \<equiv> p_world s"
  defines "v \<equiv> fold (act io) (accept_actions io) w"
  defines "u \<equiv> fold (act io) (serve_actions io (w_clients v)) v"
  assumes "io_fresh io" "pool_reach n s"
  shows "server_round io True w = fold (act io) (close_actions (w_clients u)) u \<and>
    server_round io False w = fold (act io) (close_actions (w_clients w)) w \<and>
    (\<forall>k. pool_reach n (s\<lparr>p_world := fold (act io)
        (take k (accept_actions io @ serve_actions io (w_clients v) @ close_actions (w_clients u))) w\<rparr>))"
proof (intro conjI allI)
  have w: "length (w_clients w) = MAX_CLIENTS"
    using pool_reach_ok [OF assms(5)] by (simp add: pool_ok_def sessions_ok_def w_def)
  have len: "length (w_clients v) = MAX_CLIENTS" "length (w_clients u) = MAX_CLIENTS"
    by (simp_all add: u_def v_def actions_length w)
  have "serve_clients io 0 MAX_CLIENTS (5 + active_before 0 (w_clients v)) v = u"
    unfolding u_def serve_actions_def by (rule serve_clients_actions) (simp_all add: len)
  then have served: "serve_clients io 0 MAX_CLIENTS 5 (accept_phase io w) = u"
    by (simp add: accept_phase_actions v_def active_before_def)
  have closed: "close_kicked 0 MAX_CLIENTS x = fold (act io) (close_actions (w_clients x)) x"
    if "length (w_clients x) = MAX_CLIENTS" for x
    unfolding close_actions_def by (rule close_kicked_actions) (simp_all add: that)
  show "server_round io True w = fold (act io) (close_actions (w_clients u)) u"
    by (simp add: server_round_def served closed [OF len(2)])
  show "server_round io False w = fold (act io) (close_actions (w_clients w)) w"
    by (simp add: server_round_def closed [OF w])
  show "pool_reach n (s\<lparr>p_world := fold (act io)
      (take k (accept_actions io @ serve_actions io (w_clients v) @ close_actions (w_clients u))) w\<rparr>)" for k
    unfolding w_def by (rule actions_reach [OF assms(4,5)])
qed

definition quiet_io :: round_io where
  "quiet_io = \<lparr>ri_event = (\<lambda>_. True), ri_now = zero_time, ri_user = (\<lambda>_. None), ri_user_ip = None, ri_admin = (\<lambda>_. None),
     ri_admin_ip = None, ri_unix = (\<lambda>_. None), ri_env = (\<lambda>_ _. demo_env\<lparr>se_node := None\<rparr>)\<rparr>"

lemma quiet_io_fresh: "io_fresh quiet_io"
  by (simp add: io_fresh_def quiet_io_def fresh_conn_def fresh_node_def)

theorem server_round_actions_witness:
  "\<exists>acts. server_round quiet_io True (p_world demo2) = fold (act quiet_io) acts (p_world demo2) \<and>
     pool_reach 1 (demo2\<lparr>p_world := fold (act quiet_io) acts (p_world demo2)\<rparr>)"
proof -
  let ?w = "p_world demo2"
  let ?v = "fold (act quiet_io) (accept_actions quiet_io) ?w"
  let ?u = "fold (act quiet_io) (serve_actions quiet_io (w_clients ?v)) ?v"
  let ?acts = "accept_actions quiet_io @ serve_actions quiet_io (w_clients ?v) @ close_actions (w_clients ?u)"
  note r = server_round_actions [OF quiet_io_fresh demo2_reachable]
  have "server_round quiet_io True ?w = fold (act quiet_io) ?acts ?w" using r by simp
  moreover have "pool_reach 1 (demo2\<lparr>p_world := fold (act quiet_io) (take (length ?acts) ?acts) ?w\<rparr>)" using r by blast
  ultimately show ?thesis by (metis take_all_iff order_refl)
qed

text \<open>
  C12: in a round in which nobody connects, exactly the right sessions are served: walking slots and
  poll entries side by side serves a session if and only if the entry of its own descriptor reports
  an event, also when commands of the same round close or kick sessions.
\<close>

theorem round_serves_ready_sessions:
  assumes "sessions_ok w" "\<not> ri_event io 0" "\<not> ri_event io 1" "\<not> ri_event io 2"
  shows "server_round io True w =
    close_kicked 0 MAX_CLIENTS (serve_ready io (fd_event io (rebuild_pollfds ls (w_clients w))) 0 MAX_CLIENTS w)"
proof -
  have "length (w_clients w) = MAX_CLIENTS" "distinct (map c_fd (filter c_active (w_clients w)))"
    using assms(1) by (simp_all add: sessions_ok_def)
  then have "serve_clients io 0 MAX_CLIENTS (5 + active_before 0 (w_clients w)) w
      = serve_ready io (fd_event io (rebuild_pollfds ls (w_clients w))) 0 MAX_CLIENTS w"
    by (intro serve_clients_ready) simp_all
  then show ?thesis
    using assms(2-4) by (simp add: server_round_def accept_phase_def accept_user_def accept_admin_def accept_unix_def active_before_def)
qed

definition event5_io :: round_io where
  "event5_io = quiet_io\<lparr>ri_event := (\<lambda>k. k = 5)\<rparr>"

theorem round_serves_ready_sessions_witness:
  "\<exists>ready. server_round event5_io True demo1 = close_kicked 0 MAX_CLIENTS (serve_ready event5_io ready 0 MAX_CLIENTS demo1)"
proof -
  have "pool_reach 1 \<lparr>p_world = demo1, p_busy = Map.empty\<rparr>" by (rule demo1_reachable)
  then have "sessions_ok demo1" using pool_reach_ok by (fastforce simp: pool_ok_def)
  from round_serves_ready_sessions [OF this, of event5_io] show ?thesis by (auto simp: event5_io_def)
qed

text \<open>
  C36: a connection accepted in a round can take over another session's event. The poll vector is built
  before the round, the walk looks at the slots after it: when the new session lands in a free slot
  below an active one, the event of the active session's descriptor is spent on the new session, which
  is read without being ready, and the session that is ready is served by an entry that is not in the
  vector at all.
\<close>

theorem new_session_takes_event:
  assumes slots: "length (w_clients w) = MAX_CLIENTS" "\<not> c_active (w_clients w ! 0)" "c_active (w_clients w ! 1)"
      "\<And>k. 1 < k \<Longrightarrow> k < MAX_CLIENTS \<Longrightarrow> \<not> c_active (w_clients w ! k)"
    and conn: "ri_user io w = Some (fd, s)" "ri_user_ip io = Some ip" "\<not> blocklist_contains (w_blocklist w) ip"
    and events: "ri_event io 0" "\<not> ri_event io 1" "\<not> ri_event io 2" "ri_event io 5" "\<not> ri_event io 6"
  shows "rebuild_pollfds ls (w_clients w) ! 5 = c_fd (w_clients w ! 1) \<and> length (rebuild_pollfds ls (w_clients w)) = 6 \<and>
    c_fd (w_clients (accept_phase io w) ! 0) = fd \<and>
    server_round io True w = close_kicked 0 MAX_CLIENTS (handle_client_command (ri_env io 0 (accept_phase io w)) 0 (accept_phase io w))"
proof -
  obtain c0 c1 cs where cs: "w_clients w = c0 # c1 # cs" "\<not> c_active c0" "c_active c1" "length cs = 126"
    using slots(1-3) by (cases "w_clients w" rule: remdups_adj.cases) (auto simp: MAX_CLIENTS_def)
  have free: "\<not> c_active (cs ! k)" if "k < 126" for k
    using slots(4) [of "Suc (Suc k)"] that by (simp add: cs(1) MAX_CLIENTS_def)
  then have none: "filter c_active cs = []" using cs(4) by (auto simp: filter_empty_conv in_set_conv_nth)
  have poll: "rebuild_pollfds ls (w_clients w) ! 5 = c_fd (w_clients w ! 1)" "length (rebuild_pollfds ls (w_clients w)) = 6"
    by (simp_all add: rebuild_pollfds_def cs none numeral_eq_Suc)
  let ?v = "accept_phase io w"
  have v: "\<exists>c. w_clients ?v = c # c1 # cs \<and> c_active c \<and> c_fd c = fd"
    using conn events cs(1-3)
    by (simp add: accept_phase_def accept_user_def accept_admin_def accept_unix_def accept_new_inet_connection_def Let_def frame_simps)
  let ?u = "handle_client_command (ri_env io 0 ?v) 0 ?v"
  have same: "same_slots 0 ?v ?u" by (rule same_slots_command)
  have act: "c_active (w_clients ?u ! k) = c_active ((c0 # c1 # cs) ! k)" if "k < MAX_CLIENTS" "0 < k" for k
    using same v that cs(4) by (auto simp: same_slots_def MAX_CLIENTS_def nth_Cons')
  have rest: "serve_clients io 2 126 7 ?u = ?u"
  proof (rule serve_free)
    fix k :: nat
    assume k: "2 \<le> k" "k < 2 + 126"
    then have "\<not> c_active ((c0 # c1 # cs) ! k)" using free [of "k - 2"] by (simp add: nth_Cons' numeral_eq_Suc)
    then show "\<not> c_active (w_clients ?u ! k)" using act [of k] k by (simp add: MAX_CLIENTS_def)
  qed
  have "c_active (w_clients ?u ! 1)" using act [of 1] cs(3) by (simp add: MAX_CLIENTS_def)
  moreover have m: "MAX_CLIENTS = Suc (Suc 126)" by (simp add: MAX_CLIENTS_def)
  ultimately have "serve_clients io 0 MAX_CLIENTS 5 ?v = ?u"
    using v events(4,5) rest unfolding m serve_clients.simps by (auto simp: numeral_2_eq_2)
  then show ?thesis using poll v events(1) by (auto simp: server_round_def)
qed

definition two_slots :: world where
  "two_slots = demo0\<lparr>w_socks := [9 \<mapsto> idle_sock], w_clients := free_session #
     \<lparr>c_fd = 9, c_type = CLIENT_TYPE_USER, c_active = True, c_kick_requested = False, c_addr_str = ''10.0.0.2'',
       c_connected_at = zero_time\<rparr> # replicate 126 free_session\<rparr>"

definition taking_io :: round_io where
  "taking_io = quiet_io\<lparr>ri_event := (\<lambda>k. k = 0 \<or> k = 5), ri_user := (\<lambda>_. Some (4, idle_sock)), ri_user_ip := Some ''10.0.0.1''\<rparr>"

theorem new_session_takes_event_witness:
  "server_round taking_io True two_slots = close_kicked 0 MAX_CLIENTS
     (handle_client_command (ri_env taking_io 0 (accept_phase taking_io two_slots)) 0 (accept_phase taking_io two_slots))"
proof -
  have free: "\<not> c_active (w_clients two_slots ! k)" if "1 < k" "k < MAX_CLIENTS" for k
    using that by (auto simp: two_slots_def free_session_def MAX_CLIENTS_def nth_Cons')
  show ?thesis
    using new_session_takes_event [of two_slots taking_io 4 idle_sock "''10.0.0.1''"] free
    by (simp add: two_slots_def taking_io_def demo0_def free_session_def MAX_CLIENTS_def blocklist_contains_def)
qed

text \<open>
  Shutdown releases everything. From every reachable state, once the workers are joined,
  \<^verbatim>\<open>cleanup_server_state\<close> comes to its end without touching a freed or dangling node: the queue's nodes
  are all freed even when jobs were still waiting, no job is left in the table and no session is open.
\<close>

theorem shutdown_releases_everything:
  assumes "pool_reach n s"
  shows "\<exists>w. cleanup_server_state True True True (p_world s) = Some w \<and> q_nodes (w_queue w) = Map.empty \<and>
    q_stopped (w_queue w) \<and> tbl_jobs (w_jobs w) = [] \<and> filter c_active (w_clients w) = []"
proof -
  let ?w = "(p_world s)\<lparr>w_queue := job_queue_stop (w_queue (p_world s))\<rparr>"
  have ok: "pool_ok n s" by (rule pool_reach_ok [OF assms])
  then obtain waiting where "queue_holds (w_queue (p_world s)) waiting" by (auto simp: pool_ok_def)
  then have "queue_holds (w_queue ?w) waiting" by (simp add: queue_holds_def job_queue_stop_def)
  then obtain q where q: "job_queue_destroy (w_queue ?w) = Some q" "q_nodes q = Map.empty" "q_stopped q = q_stopped (w_queue ?w)"
    using destroy_holds by blast
  have len: "length (w_clients (p_world s)) = MAX_CLIENTS" using ok by (simp add: pool_ok_def sessions_ok_def)
  have "\<not> c_active (w_clients (close_all 0 MAX_CLIENTS ?w) ! k)" if "k < MAX_CLIENTS" for k
    by (rule close_all_inactive) (use len that in simp_all)
  then have "filter c_active (w_clients (close_all 0 MAX_CLIENTS ?w)) = []"
    using len by (auto simp: filter_empty_conv in_set_conv_nth frame_simps)
  then show ?thesis
    using q by (simp add: cleanup_server_state_def Let_def frame_simps job_table_destroy_def job_queue_stop_def)
qed

theorem shutdown_releases_everything_witness:
  "\<exists>w. cleanup_server_state True True True (p_world demo2) = Some w \<and> q_nodes (w_queue w) = Map.empty"
  using shutdown_releases_everything [OF demo2_reachable] by blast

end
