(* ===== verification/Logger.thy ===== *)
theory Logger
  imports Storage Protocol
begin

text \<open>
  \<^verbatim>\<open>src/server/logger.c\<close>: creating the directories above the log file, opening it for appending and
  writing one line per call. The wall clock is an argument: the text \<^verbatim>\<open>strftime\<close> prints, or \<open>None\<close> when
  \<^verbatim>\<open>localtime_r\<close> or \<^verbatim>\<open>strftime\<close> fails. The global mutex makes a call one step, so callers of several
  threads are a sequence of calls. Paths are taken as written, not normalised.
\<close>

section \<open>The code\<close>

datatype log_level = LOG_LEVEL_INFO | LOG_LEVEL_WARN | LOG_LEVEL_ERROR

fun level_to_string :: "log_level \<Rightarrow> string" where
  "level_to_string LOG_LEVEL_INFO = ''INFO''"
| "level_to_string LOG_LEVEL_WARN = ''WARN''"
| "level_to_string LOG_LEVEL_ERROR = ''ERROR''"

text \<open>
  Between the \<^verbatim>\<open>stat\<close> and the \<^verbatim>\<open>mkdir\<close> nobody else creates the directory, so the \<^verbatim>\<open>EEXIST\<close> that the code
  forgives does not arise.
\<close>

definition ensure_dir :: "filesys \<Rightarrow> path \<Rightarrow> filesys \<times> bool" where
  "ensure_dir fs p =
     (if p = [] then (fs, False)
      else if fs_dirs fs p then (fs, True)
      else if fs_files fs p \<noteq> None then (fs, False)
      else case mkdir fs p of None \<Rightarrow> (fs, False) | Some fs1 \<Rightarrow> (fs1, True))"

text \<open>The loop over \<^verbatim>\<open>temp\<close>: \<open>before\<close> is the text up to \<^verbatim>\<open>p\<close>, the second argument the text from \<^verbatim>\<open>p\<close> on.\<close>

fun prefix_dirs :: "filesys \<Rightarrow> string \<Rightarrow> string \<Rightarrow> filesys \<times> bool" where
  "prefix_dirs fs before [] = (fs, True)"
| "prefix_dirs fs before (c # rest) =
     (if c = CHR ''/'' then
        (case ensure_dir fs before of (fs1, ok) \<Rightarrow>
           if \<not> ok then (fs1, False) else prefix_dirs fs1 (before @ [c]) rest)
      else prefix_dirs fs (before @ [c]) rest)"

text \<open>\<^verbatim>\<open>strrchr(s, '/')\<close> as an index.\<close>

definition last_slash :: "string \<Rightarrow> nat option" where
  "last_slash s =
     (let n = length (basename_of s) in if n = length s then None else Some (length s - n - 1))"

definition ensure_parent_dirs_for_file :: "filesys \<Rightarrow> path \<Rightarrow> filesys \<times> bool" where
  "ensure_parent_dirs_for_file fs path =
     (if path = [] then (fs, False)
      else case snprintf_fmt BUFFER_SIZE path of (rc, temp) \<Rightarrow>
        if rc \<ge> BUFFER_SIZE then (fs, False)
        else case last_slash temp of
          None \<Rightarrow> (fs, True)
        | Some k \<Rightarrow>
            if k = 0 then (fs, True)
            else let temp1 = take k temp in
              case prefix_dirs fs (take 1 temp1) (drop 1 temp1) of (fs1, ok) \<Rightarrow>
                if \<not> ok then (fs1, False) else ensure_dir fs1 temp1)"

text \<open>\<^verbatim>\<open>fopen(p, "a")\<close> keeps what the file holds.\<close>

definition fopen_a :: "filesys \<Rightarrow> path \<Rightarrow> filesys option" where
  "fopen_a fs p =
     (if fs_writable fs p \<and> \<not> fs_dirs fs p
      then Some (case fs_files fs p of None \<Rightarrow> set_file fs p [] | Some d \<Rightarrow> fs) else None)"

record log_state =
  g_log_file :: "path option"
  l_fs :: filesys
  l_stderr :: string

definition logger_init :: "path \<Rightarrow> log_state \<Rightarrow> log_state \<times> bool" where
  "logger_init path l =
     (case ensure_parent_dirs_for_file (l_fs l) path of (fs1, ok) \<Rightarrow>
        if \<not> ok then (l\<lparr>l_fs := fs1\<rparr>, False)
        else case fopen_a fs1 path of
          None \<Rightarrow> (l\<lparr>l_fs := fs1, g_log_file := None\<rparr>, False)
        | Some fs2 \<Rightarrow> (l\<lparr>l_fs := fs2, g_log_file := Some path\<rparr>, True))"

definition logger_close :: "log_state \<Rightarrow> log_state" where
  "logger_close l = l\<lparr>g_log_file := None\<rparr>"

text \<open>Flushed output at the end of the file; what the device has no room for is lost without notice.\<close>

definition append_out :: "filesys \<Rightarrow> path \<Rightarrow> string \<Rightarrow> filesys" where
  "append_out fs p s =
     (let old = (case fs_files fs p of None \<Rightarrow> [] | Some d \<Rightarrow> d) in
      set_file fs p (fst (fwrite fs p old (bytes_of s))))"

definition logger_log :: "string option \<Rightarrow> log_level \<Rightarrow> string \<Rightarrow> log_state \<Rightarrow> log_state" where
  "logger_log time_buffer level message l =
     (case time_buffer of
        None \<Rightarrow> l
      | Some t \<Rightarrow>
          let line = ''['' @ t @ ''] ['' @ level_to_string level @ ''] '' @ message @ [NL] in
          case g_log_file l of
            None \<Rightarrow> l\<lparr>l_stderr := l_stderr l @ line\<rparr>
          | Some p \<Rightarrow> l\<lparr>l_fs := append_out (l_fs l) p line\<rparr>)"

section \<open>Directories\<close>

lemma ensure_dir_ok: "ensure_dir fs p = (fs', True) \<Longrightarrow> fs_dirs fs' p"
  by (auto simp: ensure_dir_def mkdir_def split: if_splits option.splits)

lemma ensure_dir_frame:
  "ensure_dir fs p = (fs', b) \<Longrightarrow> fs_files fs' = fs_files fs \<and> fs_writable fs' = fs_writable fs \<and> fs_room fs' = fs_room fs \<and>
     {q. fs_dirs fs q} \<subseteq> {q. fs_dirs fs' q} \<and> {q. fs_dirs fs' q} \<subseteq> insert p {q. fs_dirs fs q}"
  by (auto simp: ensure_dir_def mkdir_def split: if_splits option.splits)

text \<open>The proper prefixes of a path that end before a slash.\<close>

definition ancestors :: "string \<Rightarrow> path set" where
  "ancestors p = {take k p |k. 0 < k \<and> k < length p \<and> p ! k = CHR ''/''}"

lemma prefix_dirs_frame:
  "prefix_dirs fs before rest = (fs', b) \<Longrightarrow> fs_files fs' = fs_files fs \<and> fs_writable fs' = fs_writable fs \<and>
     fs_room fs' = fs_room fs \<and> {q. fs_dirs fs q} \<subseteq> {q. fs_dirs fs' q}"
proof (induction fs before rest rule: prefix_dirs.induct)
  case (2 fs before c rest)
  obtain fs1 ok where e: "ensure_dir fs before = (fs1, ok)" by (rule prod.exhaust)
  show ?case using 2 ensure_dir_frame [OF e] e by (auto split: if_splits)
qed simp

lemma prefix_dirs_all:
  "prefix_dirs fs before rest = (fs', True) \<Longrightarrow> k < length rest \<Longrightarrow> rest ! k = CHR ''/'' \<Longrightarrow>
     fs_dirs fs' (before @ take k rest)"
proof (induction fs before rest arbitrary: k rule: prefix_dirs.induct)
  case (2 fs before c rest)
  obtain fs1 ok where e: "ensure_dir fs before = (fs1, ok)" by (rule prod.exhaust)
  show ?case
  proof (cases k)
    case 0
    with 2(3-) e have "ok" "prefix_dirs fs1 (before @ [c]) rest = (fs', True)" by (auto split: if_splits)
    with 0 e show ?thesis using ensure_dir_ok [of fs before fs1] prefix_dirs_frame [of fs1 _ rest fs'] by auto
  next
    case (Suc m)
    with 2 e show ?thesis by (cases "c = CHR ''/''") (auto split: if_splits)
  qed
qed simp

lemma last_slash_None: "last_slash s = None \<Longrightarrow> CHR ''/'' \<notin> set s"
proof -
  assume "last_slash s = None"
  then have "length (takeWhile (\<lambda>c. c \<noteq> CHR ''/'') (rev s)) = length (rev s)"
    by (auto simp: last_slash_def basename_of_def Let_def split: if_splits)
  then have "takeWhile (\<lambda>c. c \<noteq> CHR ''/'') (rev s) = rev s"
    by (metis takeWhile_eq_take take_all_iff order_refl)
  then show ?thesis by (auto simp: takeWhile_eq_all_conv)
qed

lemma last_slash_Some:
  assumes "last_slash s = Some k"
  shows "k < length s \<and> s ! k = CHR ''/'' \<and> CHR ''/'' \<notin> set (drop (Suc k) s)"
proof -
  let ?t = "takeWhile (\<lambda>c. c \<noteq> CHR ''/'') (rev s)"
  have n: "length ?t \<noteq> length s" "k = length s - length ?t - 1"
    using assms by (auto simp: last_slash_def basename_of_def Let_def split: if_splits)
  moreover have "length ?t \<le> length (rev s)" by (rule length_takeWhile_le)
  ultimately have lt: "length ?t < length (rev s)" by simp
  then have k: "k < length s" "length s - Suc k = length ?t" using n by auto
  have "rev s ! length ?t = CHR ''/''" using nth_length_takeWhile [OF lt] by simp
  then have "s ! k = CHR ''/''" using k lt by (simp add: rev_nth n)
  moreover have "drop (Suc k) s = rev ?t"
  proof -
    have "rev ?t = rev (take (length ?t) (rev s))" by (metis takeWhile_eq_take)
    also have "\<dots> = drop (length s - length ?t) s" by (simp add: take_rev)
    finally show ?thesis using k lt by (simp add: n Suc_diff_Suc)
  qed
  moreover have "CHR ''/'' \<notin> set ?t" by (auto dest: set_takeWhileD)
  ultimately show ?thesis using k by simp
qed

lemma parents_frame:
  "ensure_parent_dirs_for_file fs path = (fs', b) \<Longrightarrow> fs_files fs' = fs_files fs \<and> fs_writable fs' = fs_writable fs \<and>
     fs_room fs' = fs_room fs \<and> {q. fs_dirs fs q} \<subseteq> {q. fs_dirs fs' q}"
  using prefix_dirs_frame ensure_dir_frame
  by (fastforce simp: ensure_parent_dirs_for_file_def Let_def split: prod.splits if_splits option.splits)

lemma parents_exist:
  assumes ok: "ensure_parent_dirs_for_file fs path = (fs', True)"
  shows "ancestors path \<subseteq> {q. fs_dirs fs' q}"
proof (cases "last_slash path")
  case None
  then have "path ! k \<noteq> CHR ''/''" if "k < length path" for k
    using last_slash_None [OF None] nth_mem [OF that] by metis
  then show ?thesis by (auto simp: ancestors_def)
next
  case (Some k)
  note ls = last_slash_Some [OF Some]
  have last: "j \<le> k" if "j < length path" "path ! j = CHR ''/''" for j
  proof (rule ccontr)
    assume "\<not> j \<le> k"
    then have "drop (Suc k) path ! (j - Suc k) = CHR ''/''" "j - Suc k < length (drop (Suc k) path)"
      using that by auto
    then show False using ls nth_mem by metis
  qed
  have short: "length path < BUFFER_SIZE" "path \<noteq> []"
    using ok by (auto simp: ensure_parent_dirs_for_file_def snprintf_fmt_def split: if_splits)
  show ?thesis
  proof (cases "k = 0")
    case True
    then show ?thesis using last by (fastforce simp: ancestors_def)
  next
    case False
    obtain fs1 b where p: "prefix_dirs fs (take 1 (take k path)) (drop 1 (take k path)) = (fs1, b)" by (rule prod.exhaust)
    have e: "b" "ensure_dir fs1 (take k path) = (fs', True)"
      using ok p False Some short
      by (auto simp: ensure_parent_dirs_for_file_def snprintf_fmt_def Let_def split: if_splits)
    have "fs_dirs fs' (take j path)" if j: "0 < j" "j < length path" "path ! j = CHR ''/''" for j
    proof (cases "j = k")
      case True
      then show ?thesis using ensure_dir_ok [OF e(2)] by simp
    next
      case ne: False
      then have "j < k" using last [OF j(2,3)] by simp
      then have "fs_dirs fs1 (take 1 (take k path) @ take (j - 1) (drop 1 (take k path)))"
        using p e(1) j ls by (intro prefix_dirs_all) auto
      moreover have "take 1 (take k path) @ take (j - 1) (drop 1 (take k path)) = take j path"
        using \<open>j < k\<close> j(1) by (cases path; cases j; cases k) (auto simp: take_Suc_conv_app_nth min_def)
      ultimately show ?thesis using ensure_dir_frame [OF e(2)] by auto
    qed
    then show ?thesis by (auto simp: ancestors_def)
  qed
qed

section \<open>Lines\<close>

text \<open>The line of one call, and a history of calls.\<close>

fun log_line :: "string \<times> log_level \<times> string \<Rightarrow> string" where
  "log_line (t, level, m) = ''['' @ t @ ''] ['' @ level_to_string level @ ''] '' @ m @ [NL]"

definition log_all :: "(string \<times> log_level \<times> string) list \<Rightarrow> log_state \<Rightarrow> log_state" where
  "log_all calls l = foldl (\<lambda>l (t, level, m). logger_log (Some t) level m l) l calls"

lemma log_all_file:
  assumes "g_log_file l = Some p" "fs_files (l_fs l) p = Some d"
    "length d + length (concat (map log_line calls)) \<le> fs_room (l_fs l) p"
  shows "g_log_file (log_all calls l) = Some p \<and>
    fs_files (l_fs (log_all calls l)) = (fs_files (l_fs l))(p \<mapsto> d @ bytes_of (concat (map log_line calls)))"
  using assms
proof (induction calls arbitrary: l d)
  case (Cons c calls)
  obtain t level m where c: "c = (t, level, m)" by (rule prod_cases3)
  let ?l = "logger_log (Some t) level m l"
  have "length (d @ bytes_of (log_line c)) \<le> fs_room (l_fs l) p" using Cons.prems by simp
  then have "g_log_file ?l = Some p" "fs_files (l_fs ?l) = (fs_files (l_fs l))(p \<mapsto> d @ bytes_of (log_line c))"
    "fs_room (l_fs ?l) p = fs_room (l_fs l) p"
    using Cons.prems by (simp_all add: logger_log_def append_out_def Let_def c fwrite_fits frame_simps fun_eq_iff)
  moreover have "length (d @ bytes_of (log_line c)) + length (concat (map log_line calls)) \<le> fs_room (l_fs ?l) p"
    using Cons.prems(3) calculation(3) by simp
  ultimately show ?case
    using Cons.IH [of ?l "d @ bytes_of (log_line c)"] by (simp add: log_all_def c bytes_of_append del: log_line.simps cong: if_cong)
qed (simp add: log_all_def bytes_of_def fun_upd_idem)

section \<open>Properties of the logger\<close>

text \<open>
  C32: the log keeps everything. When \<^verbatim>\<open>logger_init\<close> succeeds, every directory above the log file
  exists, no other file was touched, and after any history of calls that the device has room for the
  file holds what it held before the start followed by exactly one line per call, in call order.
\<close>

theorem logger_keeps_every_line:
  assumes "logger_init path l = (l', True)"
    and "length (case fs_files (l_fs l) path of None \<Rightarrow> [] | Some d \<Rightarrow> d) + length (concat (map log_line calls)) \<le> fs_room (l_fs l) path"
  shows "ancestors path \<subseteq> {q. fs_dirs (l_fs l') q} \<and>
    fs_files (l_fs (log_all calls l')) = (fs_files (l_fs l))(path \<mapsto>
      (case fs_files (l_fs l) path of None \<Rightarrow> [] | Some d \<Rightarrow> d) @ bytes_of (concat (map log_line calls)))"
proof -
  obtain fs1 b where p: "ensure_parent_dirs_for_file (l_fs l) path = (fs1, b)" by (rule prod.exhaust)
  then obtain fs2 where a: "b" "fopen_a fs1 path = Some fs2" "l' = l\<lparr>l_fs := fs2, g_log_file := Some path\<rparr>"
    using assms(1) by (auto simp: logger_init_def split: if_splits option.splits)
  have fr: "fs_files fs1 = fs_files (l_fs l)" "fs_room fs1 = fs_room (l_fs l)" using parents_frame [OF p] by auto
  have f: "fs_files fs2 = (fs_files (l_fs l))(path \<mapsto> case fs_files (l_fs l) path of None \<Rightarrow> [] | Some d \<Rightarrow> d)"
    "fs_room fs2 = fs_room (l_fs l)" "fs_dirs fs2 = fs_dirs fs1"
    using a(2) fr by (auto simp: fopen_a_def frame_simps fun_eq_iff split: if_splits option.splits)
  show ?thesis
    using log_all_file [of l' path] assms(2) a f parents_exist [of "l_fs l" path fs1] p by simp
qed

definition demo_disk :: filesys where
  "demo_disk = \<lparr>fs_files = [''logs/a.log'' \<mapsto> [1, 2]], fs_dirs = (\<lambda>_. False), fs_readable = (\<lambda>_. True), fs_writable = (\<lambda>_. True),
     fs_seekable = (\<lambda>_. True), fs_room = (\<lambda>_. 1000), fs_lost = (\<lambda>_. None)\<rparr>"

definition demo_log :: log_state where
  "demo_log = \<lparr>g_log_file = None, l_fs = demo_disk, l_stderr = []\<rparr>"

lemma demo_log_init: "snd (logger_init ''logs/a.log'' demo_log)"
  by (simp add: logger_init_def demo_log_def demo_disk_def ensure_parent_dirs_for_file_def snprintf_fmt_def BUFFER_SIZE_def
      last_slash_def basename_of_def Let_def ensure_dir_def mkdir_def parent_dir_def fopen_a_def)

theorem logger_keeps_every_line_witness:
  "fs_files (l_fs (log_all [(''12:00'', LOG_LEVEL_WARN, ''full'')] (fst (logger_init ''logs/a.log'' demo_log)))) ''logs/a.log'' =
     Some ([1, 2] @ bytes_of (''[12:00] [WARN] full'' @ [NL]))"
proof -
  have "logger_init ''logs/a.log'' demo_log = (fst (logger_init ''logs/a.log'' demo_log), True)"
    using demo_log_init by (metis prod.collapse)
  from logger_keeps_every_line [OF this, of "[(''12:00'', LOG_LEVEL_WARN, ''full'')]"]
  show ?thesis by (simp add: demo_log_def demo_disk_def)
qed

end
