(* ===== verification/Events.thy ===== *)
theory Events
  imports Logger Worker Sessions
begin

text \<open>
  The two event sources of the poll loop that only feed the log: the pipe on which the workers report
  finished jobs and the inotify descriptor that watches the storage directories. \<^verbatim>\<open>read\<close> on them is a
  parameter: the results of its successive calls; when they are used up the descriptor is drained. The
  functions give the calls of \<^verbatim>\<open>logger_log\<close> they make, as level and message.
\<close>

section \<open>The code\<close>

text \<open>One result of \<^verbatim>\<open>read\<close>; \<open>Rd_partial\<close> is a count that is not the size asked for.\<close>

datatype 'a read_result = Rd_data 'a | Rd_eintr | Rd_again | Rd_error int | Rd_eof | Rd_partial

definition worker_event_text :: "worker_event \<Rightarrow> string" where
  "worker_event_text ev = ''Event job_id='' @ udec (unat (ev_job_id ev)) @ '' state='' @ job_state_to_string (ev_state ev)"

fun handle_worker_pipe :: "worker_event read_result list \<Rightarrow> (log_level \<times> string) list" where
  "handle_worker_pipe [] = []"
| "handle_worker_pipe (r # rs) =
     (case r of
        Rd_eintr \<Rightarrow> handle_worker_pipe rs
      | Rd_again \<Rightarrow> []
      | Rd_error e \<Rightarrow> [(LOG_LEVEL_ERROR, ''Failed to read from worker pipe errno='' @ sdec e)]
      | Rd_eof \<Rightarrow> []
      | Rd_partial \<Rightarrow> (LOG_LEVEL_WARN, ''Partial event read from worker pipe'') # handle_worker_pipe rs
      | Rd_data ev \<Rightarrow> (LOG_LEVEL_INFO, worker_event_text ev) # handle_worker_pipe rs)"

record inotify_state =
  i_fd :: int
  i_wd_uploads :: int
  i_wd_results :: int
  i_wd_temp :: int

definition inotify_watch_name :: "storage \<Rightarrow> inotify_state \<Rightarrow> int \<Rightarrow> string" where
  "inotify_watch_name st i wd =
     (if wd = i_wd_uploads i then g_uploads st
      else if wd = i_wd_results i then g_results st
      else if wd = i_wd_temp i then g_temp st
      else ''unknown'')"

text \<open>\<^verbatim>\<open>*used\<close> is the length of the text in \<^verbatim>\<open>out\<close>.\<close>

definition append_event_label :: "nat \<Rightarrow> string \<Rightarrow> string \<Rightarrow> string" where
  "append_event_label out_size label out =
     (if out_size = 0 then out
      else let label_len = length label; sep = (if length out = 0 then 0 else 1) in
        if length out + sep + label_len + 1 \<ge> out_size then out
        else let out1 = (if length out \<noteq> 0 then out @ ''|'' else out) in
          out1 @ snprintf_s (out_size - length out1) label)"

definition IN_MODIFY :: u32 where "IN_MODIFY = 0x00000002"
definition IN_ATTRIB :: u32 where "IN_ATTRIB = 0x00000004"
definition IN_CLOSE_WRITE :: u32 where "IN_CLOSE_WRITE = 0x00000008"
definition IN_MOVED_FROM :: u32 where "IN_MOVED_FROM = 0x00000040"
definition IN_MOVED_TO :: u32 where "IN_MOVED_TO = 0x00000080"
definition IN_CREATE :: u32 where "IN_CREATE = 0x00000100"
definition IN_DELETE :: u32 where "IN_DELETE = 0x00000200"
definition IN_Q_OVERFLOW :: u32 where "IN_Q_OVERFLOW = 0x00004000"
definition IN_IGNORED :: u32 where "IN_IGNORED = 0x00008000"

lemmas in_masks = IN_MODIFY_def IN_ATTRIB_def IN_CLOSE_WRITE_def IN_MOVED_FROM_def IN_MOVED_TO_def IN_CREATE_def
  IN_DELETE_def IN_Q_OVERFLOW_def IN_IGNORED_def

text \<open>\<^verbatim>\<open>%08x\<close>.\<close>

definition hex_digit :: "nat \<Rightarrow> char" where
  "hex_digit d = (if d < 10 then char_of (48 + d) else char_of (87 + d))"

definition hex8 :: "u32 \<Rightarrow> string" where
  "hex8 w = map (\<lambda>k. hex_digit (unat (drop_bit (4 * k) w) mod 16)) (rev [0..<8])"

text \<open>One line of the function: \<^verbatim>\<open>if ((mask & bit) != 0U) { append_event_label(...); }\<close>.\<close>

definition test_label :: "nat \<Rightarrow> u32 \<Rightarrow> u32 \<Rightarrow> string \<Rightarrow> string \<Rightarrow> string" where
  "test_label out_size msk b label out = (if msk AND b \<noteq> 0 then append_event_label out_size label out else out)"

definition inotify_mask_to_string :: "u32 \<Rightarrow> nat \<Rightarrow> string" where
  "inotify_mask_to_string msk out_size =
     (if out_size = 0 then []
      else let
        o0 = [];
        o1 = test_label out_size msk IN_CREATE ''CREATE'' o0;
        o2 = test_label out_size msk IN_CLOSE_WRITE ''CLOSE_WRITE'' o1;
        o3 = test_label out_size msk IN_MODIFY ''MODIFY'' o2;
        o4 = test_label out_size msk IN_DELETE ''DELETE'' o3;
        o5 = test_label out_size msk IN_MOVED_FROM ''MOVED_FROM'' o4;
        o6 = test_label out_size msk IN_MOVED_TO ''MOVED_TO'' o5;
        o7 = test_label out_size msk IN_ATTRIB ''ATTRIB'' o6;
        o8 = test_label out_size msk IN_Q_OVERFLOW ''Q_OVERFLOW'' o7;
        o9 = test_label out_size msk IN_IGNORED ''IGNORED'' o8
      in if length o9 = 0 then snd (snprintf_fmt out_size (''mask=0x'' @ hex8 msk)) else o9)"

text \<open>The kernel returns whole events; \<open>in_name\<close> is the name field with its padding.\<close>

record inotify_event =
  in_wd :: int
  in_mask :: u32
  in_cookie :: u32
  in_name :: string

definition inotify_event_text :: "storage \<Rightarrow> inotify_state \<Rightarrow> inotify_event \<Rightarrow> string" where
  "inotify_event_text st i ev =
     (let mask_text = inotify_mask_to_string (in_mask ev) SMALL_BUFFER_SIZE;
          name = (if in_name ev \<noteq> [] \<and> hd (in_name ev) \<noteq> NUL then cstr (in_name ev) else ''(none)'')
      in ''INotify dir='' @ inotify_watch_name st i (in_wd ev) @ '' event='' @ mask_text @ '' name='' @ name @
         '' cookie='' @ udec (unat (in_cookie ev)))"

fun handle_inotify_events :: "storage \<Rightarrow> inotify_state \<Rightarrow> inotify_event list read_result list \<Rightarrow> (log_level \<times> string) list" where
  "handle_inotify_events st i [] = []"
| "handle_inotify_events st i (r # rs) =
     (case r of
        Rd_eintr \<Rightarrow> handle_inotify_events st i rs
      | Rd_again \<Rightarrow> []
      | Rd_error e \<Rightarrow> [(LOG_LEVEL_ERROR, ''INotify read failed errno='' @ sdec e)]
      | Rd_eof \<Rightarrow> []
      | Rd_partial \<Rightarrow> []
      | Rd_data evs \<Rightarrow> map (\<lambda>ev. (LOG_LEVEL_INFO, inotify_event_text st i ev)) evs @ handle_inotify_events st i rs)"

section \<open>The text of a mask\<close>

text \<open>The names of the bits, in the order the code tests them, and their text joined by bars.\<close>

definition mask_labels :: "u32 \<Rightarrow> string list" where
  "mask_labels msk = map snd (filter (\<lambda>p. msk AND fst p \<noteq> 0)
     [(IN_CREATE, ''CREATE''), (IN_CLOSE_WRITE, ''CLOSE_WRITE''), (IN_MODIFY, ''MODIFY''), (IN_DELETE, ''DELETE''),
      (IN_MOVED_FROM, ''MOVED_FROM''), (IN_MOVED_TO, ''MOVED_TO''), (IN_ATTRIB, ''ATTRIB''),
      (IN_Q_OVERFLOW, ''Q_OVERFLOW''), (IN_IGNORED, ''IGNORED'')])"

fun joined :: "string list \<Rightarrow> string" where
  "joined [] = []"
| "joined [l] = l"
| "joined (l # ls) = l @ ''|'' @ joined ls"

text \<open>The same text built from the left, as the code does.\<close>

definition add_label :: "string \<Rightarrow> string \<Rightarrow> string" where
  "add_label out label = (if out = [] then label else out @ ''|'' @ label)"

lemma append_label: "length out + length label + 2 < n \<Longrightarrow> NUL \<notin> set label \<Longrightarrow> append_event_label n label out = add_label out label"
  by (simp add: append_event_label_def add_label_def Let_def snprintf_s_id)

lemma add_label_length: "length (add_label out label) \<le> length out + 1 + length label"
  by (simp add: add_label_def)

lemma foldl_joined: "list_all (\<lambda>l. l \<noteq> []) (l # ls) \<Longrightarrow> foldl add_label l ls = joined (l # ls)"
proof (induction ls arbitrary: l)
  case (Cons k ls)
  have "joined ((l @ ''|'' @ k) # ls) = l @ ''|'' @ joined (k # ls)" for l by (cases ls) simp_all
  then show ?case using Cons.IH [of "add_label l k"] Cons.prems by (simp add: add_label_def)
qed simp

definition step_label :: "u32 \<Rightarrow> string \<Rightarrow> u32 \<times> string \<Rightarrow> string" where
  "step_label msk out p = (if msk AND fst p \<noteq> 0 then add_label out (snd p) else out)"

lemma foldl_steps: "foldl (step_label msk) out ps = foldl add_label out (map snd (filter (\<lambda>p. msk AND fst p \<noteq> 0) ps))"
  by (induction ps arbitrary: out) (simp_all add: step_label_def)

lemma step_length: "length (step_label msk out p) \<le> length out + 1 + length (snd p)"
  using add_label_length [of out "snd p"] by (simp add: step_label_def)

lemma label_step: "length out \<le> k \<Longrightarrow> k + length label + 2 < n \<Longrightarrow> NUL \<notin> set label \<Longrightarrow>
   test_label n msk b label out = step_label msk out (b, label) \<and> length (step_label msk out (b, label)) \<le> k + 1 + length label"
  using step_length [of msk out "(b, label)"] by (simp add: test_label_def step_label_def append_label)

lemma hex8_length [length_simps]: "length (hex8 w) = 8"
  by (simp add: hex8_def)

lemma masks_joined: "inotify_mask_to_string msk SMALL_BUFFER_SIZE =
   (if mask_labels msk = [] then ''mask=0x'' @ hex8 msk else joined (mask_labels msk))"
proof -
  let ?f = "step_label msk"
  let ?ps = "[(IN_CREATE, ''CREATE''), (IN_CLOSE_WRITE, ''CLOSE_WRITE''), (IN_MODIFY, ''MODIFY''), (IN_DELETE, ''DELETE''),
      (IN_MOVED_FROM, ''MOVED_FROM''), (IN_MOVED_TO, ''MOVED_TO''), (IN_ATTRIB, ''ATTRIB''),
      (IN_Q_OVERFLOW, ''Q_OVERFLOW''), (IN_IGNORED, ''IGNORED'')]"
  have eq: "inotify_mask_to_string msk SMALL_BUFFER_SIZE =
      (let o9 = foldl ?f [] ?ps in if length o9 = 0 then snd (snprintf_fmt SMALL_BUFFER_SIZE (''mask=0x'' @ hex8 msk)) else o9)"
  proof -
    note b1 = label_step [of "[]" 0 "''CREATE''" 256 msk IN_CREATE, simplified]
    note b2 = label_step [OF conjunct2 [OF b1], of "''CLOSE_WRITE''" 256 msk IN_CLOSE_WRITE, simplified]
    note b3 = label_step [OF conjunct2 [OF b2], of "''MODIFY''" 256 msk IN_MODIFY, simplified]
    note b4 = label_step [OF conjunct2 [OF b3], of "''DELETE''" 256 msk IN_DELETE, simplified]
    note b5 = label_step [OF conjunct2 [OF b4], of "''MOVED_FROM''" 256 msk IN_MOVED_FROM, simplified]
    note b6 = label_step [OF conjunct2 [OF b5], of "''MOVED_TO''" 256 msk IN_MOVED_TO, simplified]
    note b7 = label_step [OF conjunct2 [OF b6], of "''ATTRIB''" 256 msk IN_ATTRIB, simplified]
    note b8 = label_step [OF conjunct2 [OF b7], of "''Q_OVERFLOW''" 256 msk IN_Q_OVERFLOW, simplified]
    note b9 = label_step [OF conjunct2 [OF b8], of "''IGNORED''" 256 msk IN_IGNORED, simplified]
    show ?thesis
      unfolding inotify_mask_to_string_def SMALL_BUFFER_SIZE_def
      by (simp add: Let_def b1 b2 b3 b4 b5 b6 b7 b8 b9)
  qed
  have labels: "foldl ?f [] ?ps = foldl add_label [] (mask_labels msk)"
    by (simp only: foldl_steps mask_labels_def)
  have ne: "list_all (\<lambda>l. l \<noteq> []) (mask_labels msk)"
    by (auto simp: mask_labels_def list_all_iff)
  show ?thesis
  proof (cases "mask_labels msk")
    case Nil
    then show ?thesis
      unfolding eq labels by (simp add: snprintf_fmt_def SMALL_BUFFER_SIZE_def hex8_length)
  next
    case (Cons l ls)
    then have "foldl ?f [] ?ps = joined (l # ls)" "joined (l # ls) \<noteq> []"
      using ne foldl_joined [of l ls] labels by (simp_all add: add_label_def) (cases ls; simp)
    then show ?thesis unfolding eq using Cons by simp
  qed
qed

section \<open>Properties of the event log\<close>

text \<open>The data a series of reads delivered.\<close>

fun read_data :: "'a read_result list \<Rightarrow> 'a list" where
  "read_data [] = []"
| "read_data (r # rs) = (case r of Rd_data x \<Rightarrow> x # read_data rs | _ \<Rightarrow> read_data rs)"

lemma pipe_reads: "set rs \<subseteq> insert Rd_eintr (range Rd_data) \<Longrightarrow>
   handle_worker_pipe (rs @ Rd_again # rest) = map (\<lambda>ev. (LOG_LEVEL_INFO, worker_event_text ev)) (read_data rs)"
  by (induction rs) (auto split: read_result.splits)

lemma inotify_reads: "set rs \<subseteq> insert Rd_eintr (range Rd_data) \<Longrightarrow>
   handle_inotify_events st i (rs @ Rd_again # rest) =
     map (\<lambda>ev. (LOG_LEVEL_INFO, inotify_event_text st i ev)) (concat (read_data rs))"
  by (induction rs) (auto split: read_result.splits)

text \<open>
  The drains lose nothing and stop. Interrupted calls are repeated; when the descriptor is drained
  every event a worker wrote and every file event of the kernel has given exactly one line, in order,
  and nothing after the drained state is read.
\<close>

theorem events_logged_once:
  assumes "set rs \<subseteq> insert Rd_eintr (range Rd_data)" "set ks \<subseteq> insert Rd_eintr (range Rd_data)"
  shows "handle_worker_pipe (rs @ Rd_again # rest) = map (\<lambda>ev. (LOG_LEVEL_INFO, worker_event_text ev)) (read_data rs) \<and>
    handle_inotify_events st i (ks @ Rd_again # later) =
      map (\<lambda>ev. (LOG_LEVEL_INFO, inotify_event_text st i ev)) (concat (read_data ks))"
  by (simp add: assms pipe_reads inotify_reads)

theorem events_logged_once_witness:
  "handle_worker_pipe [Rd_eintr, Rd_data \<lparr>ev_job_id = 7, ev_state = JOB_STATE_DONE\<rparr>, Rd_again, Rd_eof] =
     [(LOG_LEVEL_INFO, worker_event_text \<lparr>ev_job_id = 7, ev_state = JOB_STATE_DONE\<rparr>)]"
  using events_logged_once [of "[Rd_eintr, Rd_data \<lparr>ev_job_id = 7, ev_state = JOB_STATE_DONE\<rparr>]" "[]" "[Rd_eof]"
      storage_default "\<lparr>i_fd = 5, i_wd_uploads = 1, i_wd_results = 2, i_wd_temp = 3\<rparr>" "[]"]
  by simp

text \<open>
  The text of an inotify mask names exactly the tested bits of the mask that are set, in the fixed
  order, separated by bars; a mask without any of them is printed in hexadecimal. No label is ever left
  out for lack of room in the 256 bytes of the buffer.
\<close>

theorem inotify_mask_text_exact:
  "inotify_mask_to_string msk SMALL_BUFFER_SIZE =
     (if mask_labels msk = [] then ''mask=0x'' @ hex8 msk else joined (mask_labels msk))"
  by (rule masks_joined)

end
