(* ===== verification/Startup.thy ===== *)
theory Startup
  imports Server_Loop Events Runtime_Config
begin

text \<open>
  The life of the server process around its loop: \<^verbatim>\<open>server_run\<close> up to the loop, \<^verbatim>\<open>init_workers\<close>,
  \<^verbatim>\<open>stop_workers\<close>, \<^verbatim>\<open>init_inotify\<close>, \<^verbatim>\<open>close_inotify\<close>, the descriptor part of \<^verbatim>\<open>cleanup_server_state\<close>, and
  the listening sockets of \<^verbatim>\<open>src/server/net.c\<close>. What the kernel answers to each call is a \<open>boot\<close> record;
  what the process holds is a \<open>kernel\<close> record: open descriptors, socket files, running worker threads.
  Client sockets are those of the \<open>world\<close>.
\<close>

section \<open>The code\<close>

record kernel =
  k_open :: "int set"
  k_nodes :: "path set"
  k_threads :: "nat set"

record boot =
  b_blocklist_mutex :: bool
  b_sigaction :: bool
  b_jobs_mutex :: bool
  b_queue_mutex :: bool
  b_queue_cond :: bool
  b_pipe :: "(int \<times> int) option"
  b_getfl :: bool
  b_setfl :: bool
  b_inotify_init :: "int option"
  b_watch :: "path \<Rightarrow> int option"
  b_socket :: "nat \<Rightarrow> int option"
  b_setsockopt :: "nat \<Rightarrow> bool"
  b_bind :: "nat \<Rightarrow> u16 \<Rightarrow> bool"
  b_bind_unix :: "path \<Rightarrow> bool"
  b_listen :: "nat \<Rightarrow> bool"
  b_unlink :: "path \<Rightarrow> bool"
  b_thread :: "nat \<Rightarrow> bool"

definition open_fd :: "int \<Rightarrow> kernel \<Rightarrow> kernel" where
  "open_fd fd k = k\<lparr>k_open := insert fd (k_open k)\<rparr>"

definition close_fd :: "int \<Rightarrow> kernel \<Rightarrow> kernel" where
  "close_fd fd k = k\<lparr>k_open := k_open k - {fd}\<rparr>"

subsection \<open>Sockets\<close>

definition set_nonblocking :: "boot \<Rightarrow> bool" where
  "set_nonblocking b = (if \<not> b_getfl b then False else if \<not> b_setfl b then False else True)"

text \<open>\<open>i\<close> numbers the calls of \<^verbatim>\<open>socket\<close>: 0 for users, 1 for administrators, 2 for the UNIX socket.\<close>

definition create_listen_socket :: "boot \<Rightarrow> nat \<Rightarrow> u16 \<Rightarrow> kernel \<Rightarrow> kernel \<times> int option" where
  "create_listen_socket b i port k =
     (case b_socket b i of None \<Rightarrow> (k, None)
      | Some fd \<Rightarrow>
          let k1 = open_fd fd k in
          if \<not> b_setsockopt b i then (close_fd fd k1, None)
          else if \<not> b_bind b i port then (close_fd fd k1, None)
          else if \<not> b_listen b i then (close_fd fd k1, None)
          else (k1, Some fd))"

definition SUN_PATH_SIZE :: nat where "SUN_PATH_SIZE = 108"

text \<open>\<open>b_unlink\<close> also stands for \<^verbatim>\<open>ENOENT\<close>; whatever was at the path is gone after it.\<close>

definition create_unix_listen_socket :: "boot \<Rightarrow> path \<Rightarrow> filesys \<Rightarrow> kernel \<Rightarrow> filesys \<times> kernel \<times> int option" where
  "create_unix_listen_socket b path fs k =
     (if path = [] then (fs, k, None)
      else case b_socket b 2 of None \<Rightarrow> (fs, k, None)
      | Some fd \<Rightarrow>
          let k1 = open_fd fd k in
          if length path \<ge> SUN_PATH_SIZE then (fs, close_fd fd k1, None)
          else if \<not> b_unlink b path then (fs, close_fd fd k1, None)
          else let fs1 = unlink fs path; k2 = k1\<lparr>k_nodes := k_nodes k1 - {path}\<rparr> in
          if \<not> b_bind_unix b path then (fs1, close_fd fd k2, None)
          else let k3 = k2\<lparr>k_nodes := insert path (k_nodes k2)\<rparr> in
          if \<not> b_listen b 2 then (fs1, (close_fd fd k3)\<lparr>k_nodes := k_nodes k3 - {path}\<rparr>, None)
          else (fs1, k3, Some fd))"

subsection \<open>Inotify\<close>

definition no_watches :: inotify_state where
  "no_watches = \<lparr>i_fd = -1, i_wd_uploads = -1, i_wd_results = -1, i_wd_temp = -1\<rparr>"

definition init_inotify :: "boot \<Rightarrow> storage \<Rightarrow> inotify_state \<Rightarrow> kernel \<Rightarrow> inotify_state \<times> kernel \<times> bool" where
  "init_inotify b st s k =
     (case b_inotify_init b of None \<Rightarrow> (s\<lparr>i_fd := -1\<rparr>, k, False)
      | Some fd \<Rightarrow>
          let s1 = s\<lparr>i_fd := fd\<rparr>; k1 = open_fd fd k in
          case b_watch b (g_uploads st) of None \<Rightarrow> (s1\<lparr>i_wd_uploads := -1\<rparr>, k1, False)
          | Some u \<Rightarrow> let s2 = s1\<lparr>i_wd_uploads := u\<rparr> in
          case b_watch b (g_results st) of None \<Rightarrow> (s2\<lparr>i_wd_results := -1\<rparr>, k1, False)
          | Some r \<Rightarrow> let s3 = s2\<lparr>i_wd_results := r\<rparr> in
          case b_watch b (g_temp st) of None \<Rightarrow> (s3\<lparr>i_wd_temp := -1\<rparr>, k1, False)
          | Some t \<Rightarrow> (s3\<lparr>i_wd_temp := t\<rparr>, k1, True))"

text \<open>Removing a watch changes nothing else; closing the descriptor would remove them too.\<close>

definition close_inotify :: "inotify_state \<Rightarrow> kernel \<Rightarrow> inotify_state \<times> kernel" where
  "close_inotify s k =
     (if i_fd s < 0 then (s, k)
      else let s1 = (if i_wd_uploads s \<ge> 0 then s\<lparr>i_wd_uploads := -1\<rparr> else s);
               s2 = (if i_wd_results s1 \<ge> 0 then s1\<lparr>i_wd_results := -1\<rparr> else s1);
               s3 = (if i_wd_temp s2 \<ge> 0 then s2\<lparr>i_wd_temp := -1\<rparr> else s2)
           in (s3\<lparr>i_fd := -1\<rparr>, close_fd (i_fd s3) k))"

subsection \<open>Workers\<close>

text \<open>The loop from index \<open>i\<close> for \<open>n\<close> more workers.\<close>

fun start_from :: "boot \<Rightarrow> nat \<Rightarrow> nat \<Rightarrow> kernel \<Rightarrow> kernel \<times> bool" where
  "start_from b i 0 k = (k, True)"
| "start_from b i (Suc n) k =
     (if \<not> b_thread b i then (k, False)
      else start_from b (Suc i) n (k\<lparr>k_threads := insert i (k_threads k)\<rparr>))"

definition init_workers :: "boot \<Rightarrow> runtime_config \<Rightarrow> kernel \<Rightarrow> kernel \<times> bool" where
  "init_workers b cfg k = start_from b 0 (nat (rc_worker_count cfg)) k"

text \<open>\<^verbatim>\<open>pthread_join\<close> waits for each of the threads; stopping the queue is in \<open>cleanup_server_state\<close>.\<close>

definition stop_workers :: "runtime_config \<Rightarrow> kernel \<Rightarrow> kernel" where
  "stop_workers cfg k = k\<lparr>k_threads := k_threads k - {0..<nat (rc_worker_count cfg)}\<rparr>"

subsection \<open>The server\<close>

record server_fds =
  listen_fd_user :: int
  listen_fd_admin :: int
  listen_fd_unix :: int
  pipe_read_fd :: int
  pipe_write_fd :: int
  inotify_of :: inotify_state

definition no_fds :: server_fds where
  "no_fds = \<lparr>listen_fd_user = -1, listen_fd_admin = -1, listen_fd_unix = -1, pipe_read_fd = -1, pipe_write_fd = -1,
     inotify_of = no_watches\<rparr>"

definition close_if_open :: "int \<Rightarrow> kernel \<Rightarrow> kernel" where
  "close_if_open fd k = (if fd \<ge> 0 then close_fd fd k else k)"

text \<open>The part of \<^verbatim>\<open>cleanup_server_state\<close> between the sessions and the queue.\<close>

definition release_descriptors :: "path \<Rightarrow> server_fds \<Rightarrow> kernel \<Rightarrow> kernel" where
  "release_descriptors path d k =
     (let k1 = close_if_open (listen_fd_user d) k;
          k2 = close_if_open (listen_fd_admin d) k1;
          k3 = (if listen_fd_unix d \<ge> 0
                then (close_fd (listen_fd_unix d) k2)\<lparr>k_nodes := k_nodes k2 - {path}\<rparr> else k2);
          k4 = close_if_open (pipe_read_fd d) k3;
          k5 = close_if_open (pipe_write_fd d) k4
      in snd (close_inotify (inotify_of d) k5))"

record startup =
  su_world :: world
  su_fds :: server_fds
  su_storage :: storage

definition clean_up :: "runtime_config \<Rightarrow> bool \<Rightarrow> bool \<Rightarrow> bool \<Rightarrow> startup \<Rightarrow> kernel \<Rightarrow> kernel \<times> world option" where
  "clean_up cfg workers_started queue_initialized jobs_initialized s k =
     (let k1 = (if workers_started then stop_workers cfg k else k) in
      (release_descriptors (rc_unix_socket_path cfg) (su_fds s) k1,
       cleanup_server_state workers_started queue_initialized jobs_initialized (su_world s)))"

text \<open>The state after \<^verbatim>\<open>memset\<close>.\<close>

definition zero_world :: "(int \<Rightarrow> sock option) \<Rightarrow> filesys \<Rightarrow> world" where
  "zero_world socks fs = \<lparr>w_socks = socks, w_clients = replicate MAX_CLIENTS free_session, w_blocklist = [],
     w_jobs = \<lparr>tbl_jobs = [], tbl_next_id = 0\<rparr>,
     w_queue = \<lparr>q_nodes = Map.empty, q_head = None, q_tail = None, q_stopped = False\<rparr>, w_fs = fs\<rparr>"

definition port_of :: "int \<Rightarrow> u16" where "port_of n = word_of_int n"

text \<open>\<^verbatim>\<open>EXIT_FAILURE\<close> with what is left, or the state in which the loop is entered.\<close>

datatype start_result = Start_failed kernel "world option" | Started kernel startup

text \<open>The first half of \<^verbatim>\<open>server_run\<close>: blocklist, signals, storage, job table, queue.\<close>

definition start_data :: "boot \<Rightarrow> runtime_config \<Rightarrow> storage \<Rightarrow> world \<Rightarrow> kernel \<Rightarrow> start_result + startup" where
  "start_data b cfg st w k =
     (let fail = (\<lambda>jobs w st. case clean_up cfg False False jobs \<lparr>su_world = w, su_fds = no_fds, su_storage = st\<rparr> k of
                    (k', w') \<Rightarrow> Inl (Start_failed k' w')) in
      case blocklist_init (b_blocklist_mutex b) of None \<Rightarrow> Inl (Start_failed k (Some w))
      | Some bl \<Rightarrow> let w1 = w\<lparr>w_blocklist := bl\<rparr> in
      if \<not> b_sigaction b then fail False w1 st
      else case storage_set_root st (rc_storage_root cfg) of (st1, ok1) \<Rightarrow>
      if \<not> ok1 then fail False w1 st1
      else case storage_init_dirs st1 (w_fs w1) of (fs1, ok2) \<Rightarrow> let w2 = w1\<lparr>w_fs := fs1\<rparr> in
      if \<not> ok2 then fail False w2 st1
      else case job_table_init (b_jobs_mutex b) of None \<Rightarrow> fail False w2 st1
      | Some t \<Rightarrow> let w3 = w2\<lparr>w_jobs := t\<rparr> in
      case job_queue_init (b_queue_mutex b) (b_queue_cond b) of None \<Rightarrow> fail True w3 st1
      | Some q \<Rightarrow> Inr \<lparr>su_world = w3\<lparr>w_queue := q\<rparr>, su_fds = no_fds, su_storage = st1\<rparr>)"

text \<open>The second half: pipe, inotify, the three listening sockets, the workers.\<close>

definition start_fds :: "boot \<Rightarrow> runtime_config \<Rightarrow> startup \<Rightarrow> kernel \<Rightarrow> kernel \<times> startup \<times> bool" where
  "start_fds b cfg s k =
     (case b_pipe b of None \<Rightarrow> (k, s, False)
      | Some (r, wr) \<Rightarrow>
      let d1 = (su_fds s)\<lparr>pipe_read_fd := r, pipe_write_fd := wr\<rparr>; k1 = open_fd wr (open_fd r k) in
      if \<not> set_nonblocking b then (k1, s\<lparr>su_fds := d1\<rparr>, False)
      else case init_inotify b (su_storage s) (inotify_of d1) k1 of (i, k2, ok) \<Rightarrow>
      let d2 = d1\<lparr>inotify_of := i\<rparr> in
      if \<not> ok then (k2, s\<lparr>su_fds := d2\<rparr>, False)
      else case create_listen_socket b 0 (port_of (rc_user_port cfg)) k2 of (k3, fu) \<Rightarrow>
      case fu of None \<Rightarrow> (k3, s\<lparr>su_fds := d2\<lparr>listen_fd_user := -1\<rparr>\<rparr>, False)
      | Some u \<Rightarrow> let d3 = d2\<lparr>listen_fd_user := u\<rparr> in
      case create_listen_socket b 1 (port_of (rc_admin_port cfg)) k3 of (k4, fa) \<Rightarrow>
      case fa of None \<Rightarrow> (k4, s\<lparr>su_fds := d3\<lparr>listen_fd_admin := -1\<rparr>\<rparr>, False)
      | Some a \<Rightarrow> let d4 = d3\<lparr>listen_fd_admin := a\<rparr> in
      case create_unix_listen_socket b (rc_unix_socket_path cfg) (w_fs (su_world s)) k4 of (fs1, k5, fx) \<Rightarrow>
      let s1 = s\<lparr>su_world := (su_world s)\<lparr>w_fs := fs1\<rparr>\<rparr> in
      case fx of None \<Rightarrow> (k5, s1\<lparr>su_fds := d4\<lparr>listen_fd_unix := -1\<rparr>\<rparr>, False)
      | Some x \<Rightarrow> (k5, s1\<lparr>su_fds := d4\<lparr>listen_fd_unix := x\<rparr>\<rparr>, True))"

definition server_start :: "boot \<Rightarrow> runtime_config \<Rightarrow> storage \<Rightarrow> world \<Rightarrow> kernel \<Rightarrow> start_result" where
  "server_start b cfg st w k =
     (case start_data b cfg st w k of Inl r \<Rightarrow> r
      | Inr s \<Rightarrow>
      let fail = (\<lambda>s k. case clean_up cfg False True True s k of (k', w') \<Rightarrow> Start_failed k' w') in
      case start_fds b cfg s k of (k1, s1, ok) \<Rightarrow>
      if \<not> ok then fail s1 k1
      else case init_workers b cfg k1 of (k2, ok2) \<Rightarrow>
      if \<not> ok2 then fail s1 k2 else Started k2 s1)"

text \<open>
  The loop and the end of \<^verbatim>\<open>server_run\<close>. One element of the list is one turn of the loop: \<^verbatim>\<open>poll\<close> was
  interrupted, failed, timed out or reported events; when the list is used up \<^verbatim>\<open>g_running\<close> is 0. The
  result says whether \<^verbatim>\<open>EXIT_SUCCESS\<close> is returned.
\<close>

datatype poll_result = Poll_eintr | Poll_error | Poll_timeout round_io | Poll_ready round_io

fun run_loop :: "poll_result list \<Rightarrow> world \<Rightarrow> world" where
  "run_loop [] w = w"
| "run_loop (r # rs) w =
     (case r of
        Poll_eintr \<Rightarrow> run_loop rs w
      | Poll_error \<Rightarrow> w
      | Poll_timeout io \<Rightarrow> run_loop rs (server_round io False w)
      | Poll_ready io \<Rightarrow> run_loop rs (server_round io True w))"

definition server_run :: "boot \<Rightarrow> runtime_config \<Rightarrow> storage \<Rightarrow> world \<Rightarrow> poll_result list \<Rightarrow> kernel \<Rightarrow> kernel \<times> world option \<times> bool" where
  "server_run b cfg st w polls k =
     (case server_start b cfg st w k of
        Start_failed k1 w1 \<Rightarrow> (k1, w1, False)
      | Started k1 su \<Rightarrow>
          (case clean_up cfg True True True (su\<lparr>su_world := run_loop polls (su_world su)\<rparr>) k1 of (k2, w2) \<Rightarrow> (k2, w2, True)))"

section \<open>Descriptors\<close>

text \<open>The descriptors the kernel hands out are different from each other and from those in use.\<close>

definition boot_fds :: "boot \<Rightarrow> int list" where
  "boot_fds b = (case b_pipe b of None \<Rightarrow> [] | Some (r, w) \<Rightarrow> [r, w]) @
     concat (map (\<lambda>r. case r of None \<Rightarrow> [] | Some fd \<Rightarrow> [fd]) [b_inotify_init b, b_socket b 0, b_socket b 1, b_socket b 2])"

definition boot_fresh :: "boot \<Rightarrow> kernel \<Rightarrow> bool" where
  "boot_fresh b k \<longleftrightarrow> distinct (boot_fds b) \<and> set (boot_fds b) \<subseteq> {0..} - k_open k"

definition fds_of :: "server_fds \<Rightarrow> int set" where
  "fds_of d = {fd \<in> {listen_fd_user d, listen_fd_admin d, listen_fd_unix d, pipe_read_fd d, pipe_write_fd d, i_fd (inotify_of d)}. 0 \<le> fd}"

lemma close_if_open_simps [frame_simps]:
  "k_open (close_if_open fd k) = k_open k - {f \<in> {fd}. 0 \<le> f}" "k_nodes (close_if_open fd k) = k_nodes k"
  "k_threads (close_if_open fd k) = k_threads k"
  by (auto simp: close_if_open_def close_fd_def)

lemma open_close_simps [frame_simps]:
  "k_open (open_fd fd k) = insert fd (k_open k)" "k_open (close_fd fd k) = k_open k - {fd}"
  "k_nodes (open_fd fd k) = k_nodes k" "k_nodes (close_fd fd k) = k_nodes k"
  "k_threads (open_fd fd k) = k_threads k" "k_threads (close_fd fd k) = k_threads k"
  by (simp_all add: open_fd_def close_fd_def)

lemma close_inotify_kernel [frame_simps]:
  "k_open (snd (close_inotify s k)) = k_open k - {f \<in> {i_fd s}. 0 \<le> f}" "k_nodes (snd (close_inotify s k)) = k_nodes k"
  "k_threads (snd (close_inotify s k)) = k_threads k"
  by (auto simp: close_inotify_def Let_def frame_simps)

lemma release_kernel [frame_simps]:
  "k_open (release_descriptors path d k) = k_open k - fds_of d"
  "k_nodes (release_descriptors path d k) = (if 0 \<le> listen_fd_unix d then k_nodes k - {path} else k_nodes k)"
  "k_threads (release_descriptors path d k) = k_threads k"
  by (auto simp: release_descriptors_def Let_def frame_simps fds_of_def)

lemma release_no_fds: "release_descriptors path no_fds k = k"
  by (simp add: release_descriptors_def no_fds_def no_watches_def close_if_open_def close_inotify_def Let_def)

text \<open>What the steps keep: exactly the descriptors of \<open>d\<close> are open beyond those of \<open>k0\<close>.\<close>

definition holds_fds :: "path \<Rightarrow> kernel \<Rightarrow> server_fds \<Rightarrow> kernel \<Rightarrow> bool" where
  "holds_fds path k0 d k \<longleftrightarrow> k_open k = k_open k0 \<union> fds_of d \<and> k_open k0 \<inter> fds_of d = {} \<and> k_threads k = k_threads k0 \<and>
     k_nodes k - {path} = k_nodes k0 - {path} \<and> (path \<in> k_nodes k \<longrightarrow> path \<in> k_nodes k0 \<or> 0 \<le> listen_fd_unix d)"

lemma listen_socket_cases:
  assumes "create_listen_socket b i port k = (k', r)"
  obtains "r = None" "k' = k" | fd where "r = None" "b_socket b i = Some fd" "k' = close_fd fd (open_fd fd k)"
  | fd where "r = Some fd" "b_socket b i = Some fd" "k' = open_fd fd k"
proof (cases "b_socket b i")
  case None
  with assms that(1) show ?thesis by (simp add: create_listen_socket_def)
next
  case (Some fd)
  with assms have "(r = None \<and> k' = close_fd fd (open_fd fd k)) \<or> (r = Some fd \<and> k' = open_fd fd k)"
    by (auto simp: create_listen_socket_def Let_def split: if_splits)
  with that(2,3) Some show ?thesis by blast
qed

lemma unix_socket_cases:
  assumes "create_unix_listen_socket b path fs k = (fs', k', r)"
  obtains "r = None" "k' = k"
  | fd where "r = None" "b_socket b 2 = Some fd" "k_open k' = k_open k - {fd}" "k_threads k' = k_threads k"
      "k_nodes k' = k_nodes k \<or> k_nodes k' = k_nodes k - {path}"
  | fd where "r = Some fd" "b_socket b 2 = Some fd" "k_open k' = insert fd (k_open k)" "k_threads k' = k_threads k"
      "k_nodes k' = insert path (k_nodes k)"
proof (cases "b_socket b 2")
  case None
  with assms that(1) show ?thesis by (simp add: create_unix_listen_socket_def split: if_splits)
next
  case (Some fd)
  with assms have "(r = None \<and> k' = k) \<or>
      (r = None \<and> k_open k' = k_open k - {fd} \<and> k_threads k' = k_threads k \<and>
        (k_nodes k' = k_nodes k \<or> k_nodes k' = k_nodes k - {path})) \<or>
      (r = Some fd \<and> k_open k' = insert fd (k_open k) \<and> k_threads k' = k_threads k \<and> k_nodes k' = insert path (k_nodes k))"
    by (auto simp: create_unix_listen_socket_def Let_def frame_simps split: if_splits)
  with that Some show ?thesis by blast
qed

lemma inotify_cases:
  assumes "init_inotify b st no_watches k = (i, k', ok)"
  obtains "\<not> ok" "k' = k" "i_fd i = -1" | fd where "b_inotify_init b = Some fd" "k' = open_fd fd k" "i_fd i = fd"
  using assms by (auto simp: init_inotify_def Let_def no_watches_def split: option.splits)

lemmas fds_simps = holds_fds_def fds_of_def frame_simps no_fds_def no_watches_def

lemma fresh_pipe: "boot_fresh b k \<Longrightarrow> b_pipe b = Some (r, w) \<Longrightarrow> 0 \<le> r \<and> 0 \<le> w \<and> r \<notin> k_open k \<and> w \<notin> k_open k \<and> r \<noteq> w"
  by (simp add: boot_fresh_def boot_fds_def)

lemma fresh_inotify: "boot_fresh b k \<Longrightarrow> b_pipe b = Some (r, w) \<Longrightarrow> b_inotify_init b = Some f \<Longrightarrow>
   0 \<le> f \<and> f \<notin> k_open k \<and> f \<noteq> r \<and> f \<noteq> w"
  by (simp add: boot_fresh_def boot_fds_def)

lemma fresh_socket0: "boot_fresh b k \<Longrightarrow> b_pipe b = Some (r, w) \<Longrightarrow> b_inotify_init b = Some f \<Longrightarrow> b_socket b 0 = Some u \<Longrightarrow>
   0 \<le> u \<and> u \<notin> k_open k \<and> u \<noteq> r \<and> u \<noteq> w \<and> u \<noteq> f"
  by (auto simp: boot_fresh_def boot_fds_def)

lemma fresh_socket1: "boot_fresh b k \<Longrightarrow> b_pipe b = Some (r, w) \<Longrightarrow> b_inotify_init b = Some f \<Longrightarrow> b_socket b 0 = Some u \<Longrightarrow>
   b_socket b 1 = Some a \<Longrightarrow> 0 \<le> a \<and> a \<notin> k_open k \<and> a \<noteq> r \<and> a \<noteq> w \<and> a \<noteq> f \<and> a \<noteq> u"
  by (auto simp: boot_fresh_def boot_fds_def)

lemma fresh_socket2: "boot_fresh b k \<Longrightarrow> b_pipe b = Some (r, w) \<Longrightarrow> b_inotify_init b = Some f \<Longrightarrow> b_socket b 0 = Some u \<Longrightarrow>
   b_socket b 1 = Some a \<Longrightarrow> b_socket b 2 = Some x \<Longrightarrow> 0 \<le> x \<and> x \<notin> k_open k \<and> x \<noteq> r \<and> x \<noteq> w \<and> x \<noteq> f \<and> x \<noteq> u \<and> x \<noteq> a"
  by (auto simp: boot_fresh_def boot_fds_def)

text \<open>The descriptor sets of the successive states of \<open>start_fds\<close>.\<close>

lemma fds_of_none: "fds_of no_fds = {}"
  by (auto simp: fds_simps)

lemma fds_of_pipe: "0 \<le> r \<Longrightarrow> 0 \<le> w \<Longrightarrow> fds_of (no_fds\<lparr>pipe_read_fd := r, pipe_write_fd := w\<rparr>) = {r, w}"
  by (auto simp: fds_simps)

lemma fds_of_inotify: "i_fd (inotify_of d) = -1 \<Longrightarrow>
   fds_of (d\<lparr>inotify_of := i\<rparr>) = (if 0 \<le> i_fd i then insert (i_fd i) (fds_of d) else fds_of d)"
  by (auto simp: fds_simps)

lemma fds_of_user: "listen_fd_user d = -1 \<Longrightarrow> fds_of (d\<lparr>listen_fd_user := u\<rparr>) = (if 0 \<le> u then insert u (fds_of d) else fds_of d)"
  by (auto simp: fds_simps)

lemma fds_of_admin: "listen_fd_admin d = -1 \<Longrightarrow> fds_of (d\<lparr>listen_fd_admin := u\<rparr>) = (if 0 \<le> u then insert u (fds_of d) else fds_of d)"
  by (auto simp: fds_simps)

lemma fds_of_unix: "listen_fd_unix d = -1 \<Longrightarrow> fds_of (d\<lparr>listen_fd_unix := u\<rparr>) = (if 0 \<le> u then insert u (fds_of d) else fds_of d)"
  by (auto simp: fds_simps)

lemmas fds_of_steps = fds_of_none fds_of_pipe fds_of_inotify fds_of_user fds_of_admin fds_of_unix

lemma holds_open:
  "holds_fds path k0 d k \<Longrightarrow> fd \<notin> k_open k0 \<Longrightarrow> fds_of d' = insert fd (fds_of d) \<Longrightarrow> listen_fd_unix d' = listen_fd_unix d \<Longrightarrow>
     holds_fds path k0 d' (open_fd fd k)"
  by (simp add: holds_fds_def frame_simps)

lemma holds_same:
  "holds_fds path k0 d k \<Longrightarrow> fds_of d' = fds_of d \<Longrightarrow> listen_fd_unix d' = listen_fd_unix d \<Longrightarrow> holds_fds path k0 d' k"
  by (simp add: holds_fds_def)

lemma holds_closed:
  "holds_fds path k0 d k \<Longrightarrow> fd \<notin> k_open k0 \<Longrightarrow> fd \<notin> fds_of d \<Longrightarrow> holds_fds path k0 d (close_fd fd (open_fd fd k))"
  by (auto simp: holds_fds_def frame_simps)

lemma inotify_stage:
  assumes "init_inotify b st (inotify_of d) k = (i, k', ok)" "inotify_of d = no_watches" "holds_fds path k0 d k"
    "\<And>fd. b_inotify_init b = Some fd \<Longrightarrow> 0 \<le> fd \<and> fd \<notin> k_open k0"
  shows "holds_fds path k0 (d\<lparr>inotify_of := i\<rparr>) k' \<and> (i_fd i = -1 \<and> \<not> ok \<or> b_inotify_init b = Some (i_fd i))"
proof -
  have i: "init_inotify b st no_watches k = (i, k', ok)" and w: "i_fd (inotify_of d) = -1"
    using assms(1,2) by (simp_all add: no_watches_def)
  from i show ?thesis
  proof (cases rule: inotify_cases)
    case 1
    then show ?thesis using holds_same [OF assms(3)] by (simp add: fds_of_inotify [OF w])
  next
    case (2 fd)
    then show ?thesis using holds_open [OF assms(3)] assms(4) [OF 2(1)] by (simp add: fds_of_inotify [OF w])
  qed
qed

lemma listen_stage:
  assumes "create_listen_socket b i port k = (k', r)" "holds_fds path k0 d k"
    "\<And>fd. b_socket b i = Some fd \<Longrightarrow> fd \<notin> k_open k0 \<and> fd \<notin> fds_of d"
  shows "(r = None \<longrightarrow> holds_fds path k0 d k') \<and>
    (\<forall>fd d'. r = Some fd \<longrightarrow> b_socket b i = Some fd \<and>
       (fds_of d' = insert fd (fds_of d) \<longrightarrow> listen_fd_unix d' = listen_fd_unix d \<longrightarrow> holds_fds path k0 d' k'))"
  using assms(1)
proof (cases rule: listen_socket_cases)
  case 1
  then show ?thesis using assms(2) by simp
next
  case (2 fd)
  then show ?thesis using holds_closed [OF assms(2)] assms(3) by simp
next
  case (3 fd)
  then show ?thesis using holds_open [OF assms(2)] assms(3) by simp
qed

lemma unix_stage:
  assumes "create_unix_listen_socket b path fs k = (fs', k', r)" "holds_fds path k0 d k" "listen_fd_unix d = -1"
    "\<And>fd. b_socket b 2 = Some fd \<Longrightarrow> 0 \<le> fd \<and> fd \<notin> k_open k0 \<and> fd \<notin> fds_of d"
  shows "case r of None \<Rightarrow> holds_fds path k0 (d\<lparr>listen_fd_unix := -1\<rparr>) k'
    | Some fd \<Rightarrow> 0 \<le> fd \<and> holds_fds path k0 (d\<lparr>listen_fd_unix := fd\<rparr>) k'"
  using assms(1)
proof (cases rule: unix_socket_cases)
  case 1
  then show ?thesis using holds_same [OF assms(2)] assms(3) by (simp add: fds_of_unix)
next
  case (2 fd)
  then show ?thesis using assms(2-4) by (auto simp: holds_fds_def fds_of_unix)
next
  case (3 fd)
  then show ?thesis using assms(2-4) by (auto simp: holds_fds_def fds_of_unix)
qed

lemma start_fds_holds:
  assumes st: "start_fds b cfg s k = (k', s', ok)" and no: "su_fds s = no_fds" and fresh: "boot_fresh b k"
  shows "holds_fds (rc_unix_socket_path cfg) k (su_fds s') k' \<and> (ok \<longrightarrow> 0 \<le> listen_fd_unix (su_fds s'))"
proof (cases "b_pipe b")
  case None
  then show ?thesis using st no by (auto simp: start_fds_def fds_simps)
next
  case (Some p)
  let ?path = "rc_unix_socket_path cfg"
  obtain r wr where p: "b_pipe b = Some (r, wr)" using Some by (cases p) simp
  note fp = fresh_pipe [OF fresh p]
  let ?d1 = "no_fds\<lparr>pipe_read_fd := r, pipe_write_fd := wr\<rparr>" and ?k1 = "open_fd wr (open_fd r k)"
  have n1: "i_fd (inotify_of ?d1) = -1" by (simp add: no_fds_def no_watches_def)
  have f1: "fds_of ?d1 = {r, wr}" using fp by (simp add: fds_of_pipe)
  have h1: "holds_fds ?path k ?d1 ?k1" using fp f1 by (auto simp: holds_fds_def frame_simps)
  note st1 = st [unfolded start_fds_def, simplified p no Let_def option.case prod.case]
  show ?thesis
  proof (cases "set_nonblocking b")
    case False
    with st1 have "su_fds s' = ?d1" "k' = ?k1" "\<not> ok" by auto
    with h1 show ?thesis by simp
  next
    case nb: True
    obtain i k2 ok2 where i: "init_inotify b (su_storage s) (inotify_of ?d1) ?k1 = (i, k2, ok2)" by (rule prod_cases3)
    let ?d2 = "?d1\<lparr>inotify_of := i\<rparr>"
    have h2: "holds_fds ?path k ?d2 k2" and i2: "i_fd i = -1 \<and> \<not> ok2 \<or> b_inotify_init b = Some (i_fd i)"
      using inotify_stage [OF i _ h1] fresh_inotify [OF fresh p] by (simp_all add: no_fds_def)
    note st2 = st1 [simplified nb i option.case prod.case simp_thms if_True]
    show ?thesis
    proof (cases ok2)
      case False
      with st2 have "su_fds s' = ?d2" "k' = k2" "\<not> ok" by auto
      with h2 show ?thesis by simp
    next
      case True
      with i2 have fi: "b_inotify_init b = Some (i_fd i)" by simp
      have f2: "fds_of ?d2 = {i_fd i, r, wr}"
        using fresh_inotify [OF fresh p fi] f1 fds_of_inotify [of ?d1 i] n1 by simp
      note st3 = st2 [simplified True simp_thms if_False if_True]
      obtain k3 fu where u: "create_listen_socket b 0 (port_of (rc_user_port cfg)) k2 = (k3, fu)" by (rule prod.exhaust)
      note h3 = listen_stage [OF u h2, unfolded f2]
      note st4 = st3 [simplified u prod.case]
      show ?thesis
      proof (cases fu)
        case None
        with st4 have "su_fds s' = ?d2\<lparr>listen_fd_user := -1\<rparr>" "k' = k3" "\<not> ok" by auto
        moreover have "?d2\<lparr>listen_fd_user := -1\<rparr> = ?d2" by (simp add: no_fds_def)
        ultimately show ?thesis using h3 None fresh_socket0 [OF fresh p fi] by simp
      next
        case su: (Some fdu)
        let ?d3 = "?d2\<lparr>listen_fd_user := fdu\<rparr>"
        have n2: "listen_fd_user ?d2 = -1" and n3: "listen_fd_admin ?d3 = -1" by (simp_all add: no_fds_def)
        have bu: "b_socket b 0 = Some fdu" using h3 su fresh_socket0 [OF fresh p fi] by simp
        note fu = fresh_socket0 [OF fresh p fi bu]
        have f3: "fds_of ?d3 = {fdu, i_fd i, r, wr}" using fu f2 fds_of_user [of ?d2 fdu] n2 by simp
        then have h3': "holds_fds ?path k ?d3 k3" using h3 su fresh_socket0 [OF fresh p fi] by simp
        obtain k4 fa where a: "create_listen_socket b 1 (port_of (rc_admin_port cfg)) k3 = (k4, fa)" by (rule prod.exhaust)
        note h4 = listen_stage [OF a h3', unfolded f3]
        note st5 = st4 [simplified su option.case a prod.case]
        show ?thesis
        proof (cases fa)
          case None
          with st5 have "su_fds s' = ?d3\<lparr>listen_fd_admin := -1\<rparr>" "k' = k4" "\<not> ok" by auto
          moreover have "?d3\<lparr>listen_fd_admin := -1\<rparr> = ?d3" by (simp add: no_fds_def)
          ultimately show ?thesis using h4 None fresh_socket1 [OF fresh p fi bu] by simp
        next
          case sa: (Some fda)
          let ?d4 = "?d3\<lparr>listen_fd_admin := fda\<rparr>"
          have ba: "b_socket b 1 = Some fda" using h4 sa fresh_socket1 [OF fresh p fi bu] by simp
          note fa = fresh_socket1 [OF fresh p fi bu ba]
          have f4: "fds_of ?d4 = {fda, fdu, i_fd i, r, wr}" using fa f3 fds_of_admin [of ?d3 fda] n3 by simp
          then have h4': "holds_fds ?path k ?d4 k4" using h4 sa fresh_socket1 [OF fresh p fi bu] by simp
          obtain fs1 k5 fx where x: "create_unix_listen_socket b ?path (w_fs (su_world s)) k4 = (fs1, k5, fx)"
            by (rule prod_cases3)
          have h5: "case fx of None \<Rightarrow> holds_fds ?path k (?d4\<lparr>listen_fd_unix := -1\<rparr>) k5
              | Some fd \<Rightarrow> 0 \<le> fd \<and> holds_fds ?path k (?d4\<lparr>listen_fd_unix := fd\<rparr>) k5"
          proof (rule unix_stage [OF x h4'])
            show "listen_fd_unix ?d4 = -1" by (simp add: no_fds_def)
            show "0 \<le> fd \<and> fd \<notin> k_open k \<and> fd \<notin> fds_of ?d4" if "b_socket b 2 = Some fd" for fd
              unfolding f4 using fresh_socket2 [OF fresh p fi bu ba that] by simp
          qed
          note st6 = st5 [simplified sa option.case x prod.case]
          from st6 h5 show ?thesis by (cases fx) auto
        qed
      qed
    qed
  qed
qed

section \<open>Workers and data\<close>

lemma start_from_kernel:
  "start_from b i n k = (k', ok) \<Longrightarrow> k_open k' = k_open k \<and> k_nodes k' = k_nodes k \<and>
     (\<exists>j. i \<le> j \<and> j \<le> i + n \<and> k_threads k' = k_threads k \<union> {i..<j} \<and> (ok \<longleftrightarrow> j = i + n) \<and> (\<forall>m\<in>{i..<j}. b_thread b m))"
proof (induction b i n k rule: start_from.induct)
  case (2 b i n k)
  show ?case
  proof (cases "b_thread b i")
    case True
    with 2 obtain j where j: "Suc i \<le> j" "j \<le> Suc i + n" "k_threads k' = insert i (k_threads k) \<union> {Suc i..<j}"
      "ok \<longleftrightarrow> j = Suc i + n" "\<forall>m\<in>{Suc i..<j}. b_thread b m" and k: "k_open k' = k_open k" "k_nodes k' = k_nodes k" by auto
    have "{i..<j} = insert i {Suc i..<j}" using j(1) by auto
    with j k True show ?thesis by (intro conjI exI [of _ j]) auto
  next
    case False
    with 2(2) show ?thesis by (intro conjI exI [of _ i]) auto
  qed
qed auto

lemma start_from_fails:
  "b_thread b m = False \<Longrightarrow> {i..<m} \<subseteq> {x. b_thread b x} \<Longrightarrow> i \<le> m \<Longrightarrow> m < i + n \<Longrightarrow>
     start_from b i n k = (k\<lparr>k_threads := k_threads k \<union> {i..<m}\<rparr>, False)"
proof (induction n arbitrary: i k)
  case (Suc n)
  show ?case
  proof (cases "i = m")
    case False
    have m: "{i..<m} = insert i {Suc i..<m}" using False Suc.prems by auto
    have i: "b_thread b i" "{Suc i..<m} \<subseteq> {x. b_thread b x}" "Suc i \<le> m" "m < Suc i + n"
      using Suc.prems(2) False Suc.prems(3,4) by (simp_all add: m)
    then show ?thesis using Suc.IH [OF Suc.prems(1) i(2-4)] i(1) by (simp add: m)
  qed (use Suc.prems in simp)
qed simp

lemma start_data_ok:
  assumes "start_data b cfg st (zero_world socks fs) k = Inr s"
  shows "su_fds s = no_fds \<and> (\<exists>t q bl. job_table_init (b_jobs_mutex b) = Some t \<and> job_queue_init True True = Some q \<and>
    blocklist_init True = Some bl \<and> (\<exists>fs'. su_world s = \<lparr>w_socks = socks, w_clients = replicate MAX_CLIENTS free_session,
      w_blocklist = bl, w_jobs = t, w_queue = q, w_fs = fs'\<rparr>))"
  using assms
  by (auto simp: start_data_def zero_world_def Let_def blocklist_init_def job_queue_init_def
      split: option.splits if_splits prod.splits)

lemma start_data_failed:
  "start_data b cfg st w k = Inl (Start_failed k' w') \<Longrightarrow> k_open k' = k_open k \<and> k_nodes k' = k_nodes k \<and> k_threads k' = k_threads k"
  by (auto simp: start_data_def clean_up_def Let_def release_no_fds
      split: option.splits if_splits prod.splits)

lemma start_fds_world:
  "start_fds b cfg s k = (k', s', ok) \<Longrightarrow> su_world s' = (su_world s)\<lparr>w_fs := w_fs (su_world s')\<rparr>"
  by (auto simp: start_fds_def Let_def split: option.splits if_splits prod.splits)

text \<open>A started server is a start state of the system, with one busy slot per worker.\<close>

lemma started_parts:
  assumes "server_start b cfg st w k = Started k1 su"
  obtains s0 k0 where "start_data b cfg st w k = Inr s0" "start_fds b cfg s0 k = (k0, su, True)"
    "init_workers b cfg k0 = (k1, True)"
  using assms by (auto simp: server_start_def Let_def clean_up_def split: sum.splits prod.splits if_splits)
    (auto simp: start_data_def Let_def clean_up_def split: option.splits if_splits prod.splits)

lemma failed_parts:
  assumes "server_start b cfg st w k = Start_failed k' w'"
  obtains "start_data b cfg st w k = Inl (Start_failed k' w')"
  | s0 k0 su where "start_data b cfg st w k = Inr s0" "start_fds b cfg s0 k = (k0, su, False)"
      "clean_up cfg False True True su k0 = (k', w')"
  | s0 k0 k1 su where "start_data b cfg st w k = Inr s0" "start_fds b cfg s0 k = (k0, su, True)"
      "init_workers b cfg k0 = (k1, False)" "clean_up cfg False True True su k1 = (k', w')"
  using assms by (auto simp: server_start_def Let_def split: sum.splits prod.splits if_splits)

lemma started_world:
  assumes "server_start b cfg st (zero_world socks fs) k = Started k1 su"
  shows "pool_start \<lparr>p_world = su_world su, p_busy = Map.empty\<rparr>"
proof -
  from started_parts [OF assms] obtain s0 k0 where s: "start_data b cfg st (zero_world socks fs) k = Inr s0"
    "start_fds b cfg s0 k = (k0, su, True)" by metis
  from start_data_ok [OF s(1)] obtain t q bl fs' where d: "job_table_init (b_jobs_mutex b) = Some t"
    "job_queue_init True True = Some q" "blocklist_init True = Some bl"
    "su_world s0 = \<lparr>w_socks = socks, w_clients = replicate MAX_CLIENTS free_session, w_blocklist = bl, w_jobs = t,
       w_queue = q, w_fs = fs'\<rparr>" by auto
  obtain f where "su_world su = \<lparr>w_socks = socks, w_clients = replicate MAX_CLIENTS free_session, w_blocklist = bl,
      w_jobs = t, w_queue = q, w_fs = f\<rparr>"
    using start_fds_world [OF s(2)] by (auto simp: d(4))
  then show ?thesis using pool_start.intros [OF d(1-3)] by simp
qed

lemma clean_up_fds:
  assumes "holds_fds (rc_unix_socket_path cfg) k d k1" "k_open k1 = k_open k2" "k_nodes k1 = k_nodes k2"
  shows "k_open (release_descriptors (rc_unix_socket_path cfg) d k2) = k_open k \<and>
    k_nodes (release_descriptors (rc_unix_socket_path cfg) d k2) \<subseteq> k_nodes k"
  using assms by (auto simp: frame_simps holds_fds_def)

section \<open>Properties of starting and stopping\<close>

text \<open>A machine on which the first \<open>threads\<close> threads start and the listening sockets below \<open>listening\<close> listen.\<close>

definition demo_boot :: "nat \<Rightarrow> nat \<Rightarrow> boot" where
  "demo_boot listening threads = \<lparr>b_blocklist_mutex = True, b_sigaction = True, b_jobs_mutex = True, b_queue_mutex = True,
     b_queue_cond = True, b_pipe = Some (4, 5), b_getfl = True, b_setfl = True, b_inotify_init = Some 6,
     b_watch = (\<lambda>p. Some 1), b_socket = (\<lambda>i. Some (7 + int i)), b_setsockopt = (\<lambda>i. True), b_bind = (\<lambda>i p. True),
     b_bind_unix = (\<lambda>p. True), b_listen = (\<lambda>i. i < listening), b_unlink = (\<lambda>p. True), b_thread = (\<lambda>i. i < threads)\<rparr>"

definition demo_kernel :: kernel where
  "demo_kernel = \<lparr>k_open = {0, 1, 2}, k_nodes = {}, k_threads = {}\<rparr>"

abbreviation demo_zero :: world where
  "demo_zero \<equiv> zero_world (\<lambda>fd. None) demo_disk"

lemma demo_boot_fresh: "boot_fresh (demo_boot l n) demo_kernel"
  by (simp add: boot_fresh_def boot_fds_def demo_boot_def demo_kernel_def)

lemma demo_dirs:
  "snd (storage_set_root storage_default ''storage'') \<and> snd (storage_init_dirs (fst (storage_set_root storage_default ''storage'')) demo_disk)"
  by (simp add: storage_set_root_def storage_default_def MAX_JOB_PATH_def snprintf_s_def cstr_def build_child_path_def
      snprintf_fmt_def storage_init_dirs_def ensure_directory_exists_def demo_disk_def mkdir_def parent_dir_def)

lemma demo_data: "\<exists>s0. start_data (demo_boot l n) runtime_config_set_defaults storage_default demo_zero demo_kernel = Inr s0"
  using demo_dirs
  by (auto simp: start_data_def demo_boot_def blocklist_init_def job_table_init_def job_queue_init_def Let_def zero_world_def
     runtime_config_set_defaults_def copy_str_def snprintf_s_def CFG_PATH_MAX_def cstr_def split: prod.splits)

lemma demo_fds:
  assumes "start_data (demo_boot l n) runtime_config_set_defaults storage_default demo_zero demo_kernel = Inr s0"
  shows "\<exists>k0 su. start_fds (demo_boot l n) runtime_config_set_defaults s0 demo_kernel = (k0, su, 3 \<le> l) \<and> k_threads k0 = {}"
  using start_data_ok [OF assms]
  by (simp add: start_fds_def demo_boot_def set_nonblocking_def init_inotify_def create_listen_socket_def demo_kernel_def
      create_unix_listen_socket_def Let_def runtime_config_set_defaults_def copy_str_def snprintf_s_def CFG_PATH_MAX_def
      cstr_def SUN_PATH_SIZE_def frame_simps)

lemma demo_workers: "\<exists>k'. init_workers (demo_boot l 3) runtime_config_set_defaults k = (k', True)"
  by (simp add: init_workers_def runtime_config_set_defaults_def eval_nat_numeral demo_boot_def)

lemma demo_started:
  "\<exists>k1 su. server_start (demo_boot 3 3) runtime_config_set_defaults storage_default demo_zero demo_kernel = Started k1 su"
proof -
  obtain s0 k0 su where s: "start_data (demo_boot 3 3) runtime_config_set_defaults storage_default demo_zero demo_kernel = Inr s0"
    "start_fds (demo_boot 3 3) runtime_config_set_defaults s0 demo_kernel = (k0, su, True)"
    using demo_data [of 3 3] demo_fds [of 3 3] by fastforce
  then show ?thesis using demo_workers [of 3 k0] by (auto simp: server_start_def)
qed

lemma demo_failed:
  "\<exists>k1 w. server_start (demo_boot 2 3) runtime_config_set_defaults storage_default demo_zero demo_kernel = Start_failed k1 w"
  using demo_data [of 2 3] demo_fds [of 2 3] by (auto simp: server_start_def split: prod.splits)

text \<open>
  C18: a start that fails gives everything back. Whatever step fails, every descriptor opened on the way
  is closed again, no descriptor of the process is closed by mistake and no socket file stays behind.
\<close>

theorem failed_start_closes_descriptors:
  assumes "boot_fresh b k" "server_start b cfg st (zero_world socks fs) k = Start_failed k' w'"
  shows "k_open k' = k_open k \<and> k_nodes k' \<subseteq> k_nodes k"
  using assms(2)
proof (cases rule: failed_parts)
  case 1
  then show ?thesis using start_data_failed by blast
next
  case (2 s0 k0 su)
  then show ?thesis
    using start_fds_holds [OF 2(2) conjunct1 [OF start_data_ok [OF 2(1)]] assms(1)] clean_up_fds [of cfg k "su_fds su" k0 k0]
    by (simp add: clean_up_def)
next
  case (3 s0 k0 k1 su)
  then show ?thesis
    using start_fds_holds [OF 3(2) conjunct1 [OF start_data_ok [OF 3(1)]] assms(1)] clean_up_fds [of cfg k "su_fds su" k0 k1]
      start_from_kernel [OF 3(3) [unfolded init_workers_def]]
    by (simp add: clean_up_def)
qed

theorem failed_start_closes_descriptors_witness:
  "\<exists>k' w'. server_start (demo_boot 2 3) runtime_config_set_defaults storage_default demo_zero demo_kernel = Start_failed k' w' \<and>
     k_open k' = {0, 1, 2}"
  using demo_failed failed_start_closes_descriptors [OF demo_boot_fresh] by (fastforce simp: demo_kernel_def)

lemma cleaned_up:
  assumes "boot_fresh b k" "server_start b cfg st (zero_world socks fs) k = Started k1 su" "pool_reach n s" "k_threads k = {}"
  shows "\<exists>k2 w. clean_up cfg True True True (su\<lparr>su_world := p_world s\<rparr>) k1 = (k2, Some w) \<and>
      k_open k2 = k_open k \<and> k_threads k2 = {} \<and> k_nodes k2 = k_nodes k - {rc_unix_socket_path cfg} \<and>
      q_nodes (w_queue w) = Map.empty \<and> tbl_jobs (w_jobs w) = [] \<and> filter c_active (w_clients w) = []"
proof -
  from started_parts [OF assms(2)] obtain s0 k0 where s: "start_data b cfg st (zero_world socks fs) k = Inr s0"
    "start_fds b cfg s0 k = (k0, su, True)" "init_workers b cfg k0 = (k1, True)" by metis
  have h: "holds_fds (rc_unix_socket_path cfg) k (su_fds su) k0" "0 \<le> listen_fd_unix (su_fds su)"
    using start_fds_holds [OF s(2) conjunct1 [OF start_data_ok [OF s(1)]] assms(1)] by simp_all
  have k1: "k_open k1 = k_open k0" "k_nodes k1 = k_nodes k0"
    "k_threads k1 = k_threads k0 \<union> {0..<nat (rc_worker_count cfg)}"
    using start_from_kernel [OF s(3) [unfolded init_workers_def]] by auto
  have "k_open (fst (clean_up cfg True True True (su\<lparr>su_world := p_world s\<rparr>) k1)) = k_open k"
    "k_threads (fst (clean_up cfg True True True (su\<lparr>su_world := p_world s\<rparr>) k1)) = {}"
    "k_nodes (fst (clean_up cfg True True True (su\<lparr>su_world := p_world s\<rparr>) k1)) = k_nodes k - {rc_unix_socket_path cfg}"
    using h k1 assms(4) by (auto simp: clean_up_def stop_workers_def frame_simps holds_fds_def)
  moreover obtain w where "cleanup_server_state True True True (p_world s) = Some w" "q_nodes (w_queue w) = Map.empty"
    "tbl_jobs (w_jobs w) = []" "filter c_active (w_clients w) = []"
    using shutdown_releases_everything [OF assms(3)] by blast
  ultimately show ?thesis by (auto simp: clean_up_def)
qed

lemma run_loop_reach:
  "pool_reach n \<lparr>p_world = w, p_busy = busy\<rparr> \<Longrightarrow> (\<And>io. Poll_timeout io \<in> set rs \<or> Poll_ready io \<in> set rs \<Longrightarrow> io_fresh io) \<Longrightarrow>
     pool_reach n \<lparr>p_world = run_loop rs w, p_busy = busy\<rparr>"
proof (induction rs arbitrary: w)
  case (Cons r rs)
  have round: "pool_reach n \<lparr>p_world = server_round io ready w, p_busy = busy\<rparr>" if "io_fresh io" for io ready
    by (rule reach_server_steps [OF server_round_steps [OF that] Cons.prems(1)])
  show ?case using Cons.IH Cons.prems round by (cases r) auto
qed simp

text \<open>The server thread on its own: it returns, with everything given back, whatever the polls report.\<close>

lemma server_run_returns:
  assumes "boot_fresh b k" "k_threads k = {}" "server_start b cfg st (zero_world socks fs) k = Started k1 su"
    and "\<And>io. Poll_timeout io \<in> set polls \<or> Poll_ready io \<in> set polls \<Longrightarrow> io_fresh io"
  shows "\<exists>k2 w. server_run b cfg st (zero_world socks fs) polls k = (k2, Some w, True) \<and> k_open k2 = k_open k \<and> k_threads k2 = {}"
proof -
  have "pool_reach n \<lparr>p_world = run_loop polls (su_world su), p_busy = Map.empty\<rparr>" for n
    by (rule run_loop_reach [OF pr_start [OF started_world [OF assms(3)]] assms(4)])
  from cleaned_up [OF assms(1,3) this assms(2)] show ?thesis by (auto simp: server_run_def assms(3))
qed

text \<open>
  C4: the whole life of the server is balanced. A start that succeeds enters the loop in a start state of
  the system of server and workers; from there, after any steps of sessions, requests and workers, the
  clean-up joins every worker thread, closes every descriptor that was opened, removes the socket file,
  frees the queue, empties the job table and closes every session.
\<close>

theorem server_life_is_balanced:
  assumes "boot_fresh b k" "server_start b cfg st (zero_world socks fs) k = Started k1 su"
    and "(pool_step (nat (rc_worker_count cfg)))\<^sup>*\<^sup>* \<lparr>p_world = su_world su, p_busy = Map.empty\<rparr> s"
    and "k_threads k = {}"
  shows "pool_reach (nat (rc_worker_count cfg)) s \<and>
    (\<exists>k2 w. clean_up cfg True True True (su\<lparr>su_world := p_world s\<rparr>) k1 = (k2, Some w) \<and>
      k_open k2 = k_open k \<and> k_threads k2 = {} \<and> k_nodes k2 = k_nodes k - {rc_unix_socket_path cfg} \<and>
      q_nodes (w_queue w) = Map.empty \<and> tbl_jobs (w_jobs w) = [] \<and> filter c_active (w_clients w) = [])"
proof -
  from assms(3) have reach: "pool_reach (nat (rc_worker_count cfg)) s"
    by (induction rule: rtranclp_induct) (auto intro: pool_reach.intros started_world [OF assms(2)])
  then show ?thesis using cleaned_up [OF assms(1,2) reach assms(4)] by simp
qed

theorem server_life_is_balanced_witness:
  "\<exists>k1 su k2 w. server_start (demo_boot 3 3) runtime_config_set_defaults storage_default demo_zero demo_kernel = Started k1 su \<and>
     clean_up runtime_config_set_defaults True True True su k1 = (k2, Some w) \<and> k_open k2 = {0, 1, 2} \<and> k_threads k2 = {}"
proof -
  obtain k1 su where s: "server_start (demo_boot 3 3) runtime_config_set_defaults storage_default demo_zero demo_kernel = Started k1 su"
    using demo_started by blast
  have "k_threads demo_kernel = {}" by (simp add: demo_kernel_def)
  from server_life_is_balanced [OF demo_boot_fresh s rtranclp.rtrancl_refl this] s show ?thesis
    by (fastforce simp: demo_kernel_def)
qed

text \<open>
  C37: a worker that cannot be started leaves the ones before it running. When the creation of thread \<open>m\<close>
  fails, the flag \<^verbatim>\<open>workers_started\<close> is not set yet, so the clean-up joins nobody: the \<open>m\<close> threads already
  created run on while the queue and the job table they use have been destroyed.
\<close>

theorem failed_worker_start_leaks_threads:
  assumes "start_data b cfg st w k = Inr s0" "start_fds b cfg s0 k = (k0, su, True)" "k_threads k0 = {}"
    and "int m < rc_worker_count cfg" "b_thread b m = False" "{0..<m} \<subseteq> {x. b_thread b x}"
  shows "\<exists>k' w'. server_start b cfg st w k = Start_failed k' w' \<and> k_threads k' = {0..<m}"
  using assms(1-3) start_from_fails [OF assms(5,6), of "nat (rc_worker_count cfg)" k0] assms(4)
  by (simp add: server_start_def init_workers_def clean_up_def frame_simps)

theorem failed_worker_start_leaks_threads_witness:
  "\<exists>k' w'. server_start (demo_boot 3 2) runtime_config_set_defaults storage_default demo_zero demo_kernel = Start_failed k' w' \<and>
     k_threads k' = {0..<2}"
proof -
  obtain s0 where s0: "start_data (demo_boot 3 2) runtime_config_set_defaults storage_default demo_zero demo_kernel = Inr s0"
    using demo_data by blast
  obtain k0 su where k0: "start_fds (demo_boot 3 2) runtime_config_set_defaults s0 demo_kernel = (k0, su, True)" "k_threads k0 = {}"
    using demo_fds [OF s0] by auto
  show ?thesis
    by (rule failed_worker_start_leaks_threads [OF s0 k0]) (auto simp: demo_boot_def runtime_config_set_defaults_def)
qed

end
