(* ===== verification/Programs.thy ===== *)
theory Programs
  imports Admin Startup
begin

text \<open>
  The two client programs as processes: connecting (\<^verbatim>\<open>connect_to_server\<close> of \<^verbatim>\<open>src/client/main.c\<close> and
  \<^verbatim>\<open>connect_to_admin\<close> of \<^verbatim>\<open>src/admin/main.c\<close>), the work on the connection, and closing it. What the
  kernel answers to \<^verbatim>\<open>socket\<close>, \<^verbatim>\<open>inet_pton\<close> and \<^verbatim>\<open>connect\<close> is a parameter.
\<close>

section \<open>The code\<close>

record net_env =
  n_socket :: "int option"
  n_pton :: "string \<Rightarrow> u32 option"
  n_connect :: "u32 \<Rightarrow> u16 \<Rightarrow> sock option"

definition SERVER_HOST :: string where "SERVER_HOST = ''127.0.0.1''"
definition SERVER_PORT :: u16 where "SERVER_PORT = 9090"
definition ADMIN_PORT :: u16 where "ADMIN_PORT = 9091"

definition connect_to_server :: "net_env \<Rightarrow> string \<Rightarrow> u16 \<Rightarrow> kernel \<Rightarrow> kernel \<times> (int \<times> sock) option" where
  "connect_to_server e host port k =
     (case n_socket e of None \<Rightarrow> (k, None)
      | Some fd \<Rightarrow>
          let k1 = open_fd fd k in
          case n_pton e host of None \<Rightarrow> (close_fd fd k1, None)
          | Some addr \<Rightarrow>
              case n_connect e addr port of None \<Rightarrow> (close_fd fd k1, None)
              | Some s \<Rightarrow> (k1, Some (fd, s)))"

text \<open>\<^verbatim>\<open>connect_to_admin\<close> is the same function in the other program.\<close>

definition connect_to_admin :: "net_env \<Rightarrow> string \<Rightarrow> u16 \<Rightarrow> kernel \<Rightarrow> kernel \<times> (int \<times> sock) option" where
  "connect_to_admin e host port k =
     (case n_socket e of None \<Rightarrow> (k, None)
      | Some fd \<Rightarrow>
          let k1 = open_fd fd k in
          case n_pton e host of None \<Rightarrow> (close_fd fd k1, None)
          | Some addr \<Rightarrow>
              case n_connect e addr port of None \<Rightarrow> (close_fd fd k1, None)
              | Some s \<Rightarrow> (k1, Some (fd, s)))"

text \<open>
  \<^verbatim>\<open>main\<close>: \<open>args\<close> are the arguments after the program name, the last component is \<^verbatim>\<open>EXIT_SUCCESS\<close>. There are two
  places that close the socket: after a usage error, and at the end. Descriptors of files are opened
  and closed inside the commands and are not in \<open>k_open\<close>.
\<close>

definition client_program :: "net_env \<Rightarrow> filesys \<Rightarrow> string list \<Rightarrow> kernel \<Rightarrow> kernel \<times> client option \<times> bool" where
  "client_program e fs args k =
     (if args = [] then (k, None, False)
      else case connect_to_server e SERVER_HOST SERVER_PORT k of (k1, conn) \<Rightarrow>
      case conn of None \<Rightarrow> (k1, None, False)
      | Some (fd, s) \<Rightarrow>
          let c0 = fst (read_banner \<lparr>cl_sock = s, cl_fs = fs, cl_stdout = []\<rparr>) in
          case run_command args c0 of (c1, rc) \<Rightarrow>
          case rc of None \<Rightarrow> (close_fd fd k1, Some c1, False)
          | Some ok \<Rightarrow>
              let c2 = fst (send_line (''QUIT'' @ [NL]) c1);
                  c3 = fst (expect_line BUFFER_SIZE c2)
              in (close_fd fd k1, Some c3, ok))"

definition admin_program ::
  "net_env \<Rightarrow> (string \<Rightarrow> bool) \<Rightarrow> string \<Rightarrow> string list \<Rightarrow> kernel \<Rightarrow> (kernel \<times> admin option \<times> bool) option" where
  "admin_program e export_ok stdin args k =
     (let host = (case args of a # _ \<Rightarrow> a | [] \<Rightarrow> SERVER_HOST);
          port = (case args of _ # p # _ \<Rightarrow> port_of (atoi p) | _ \<Rightarrow> ADMIN_PORT) in
      case connect_to_admin e host port k of (k1, conn) \<Rightarrow>
      case conn of None \<Rightarrow> Some (k1, None, False)
      | Some (fd, s) \<Rightarrow>
          (case admin_main export_ok \<lparr>ad_sock = s, ad_stdin = stdin, ad_out = []\<rparr> of
             None \<Rightarrow> None
           | Some a1 \<Rightarrow> Some (close_fd fd k1, Some a1, True)))"

section \<open>Properties of the programs\<close>

lemma connect_kernel:
  assumes "set_option (n_socket e) \<inter> k_open k = {}"
  shows "case connect_to_server e h p k of (k1, None) \<Rightarrow> k_open k1 = k_open k
    | (k1, Some (fd, s)) \<Rightarrow> fd \<notin> k_open k \<and> k_open k1 = insert fd (k_open k)"
  using assms by (auto simp: connect_to_server_def Let_def frame_simps split: option.splits)

lemma connect_admin_same: "connect_to_admin = connect_to_server"
  by (simp add: connect_to_admin_def connect_to_server_def fun_eq_iff)

text \<open>
  C35: the client programs leave no connection open. Whatever fails, whatever the command line says and
  whatever the server answers, a program that returns has closed the socket it opened, once, and no
  other descriptor it had before; a program that could not connect exits with failure.
\<close>

theorem programs_close_their_socket:
  assumes "set_option (n_socket e) \<inter> k_open k = {}"
  shows "k_open (fst (client_program e fs args k)) = k_open k \<and>
    (fst (snd (client_program e fs args k)) = None \<longrightarrow> \<not> snd (snd (client_program e fs args k))) \<and>
    pred_option (\<lambda>r. k_open (fst r) = k_open k \<and> (fst (snd r) = None \<longrightarrow> \<not> snd (snd r)))
      (admin_program e export_ok stdin aargs k)"
proof (intro conjI)
  note con = connect_kernel [OF assms]
  show "k_open (fst (client_program e fs args k)) = k_open k"
    using con [of SERVER_HOST SERVER_PORT]
    by (auto simp: client_program_def Let_def frame_simps split: prod.splits option.splits)
  show "fst (snd (client_program e fs args k)) = None \<longrightarrow> \<not> snd (snd (client_program e fs args k))"
    by (auto simp: client_program_def Let_def split: prod.splits option.splits)
  show "pred_option (\<lambda>r. k_open (fst r) = k_open k \<and> (fst (snd r) = None \<longrightarrow> \<not> snd (snd r)))
      (admin_program e export_ok stdin aargs k)"
    using con [of "case aargs of a # _ \<Rightarrow> a | [] \<Rightarrow> SERVER_HOST" "case aargs of _ # p # _ \<Rightarrow> port_of (atoi p) | _ \<Rightarrow> ADMIN_PORT"]
    by (auto simp: admin_program_def connect_admin_same Let_def frame_simps split: prod.splits option.splits)
qed

text \<open>Connected, with a usage error, with a command, and a connection that is refused.\<close>

definition demo_net :: "bytes \<Rightarrow> net_env" where
  "demo_net d = \<lparr>n_socket = Some 3, n_pton = (\<lambda>h. Some 0x7F000001),
     n_connect = (\<lambda>a p. if p = SERVER_PORT then Some \<lparr>s_in = d, s_out = [], s_sched = []\<rparr> else None)\<rparr>"

definition demo_process :: kernel where
  "demo_process = \<lparr>k_open = {0, 1, 2}, k_nodes = {}, k_threads = {}\<rparr>"

lemma demo_usage:
  "\<exists>c. client_program (demo_net d) demo_disk [''decode'', ''a.png''] demo_process =
     (close_fd 3 (open_fd 3 demo_process), Some c, False)"
  by (auto simp: client_program_def connect_to_server_def demo_net_def Let_def run_command_def)

lemma demo_ping:
  "\<exists>c ok. client_program (demo_net d) demo_disk [''ping''] demo_process =
     (close_fd 3 (open_fd 3 demo_process), Some c, ok)"
  by (simp add: client_program_def connect_to_server_def demo_net_def Let_def run_command_def split: prod.split)

theorem programs_close_their_socket_witness:
  "(\<exists>c. client_program (demo_net (bytes_of (''OK'' @ [NL]))) demo_disk [''decode'', ''a.png''] demo_process = (close_fd 3 (open_fd 3 demo_process), Some c, False)) \<and>
   (\<exists>c ok. client_program (demo_net (bytes_of (''OK'' @ [NL]))) demo_disk [''ping''] demo_process = (close_fd 3 (open_fd 3 demo_process), Some c, ok)) \<and>
   k_open (fst (client_program (demo_net (bytes_of (''OK'' @ [NL]))) demo_disk [''decode'', ''a.png''] demo_process)) = {0, 1, 2} \<and>
   k_open (fst (client_program (demo_net (bytes_of (''OK'' @ [NL]))) demo_disk [''ping''] demo_process)) = {0, 1, 2} \<and>
   pred_option (\<lambda>r. k_open (fst r) = {0, 1, 2}) (admin_program (demo_net (bytes_of (''OK'' @ [NL]))) (\<lambda>d. True) ''0'' [] demo_process)"
proof -
  have fresh: "set_option (n_socket (demo_net (bytes_of (''OK'' @ [NL])))) \<inter> k_open demo_process = {}" by (simp add: demo_net_def demo_process_def)
  have "k_open demo_process = {0, 1, 2}" by (simp add: demo_process_def)
  then show ?thesis
    using programs_close_their_socket [OF fresh, of demo_disk "[''decode'', ''a.png'']" "\<lambda>d. True" "''0''" "[]"]
      programs_close_their_socket [OF fresh, of demo_disk "[''ping'']" "\<lambda>d. True" "''0''" "[]"] demo_usage [of "bytes_of (''OK'' @ [NL])"] demo_ping [of "bytes_of (''OK'' @ [NL])"]
    by (auto simp: pred_option_def option.pred_set)
qed

end
