(* ===== verification/Spec2Isabelle.thy ===== *)
theory Spec2Isabelle
  imports Programs Png_Utils
begin

text \<open>
  A verification development for StegaPNG: a C server that hides text and files in the pixels of PNG
  images, its command line client and its administrator's console.

  \<^bold>\<open>The program.\<close> The server (\<^verbatim>\<open>src/server\<close>, \<^verbatim>\<open>include\<close>) is one thread in a \<^verbatim>\<open>poll\<close> loop and a few worker
  threads. The server thread accepts users, one administrator and local connections, reads one line of
  a text protocol at a time, receives uploads into a storage directory, and creates jobs: each gets an
  entry of the job table and a place in a linked queue. A worker pops a job, runs it (codec,
  validation, capacity, text), records its result and reports it through a pipe. Users poll the state
  of a job and download its output; the administrator lists, cancels, kicks and blocks. The clients
  (\<^verbatim>\<open>src/client/main.c\<close>, \<^verbatim>\<open>src/admin/main.c\<close>) speak the other side of the protocol.

  \<^bold>\<open>Theories and code.\<close>
  \<^item> \<^theory_text>\<open>Stega_Prelude\<close>: machine types, the fact collections, lemmas on lists and words. \<^theory_text>\<open>Clib\<close>: C strings,
    \<^verbatim>\<open>snprintf\<close>, \<^verbatim>\<open>strtol\<close> and kin. \<^theory_text>\<open>Filesys\<close>: regular files, directories and what a device does to them.
    \<^theory_text>\<open>Doubles\<close>: the rounding of \<^verbatim>\<open>double\<close> arithmetic, with the error bounds of conversions and sums.
  \<^item> \<^theory_text>\<open>Stego_Crc\<close>, \<^theory_text>\<open>Stego_Image\<close>, \<^theory_text>\<open>Stego_Container\<close>, \<^theory_text>\<open>Stego_Codec\<close>: \<^verbatim>\<open>stego.c\<close>, from the checksum over
    the pixel loops (\<^verbatim>\<open>embed_bits\<close>, \<^verbatim>\<open>extract_bits\<close>) and the header fields (\<^verbatim>\<open>build_container\<close>) to the functions
    on files (\<^verbatim>\<open>stego_encode_text\<close>, \<^verbatim>\<open>stego_encode_file\<close>, \<^verbatim>\<open>stego_decode\<close>). \<^theory_text>\<open>Png_Utils\<close>: \<^verbatim>\<open>png_utils.c\<close>.
  \<^item> \<^theory_text>\<open>Job_Table\<close>: \<^verbatim>\<open>job.c\<close>; a \<^verbatim>\<open>job_t *\<close> is an index of \<open>tbl_jobs\<close>. \<^theory_text>\<open>Job_Queue\<close>: \<^verbatim>\<open>queue.c\<close> on a heap of
    nodes. \<^theory_text>\<open>Protocol\<close>: \<^verbatim>\<open>protocol.c\<close>. \<^theory_text>\<open>Net_IO\<close>: the transfer loops of \<^verbatim>\<open>net.c\<close>. \<^theory_text>\<open>Storage\<close>: \<^verbatim>\<open>storage.c\<close>.
    \<^theory_text>\<open>Worker\<close>: \<^verbatim>\<open>worker.c\<close>, the six kinds of jobs and a round of \<^verbatim>\<open>worker_main\<close>.
  \<^item> \<^verbatim>\<open>server.c\<close>: \<^theory_text>\<open>Sessions\<close> (slots, accepting, blocklist; the state of the server thread is the record
    \<open>world\<close>), \<^theory_text>\<open>Server\<close> (every command, composed in \<open>handle_client_command\<close>), \<^theory_text>\<open>Requests\<close> (what one
    request achieves), \<^theory_text>\<open>Server_Loop\<close> (one round of the loop, clean-up), \<^theory_text>\<open>Events\<close> (worker pipe and
    inotify), \<^theory_text>\<open>Startup\<close> (\<^verbatim>\<open>server_run\<close> from the first initialisation to the return, worker threads,
    descriptors, and the listening sockets of \<^verbatim>\<open>net.c\<close>).
  \<^item> \<^theory_text>\<open>Pool\<close>: server thread and workers together, as a step relation with rule induction over the
    reachable states. \<^theory_text>\<open>Runtime_Config\<close>: \<^verbatim>\<open>runtime_config.c\<close> and \<^verbatim>\<open>main.c\<close>. \<^theory_text>\<open>Logger\<close>: \<^verbatim>\<open>logger.c\<close>.
  \<^item> \<^theory_text>\<open>Client\<close>, \<^theory_text>\<open>Admin\<close>: the two client programs on a connection, and with \<^theory_text>\<open>Programs\<close> as processes.

  \<^bold>\<open>What is shown.\<close>
  \<^item> Codec: encode then decode gives back text, file and name; decoding succeeds exactly on well-formed
    containers and rejects damaged ones; the table driven CRC is the standard CRC-32, given by its defining
    parameters, and separates short bursts; embedding touches only lowest bits; capacity is exact;
    failures leave no partial output.
  \<^item> Jobs: the linked queue is a FIFO; the table finds what it created; in every interleaving of server
    and workers each job is in exactly one place, states only advance, finished entries are final, and
    the workers alone finish every job; the statistics count exactly, and the average stays within a
    proved distance of the mean, with every rounding of \<^verbatim>\<open>double\<close> arithmetic in the model.
  \<^item> Server: transfers are exact under every schedule of interrupts and partial transfers; users cannot
    reach the administration, \<^verbatim>\<open>CANCEL\<close> apart; sessions stay sound; a round of the loop is a list of actions,
    given by its events, each a step of the system; starting and stopping are balanced on every path.
  \<^item> Ends together: the server parses what the clients print, stores what the client sent, and the
    client saves what the worker produced.
  \<^item> Divergences found: the theorems \<open>new_session_takes_event\<close>, \<open>failed_worker_start_leaks_threads\<close>,
    \<open>listjobs_goes_silent\<close>, \<open>oversized_text_run_as_commands\<close>, \<open>long_ip_is_not_blocked\<close>,
    \<open>lsb_capacity_overstates_rgba\<close>, \<open>config_file_option_ignored\<close>, \<open>numbers_wrap\<close>,
    \<open>failed_job_shows_wrong_reply\<close>, \<open>unflushed_download_reported_saved\<close> and \<open>menu_never_returns_at_eof\<close>; and
    from the documents: \<open>user_commands_are_confined\<close> (\<^verbatim>\<open>CANCEL\<close>, listed for the administrator, is open to
    users) and \<open>configuration_precedence\<close> (three workers by default, not four).

  \<^bold>\<open>Interfaces.\<close> Four locales hold the laws one component needs of another, with the lemmas proved from
  them, and are interpreted on the code's model: \<open>fifo\<close> (\<open>jq\<close>, the linked queue), \<open>keyed_store\<close> (\<open>jobs\<close>,
  the job table), \<open>field_codec\<close> (\<open>be16\<close>, \<open>be32\<close>, the header fields) and \<open>bit_channel\<close> (\<open>lsb\<close>, the pixels).

  \<^bold>\<open>Bounds and termination.\<close> Sizes are those of \<^verbatim>\<open>include/config.h\<close> and \<^verbatim>\<open>include/job.h\<close>, on 64-bit Linux. A
  transfer loop consumes its schedule or makes progress in each round; this is its measure, so no fuel
  is needed. \<^verbatim>\<open>wait_for_done\<close> has the code's own bound of 120 polls. The list freed by
  \<^verbatim>\<open>job_queue_destroy\<close> and the menu of the console are \<^theory_text>\<open>partial_function\<close>s: the first is shown to return
  on every well-formed queue, the second on sessions that quit, and never at the end of its input. The
  poll loop runs over a list of poll results; its end stands for the signal that clears \<^verbatim>\<open>g_running\<close>.

  \<^bold>\<open>Assumptions.\<close> A request handler and each half of a worker's round is one step, as are the functions that
  hold a mutex. \<^verbatim>\<open>accept\<close>, \<^verbatim>\<open>socket\<close> and \<^verbatim>\<open>calloc\<close> return what is not in use. libpng, which is not part of
  the repository, is the record \<open>libpng\<close>; \<open>libpng_rows\<close> says that rows have the announced length and
  \<open>libpng_lossless\<close> that a written image reads back, and the witnesses meet both with \<open>raw_png\<close>. libconfig
  is three lookup functions per file. The clock, memory and the kernel's answers are arguments.
  The bytes a peer sends are a list, and its end is read as the end of the connection: a read that waits
  for more is not represented. The descriptors of the programs' files are opened and closed within one
  function and not counted; those of sockets, pipes and inotify are.

  \<^bold>\<open>Not modelled.\<close> The signal handlers (they only clear a flag), help, version, usage, menu and prompt texts
  and the summary of the configuration in the log (output only), pauses, interleavings inside a handler
  or inside a mutex-protected function, \<^verbatim>\<open>fork\<close> and \<^verbatim>\<open>execl\<close> of the log archive (a parameter), the test
  program \<^verbatim>\<open>tests/stego_test.c\<close> (its checks are instances of the round trips), and the Python client, REST
  gateway, scripts, build and documentation files.

  \<^bold>\<open>Still open.\<close> The poll loop with the event sources drained in the same round; a worker's round split
  at its polls for cancellation, so that files written meanwhile by other workers interleave with it;
  the client's whole \<open>ENCODE_FILE\<close> exchange against the server.
\<close>

end
